(* ===== verification/Prelude.thy ===== *)
theory Prelude
  imports Complex_Main "HOL-Library.Sublist" "HOL-Library.Option_ord"
begin

text \<open>
  Shared ground of the development.  Python values the program computes with:
  strings as lists of code points below 256 (so \<open>char\<close> is a code point of the
  Latin-1 range, where \<open>str.lower\<close>, \<open>str.strip\<close> and \<open>str.splitlines\<close> are
  modelled exactly), raised exceptions as the left side of a sum, timestamps as
  microseconds.  After that the string methods the source calls, the
  order-preserving removal of duplicates it uses in three places, and the row
  operations of a database table, with the lemmas about them that the component
  theories share.
\<close>

named_theorems py_defs \<open>definitions of the Python primitives\<close>
named_theorems db_simps \<open>rewriting of table lookups after updates\<close>

section \<open>Results and exceptions\<close>

datatype pyerr =
    ValueError string
  | TypeError
  | AttributeError
  | KeyError
  | IndexError
  | RuntimeError string
  | MultipleResultsFound
  | HTTPException nat string
  | OtherError string

type_synonym 'a res = "pyerr + 'a"

fun rbind :: "'a res \<Rightarrow> ('a \<Rightarrow> 'b res) \<Rightarrow> 'b res" where
  "rbind (Inl e) f = Inl e"
| "rbind (Inr x) f = f x"

lemma rbind_eq_Inr [simp]: "rbind m f = Inr y \<longleftrightarrow> (\<exists>x. m = Inr x \<and> f x = Inr y)"
  by (cases m) auto

lemma rbind_eq_Inl: "rbind m f = Inl e \<longleftrightarrow> m = Inl e \<or> (\<exists>x. m = Inr x \<and> f x = Inl e)"
  by (cases m) auto

fun mapM_res :: "('a \<Rightarrow> 'b res) \<Rightarrow> 'a list \<Rightarrow> 'b list res" where
  "mapM_res f [] = Inr []"
| "mapM_res f (x # xs) = rbind (f x) (\<lambda>y. rbind (mapM_res f xs) (\<lambda>ys. Inr (y # ys)))"

lemma mapM_res_Inr_length: "mapM_res f xs = Inr ys \<Longrightarrow> length ys = length xs"
  by (induction xs arbitrary: ys) auto

section \<open>Time\<close>

text \<open>
  A \<open>datetime\<close> in UTC is its number of microseconds.  \<open>int(td.total_seconds())\<close>
  truncates towards zero.
\<close>

type_synonym time = int

definition trunc_seconds :: "int \<Rightarrow> int" where
  "trunc_seconds us = (if 0 \<le> us then us div 1000000 else - ((- us) div 1000000))"

definition seconds :: "int \<Rightarrow> time" where
  "seconds s = s * 1000000"

lemma trunc_seconds_nonneg: "0 \<le> us \<Longrightarrow> 0 \<le> trunc_seconds us"
  by (simp add: trunc_seconds_def pos_imp_zdiv_nonneg_iff)

lemma trunc_seconds_bounds:
  assumes "0 \<le> us"
  shows "seconds (trunc_seconds us) \<le> us \<and> us < seconds (trunc_seconds us + 1)"
  using assms by (simp add: trunc_seconds_def seconds_def) linarith

lemma trunc_seconds_seconds [simp]: "trunc_seconds (seconds s) = s"
proof -
  have "(- (s * 1000000)) div 1000000 = - s"
    by (metis mult_minus_left nonzero_mult_div_cancel_right zero_neq_numeral)
  then show ?thesis by (simp add: trunc_seconds_def seconds_def)
qed

section \<open>Truth values of optional strings\<close>

text \<open>\<open>x or y\<close> on optional strings: \<open>None\<close> and the empty string are false.\<close>

definition truthy :: "string option \<Rightarrow> bool" where
  "truthy x \<longleftrightarrow> x \<noteq> None \<and> x \<noteq> Some []"

fun or_else :: "string option \<Rightarrow> string option \<Rightarrow> string option" where
  "or_else x y = (if truthy x then x else y)"

lemma truthy_simps [simp]:
  "\<not> truthy None" "\<not> truthy (Some [])" "truthy (Some (c # cs))"
  by (simp_all add: truthy_def)

lemma truthy_Some_iff: "truthy (Some s) \<longleftrightarrow> s \<noteq> []"
  by (simp add: truthy_def)

section \<open>Characters\<close>

definition cp :: "char \<Rightarrow> nat" where
  "cp c = of_char c"

text \<open>\<open>str.isspace\<close> on the Latin-1 range; the same set is \<open>\\s\<close> of a \<open>str\<close> pattern.\<close>

definition is_space :: "char \<Rightarrow> bool" where
  "is_space c \<longleftrightarrow> (let n = cp c in 9 \<le> n \<and> n \<le> 13 \<or> 28 \<le> n \<and> n \<le> 32 \<or> n = 133 \<or> n = 160)"

text \<open>The line boundaries of \<open>str.splitlines\<close> on the Latin-1 range.\<close>

definition is_linebreak :: "char \<Rightarrow> bool" where
  "is_linebreak c \<longleftrightarrow> (let n = cp c in 10 \<le> n \<and> n \<le> 13 \<or> 28 \<le> n \<and> n \<le> 30 \<or> n = 133)"

definition is_digit :: "char \<Rightarrow> bool" where
  "is_digit c \<longleftrightarrow> (let n = cp c in 48 \<le> n \<and> n \<le> 57)"

definition is_ascii_letter :: "char \<Rightarrow> bool" where
  "is_ascii_letter c \<longleftrightarrow> (let n = cp c in 65 \<le> n \<and> n \<le> 90 \<or> 97 \<le> n \<and> n \<le> 122)"

definition is_ascii :: "char \<Rightarrow> bool" where
  "is_ascii c \<longleftrightarrow> cp c < 128"

text \<open>\<open>\\w\<close> of a \<open>str\<close> pattern: \<open>isalnum\<close> or the underscore.\<close>

definition is_word :: "char \<Rightarrow> bool" where
  "is_word c \<longleftrightarrow>
     (let n = cp c in is_digit c \<or> is_ascii_letter c \<or> n = 95
        \<or> n \<in> {170, 178, 179, 181, 185, 186, 188, 189, 190}
        \<or> 192 \<le> n \<and> n \<le> 255 \<and> n \<noteq> 215 \<and> n \<noteq> 247)"

definition lower_char :: "char \<Rightarrow> char" where
  "lower_char c =
     (let n = cp c in
      if 65 \<le> n \<and> n \<le> 90 \<or> 192 \<le> n \<and> n \<le> 222 \<and> n \<noteq> 215 then char_of (n + 32) else c)"

definition py_lower :: "string \<Rightarrow> string" where
  "py_lower s = map lower_char s"

lemmas char_class_defs = is_space_def is_linebreak_def is_digit_def is_ascii_letter_def
  is_ascii_def is_word_def lower_char_def Let_def cp_def

lemma cp_bound: "cp c < 256"
  by (simp add: cp_def)

lemma cp_char_of: "n < 256 \<Longrightarrow> cp (char_of n) = n"
  by (simp add: cp_def)

lemma lower_char_idem [simp]: "lower_char (lower_char c) = lower_char c"
  using cp_bound [of c] by (auto simp: lower_char_def Let_def cp_char_of)

lemma py_lower_idem [simp]: "py_lower (py_lower s) = py_lower s"
  by (simp add: py_lower_def)

lemma py_lower_append: "py_lower (s @ t) = py_lower s @ py_lower t"
  by (simp add: py_lower_def)

lemma length_py_lower [simp]: "length (py_lower s) = length s"
  by (simp add: py_lower_def)

section \<open>String methods\<close>

definition startswith :: "string \<Rightarrow> string \<Rightarrow> bool" where
  "startswith s p \<longleftrightarrow> take (length p) s = p"

definition endswith :: "string \<Rightarrow> string \<Rightarrow> bool" where
  "endswith s p \<longleftrightarrow> length p \<le> length s \<and> drop (length s - length p) s = p"

definition removeprefix :: "string \<Rightarrow> string \<Rightarrow> string" where
  "removeprefix s p = (if startswith s p then drop (length p) s else s)"

definition removesuffix :: "string \<Rightarrow> string \<Rightarrow> string" where
  "removesuffix s p = (if p \<noteq> [] \<and> endswith s p then take (length s - length p) s else s)"

text \<open>\<open>sub in s\<close>.\<close>

fun contains :: "string \<Rightarrow> string \<Rightarrow> bool" where
  "contains sub [] \<longleftrightarrow> sub = []"
| "contains sub (c # cs) \<longleftrightarrow> startswith (c # cs) sub \<or> contains sub cs"

lemma startswith_append [simp]: "startswith (p @ s) p"
  by (simp add: startswith_def)

lemma startswith_iff_prefix: "startswith s p \<longleftrightarrow> prefix p s"
  by (auto simp: startswith_def prefix_def) (metis append_take_drop_id)

lemma contains_iff_sublist: "contains sub s \<longleftrightarrow> sublist sub s"
  by (induction s) (auto simp: startswith_iff_prefix sublist_Cons_right)

lemma contains_append: "contains sub (xs @ sub @ ys)"
  by (auto simp: contains_iff_sublist sublist_def)

definition strip_by :: "(char \<Rightarrow> bool) \<Rightarrow> string \<Rightarrow> string" where
  "strip_by p s = rev (dropWhile p (rev (dropWhile p s)))"

definition rstrip_by :: "(char \<Rightarrow> bool) \<Rightarrow> string \<Rightarrow> string" where
  "rstrip_by p s = rev (dropWhile p (rev s))"

definition py_strip :: "string \<Rightarrow> string" where
  "py_strip s = strip_by is_space s"

lemma strip_by_none:
  assumes "s \<noteq> []" "\<not> p (hd s)" "\<not> p (last s)"
  shows "strip_by p s = s"
proof -
  have "dropWhile p s = s" using assms by (cases s) auto
  moreover have "dropWhile p (rev s) = rev s"
    using assms by (cases s rule: rev_cases) auto
  ultimately show ?thesis by (simp add: strip_by_def)
qed

lemma rstrip_by_last: "rstrip_by p s \<noteq> [] \<Longrightarrow> \<not> p (last (rstrip_by p s))"
  by (metis hd_dropWhile last_rev rev_is_Nil_conv rstrip_by_def)

lemma rstrip_by_prefix: "prefix (rstrip_by p s) s"
proof -
  have "rev s = takeWhile p (rev s) @ dropWhile p (rev s)" by simp
  then have "s = rev (dropWhile p (rev s)) @ rev (takeWhile p (rev s))"
    by (metis rev_append rev_rev_ident)
  then show ?thesis unfolding rstrip_by_def prefix_def by blast
qed

lemma rstrip_by_idem [simp]: "rstrip_by p (rstrip_by p s) = rstrip_by p s"
  by (simp add: rstrip_by_def)

lemma strip_by_rstrip: "strip_by p s = rstrip_by p (dropWhile p s)"
  by (simp add: strip_by_def rstrip_by_def)

lemma strip_by_idem [simp]: "strip_by p (strip_by p s) = strip_by p s"
proof (cases "rstrip_by p (dropWhile p s)")
  case Nil
  then show ?thesis by (simp add: strip_by_rstrip) (simp add: rstrip_by_def)
next
  case (Cons c cs)
  have ne: "dropWhile p s \<noteq> []"
  proof
    assume e: "dropWhile p s = []"
    show False using Cons unfolding e by (simp add: rstrip_by_def)
  qed
  from rstrip_by_prefix [of p "dropWhile p s"] Cons
  have "c = hd (dropWhile p s)" by (auto simp: prefix_def)
  then have "\<not> p c" using ne hd_dropWhile [of p s] by simp
  then show ?thesis using Cons by (simp add: strip_by_rstrip) (metis Cons rstrip_by_idem)
qed

text \<open>\<open>s.split(c)\<close> with a one-character separator, and \<open>sep.join(ws)\<close>.\<close>

fun py_split :: "char \<Rightarrow> string \<Rightarrow> string list" where
  "py_split c [] = [[]]"
| "py_split c (x # xs) =
     (if x = c then [] # py_split c xs
      else (case py_split c xs of [] \<Rightarrow> [[x]] | w # ws \<Rightarrow> (x # w) # ws))"

fun py_join :: "string \<Rightarrow> string list \<Rightarrow> string" where
  "py_join sep [] = []"
| "py_join sep [w] = w"
| "py_join sep (w # v # ws) = w @ sep @ py_join sep (v # ws)"

lemma py_split_not_Nil [simp]: "py_split c s \<noteq> []"
  by (cases s) (auto split: list.split)

lemma py_join_split: "py_join [c] (py_split c s) = s"
proof (induction s)
  case Nil
  then show ?case by simp
next
  case (Cons x xs)
  obtain w ws where "py_split c xs = w # ws"
    using py_split_not_Nil by (meson neq_Nil_conv)
  then show ?case using Cons by (cases ws) auto
qed

lemma py_split_no_sep: "c \<notin> set s \<Longrightarrow> py_split c s = [s]"
  by (induction s) auto

lemma py_split_append: "c \<notin> set w \<Longrightarrow> py_split c (w @ c # s) = w # py_split c s"
  by (induction w) auto

lemma py_split_join:
  "ws \<noteq> [] \<Longrightarrow> \<forall>w \<in> set ws. c \<notin> set w \<Longrightarrow> py_split c (py_join [c] ws) = ws"
  by (induction "[c]" ws rule: py_join.induct) (auto simp: py_split_no_sep py_split_append)

lemma py_split_sep_free: "w \<in> set (py_split c s) \<Longrightarrow> c \<notin> set w"
proof (induction s arbitrary: w)
  case Nil
  then show ?case by simp
next
  case (Cons x xs)
  obtain v vs where "py_split c xs = v # vs"
    using py_split_not_Nil by (meson neq_Nil_conv)
  then show ?case using Cons by (auto split: if_splits)
qed

text \<open>\<open>str.splitlines\<close>: \<open>\\r\\n\<close> is one boundary, a final boundary adds no empty line.\<close>

definition CR :: char where "CR = CHR 0x0D"
definition LF :: char where "LF = CHR 0x0A"

text \<open>What is left after the boundary character \<open>c\<close>.\<close>

definition skip_lf :: "char \<Rightarrow> string \<Rightarrow> string" where
  "skip_lf c cs = (case cs of [] \<Rightarrow> [] | d # ds \<Rightarrow> if c = CR \<and> d = LF then ds else cs)"

lemma length_skip_lf: "length (skip_lf c cs) \<le> length cs"
  by (simp add: skip_lf_def split: list.split)

function splitlines_acc :: "string \<Rightarrow> string \<Rightarrow> string list" where
  "splitlines_acc acc [] = (if acc = [] then [] else [rev acc])"
| "splitlines_acc acc (c # cs) =
     (if is_linebreak c then rev acc # splitlines_acc [] (skip_lf c cs)
      else splitlines_acc (c # acc) cs)"
  by pat_completeness auto
termination
  by (relation "measure (\<lambda>(acc, cs). length cs)") (simp_all add: length_skip_lf less_Suc_eq_le)

definition splitlines :: "string \<Rightarrow> string list" where
  "splitlines s = splitlines_acc [] s"

definition no_break :: "string \<Rightarrow> bool" where
  "no_break l \<longleftrightarrow> list_all (\<lambda>c. \<not> is_linebreak c) l"

lemma no_break_simps [simp]:
  "no_break []" "no_break (c # l) \<longleftrightarrow> \<not> is_linebreak c \<and> no_break l"
  "no_break (l @ m) \<longleftrightarrow> no_break l \<and> no_break m" "no_break (rev l) \<longleftrightarrow> no_break l"
  by (simp_all add: no_break_def)

lemma splitlines_acc_no_break: "no_break acc \<Longrightarrow> list_all no_break (splitlines_acc acc s)"
proof (induction acc s rule: splitlines_acc.induct)
  case (1 acc)
  then show ?case by simp
next
  case (2 acc c cs)
  then show ?case by (cases "is_linebreak c") simp_all
qed

lemma splitlines_no_break: "list_all no_break (splitlines s)"
  by (simp add: splitlines_def splitlines_acc_no_break)

lemma splitlines_acc_append_LF:
  assumes "no_break l"
  shows "splitlines_acc acc (l @ LF # s) = (rev acc @ l) # splitlines_acc [] s"
  using assms
proof (induction l arbitrary: acc)
  case Nil
  have "is_linebreak LF" "LF \<noteq> CR" by (simp_all add: LF_def CR_def char_class_defs)
  then show ?case by (simp add: skip_lf_def split: list.split)
next
  case (Cons a l)
  then show ?case by simp
qed

lemma splitlines_acc_single:
  "no_break l \<Longrightarrow>
   splitlines_acc acc l = (if rev acc @ l = [] then [] else [rev acc @ l])"
  by (induction l arbitrary: acc) auto

text \<open>
  Joining lines with a newline and splitting again gives the lines back, up to
  a last empty line, which \<open>splitlines\<close> drops.
\<close>

lemma splitlines_join:
  assumes "list_all no_break ls"
  shows "splitlines (py_join [LF] ls) = (if ls \<noteq> [] \<and> last ls = [] then butlast ls else ls)"
  using assms
proof (induction "[LF]" ls rule: py_join.induct)
  case 1
  then show ?case by (simp add: splitlines_def)
next
  case (2 w)
  then show ?case by (simp add: splitlines_def splitlines_acc_single)
next
  case (3 w v ws)
  then show ?case by (simp add: splitlines_def splitlines_acc_append_LF)
qed

text \<open>\<open>str.replace\<close> of one character by a string.\<close>

definition replace_char :: "char \<Rightarrow> string \<Rightarrow> string \<Rightarrow> string" where
  "replace_char c r s = concat (map (\<lambda>x. if x = c then r else [x]) s)"

text \<open>\<open>str(n)\<close> and slices \<open>s[-n:]\<close>; \<open>s[:n]\<close> is \<^term>\<open>take n s\<close>.\<close>

fun str_nat :: "nat \<Rightarrow> string" where
  "str_nat n = (if n < 10 then [char_of (48 + n)] else str_nat (n div 10) @ [char_of (48 + n mod 10)])"

declare str_nat.simps [simp del]

definition str_int :: "int \<Rightarrow> string" where
  "str_int i = (if i < 0 then ''-'' @ str_nat (nat (- i)) else str_nat (nat i))"

definition take_last :: "nat \<Rightarrow> 'a list \<Rightarrow> 'a list" where
  "take_last n s = drop (length s - n) s"

lemma length_take_last [simp]: "length (take_last n s) = min n (length s)"
  by (simp add: take_last_def)

lemma suffix_take_last: "suffix (take_last n s) s"
  by (simp add: take_last_def suffix_drop)

lemma str_nat_not_Nil [simp]: "str_nat n \<noteq> []"
  by (subst str_nat.simps) simp

lemma digit_char:
  assumes "d < 10"
  shows "is_digit (char_of (48 + d))" "cp (char_of (48 + d)) = 48 + d"
  using assms by (simp_all add: is_digit_def Let_def cp_char_of)

lemma str_nat_digits: "c \<in> set (str_nat n) \<Longrightarrow> is_digit c"
proof (induction n rule: str_nat.induct)
  case (1 n)
  show ?case
  proof (cases "n < 10")
    case True
    then show ?thesis using 1 digit_char(1) [of n] by (subst (asm) str_nat.simps) auto
  next
    case False
    then show ?thesis using 1 digit_char(1) [of "n mod 10"] by (subst (asm) str_nat.simps) auto
  qed
qed

text \<open>Decimal notation is read back by the usual left fold, so it is injective.\<close>

definition read_nat :: "string \<Rightarrow> nat" where
  "read_nat s = foldl (\<lambda>n c. 10 * n + (cp c - 48)) 0 s"

lemma read_str_nat [simp]: "read_nat (str_nat n) = n"
proof (induction n rule: str_nat.induct)
  case (1 n)
  show ?case
  proof (cases "n < 10")
    case True
    then show ?thesis by (subst str_nat.simps) (simp add: read_nat_def digit_char)
  next
    case False
    then have "read_nat (str_nat (n div 10)) = n div 10" using 1 by simp
    then show ?thesis using False
      by (subst str_nat.simps) (simp add: read_nat_def digit_char)
  qed
qed

lemma str_nat_inj: "str_nat m = str_nat n \<longleftrightarrow> m = n"
  by (metis read_str_nat)

text \<open>
  Hexadecimal digits in lower case, and the stand-in for a code point above 255
  (one the source writes in a literal, or Python makes from an escape or from
  undecodable bytes).
\<close>

definition hex_digit :: "nat \<Rightarrow> char" where
  "hex_digit n = (if n < 10 then char_of (48 + n) else char_of (87 + n))"

definition hex_digit_value :: "char \<Rightarrow> nat option" where
  "hex_digit_value c =
     (let n = cp c in
      if 48 \<le> n \<and> n \<le> 57 then Some (n - 48)
      else if 97 \<le> n \<and> n \<le> 102 then Some (n - 87)
      else if 65 \<le> n \<and> n \<le> 70 then Some (n - 55)
      else None)"

definition REPLACEMENT :: char where "REPLACEMENT = CHR 0x1A"

lemma hex_digit_round: "n < 16 \<Longrightarrow> hex_digit_value (hex_digit n) = Some n"
  by (simp add: hex_digit_value_def hex_digit_def cp_char_of Let_def)

text \<open>\<open>xs[i]\<close> for an \<open>int\<close>: a negative index counts from the end, outside the list \<open>IndexError\<close>.\<close>

definition py_index :: "'a list \<Rightarrow> int \<Rightarrow> 'a res" where
  "py_index xs i =
     (let j = (if i < 0 then i + int (length xs) else i) in
      if 0 \<le> j \<and> j < int (length xs) then Inr (xs ! nat j) else Inl IndexError)"

lemma py_index_in: "0 \<le> i \<Longrightarrow> i < int (length xs) \<Longrightarrow> py_index xs i = Inr (xs ! nat i)"
  by (simp add: py_index_def)

lemma py_index_Nil [simp]: "py_index [] i = Inl IndexError"
  by (simp add: py_index_def)

section \<open>Order-preserving removal of duplicates\<close>

text \<open>The loop with a \<open>seen\<close> set that keeps the first of equal items.\<close>

fun dedup_seen :: "'a list \<Rightarrow> 'a list \<Rightarrow> 'a list" where
  "dedup_seen seen [] = []"
| "dedup_seen seen (x # xs) =
     (if List.member seen x then dedup_seen seen xs else x # dedup_seen (x # seen) xs)"

abbreviation dedup :: "'a list \<Rightarrow> 'a list" where
  "dedup \<equiv> dedup_seen []"

lemma set_dedup_seen: "set (dedup_seen seen xs) = set xs - set seen"
  by (induction xs arbitrary: seen) auto

lemma distinct_dedup_seen: "distinct (dedup_seen seen xs)"
  by (induction xs arbitrary: seen) (auto simp: set_dedup_seen)

lemma dedup_seen_distinct:
  "distinct xs \<Longrightarrow> set xs \<inter> set seen = {} \<Longrightarrow> dedup_seen seen xs = xs"
  by (induction xs arbitrary: seen) auto

lemma dedup_seen_snoc:
  "dedup_seen seen (xs @ [x]) =
     (if x \<in> set seen \<or> x \<in> set xs then dedup_seen seen xs else dedup_seen seen xs @ [x])"
  by (induction xs arbitrary: seen) auto

lemma dedup_eq_rev_remdups: "dedup xs = rev (remdups (rev xs))"
  by (induction xs rule: rev_induct) (auto simp: dedup_seen_snoc)

lemma subseq_dedup_seen: "subseq (dedup_seen seen xs) xs"
  by (induction xs arbitrary: seen) auto

lemmas dedup_facts = set_dedup_seen distinct_dedup_seen subseq_dedup_seen dedup_seen_distinct

section \<open>Rows of a table\<close>

text \<open>
  A table is the list of its rows in the order a scan returns them (PostgreSQL
  leaves the order of an unordered \<open>SELECT\<close> open; the model fixes the order of
  insertion).  \<open>upd_row\<close> is the effect of assigning attributes of the object
  loaded for a primary key and committing.
\<close>

definition get_row :: "('r \<Rightarrow> int) \<Rightarrow> int \<Rightarrow> 'r list \<Rightarrow> 'r option" where
  "get_row key i rs = List.find (\<lambda>r. key r = i) rs"

definition upd_row :: "('r \<Rightarrow> int) \<Rightarrow> int \<Rightarrow> ('r \<Rightarrow> 'r) \<Rightarrow> 'r list \<Rightarrow> 'r list" where
  "upd_row key i f rs = map (\<lambda>r. if key r = i then f r else r) rs"

text \<open>\<open>result.scalar_one_or_none()\<close> and \<open>result.scalars().first()\<close>.\<close>

fun scalar_one_or_none :: "'r list \<Rightarrow> 'r option res" where
  "scalar_one_or_none [] = Inr None"
| "scalar_one_or_none [r] = Inr (Some r)"
| "scalar_one_or_none (r # s # rs) = Inl MultipleResultsFound"

fun first_row :: "'r list \<Rightarrow> 'r option" where
  "first_row [] = None"
| "first_row (r # rs) = Some r"

lemma first_row_filter: "first_row (filter p rs) = List.find p rs"
  by (induction rs) auto

lemma first_row_SomeD: "first_row rs = Some r \<Longrightarrow> r \<in> set rs"
  by (cases rs) auto

lemma get_row_SomeD: "get_row key i rs = Some r \<Longrightarrow> r \<in> set rs \<and> key r = i"
  by (induction rs) (auto simp: get_row_def split: if_splits)

lemma get_row_None_iff: "get_row key i rs = None \<longleftrightarrow> i \<notin> key ` set rs"
  by (induction rs) (auto simp: get_row_def)

lemma get_row_mem:
  "distinct (map key rs) \<Longrightarrow> r \<in> set rs \<Longrightarrow> get_row key (key r) rs = Some r"
  by (induction rs) (auto simp: get_row_def)

lemma get_row_upd_row [db_simps]:
  assumes "\<And>r. key (f r) = key r"
  shows "get_row key j (upd_row key i f rs) =
         (if j = i then map_option f (get_row key i rs) else get_row key j rs)"
  by (induction rs) (auto simp: get_row_def upd_row_def assms)

lemma get_row_append [db_simps]:
  "get_row key i (rs @ [r]) =
     (case get_row key i rs of Some r' \<Rightarrow> Some r' | None \<Rightarrow> if key r = i then Some r else None)"
  by (induction rs) (auto simp: get_row_def)

lemma length_upd_row [simp]: "length (upd_row key i f rs) = length rs"
  by (simp add: upd_row_def)

lemma map_key_upd_row [simp]:
  "(\<And>r. g (f r) = g r) \<Longrightarrow> map g (upd_row key i f rs) = map g rs"
  by (induction rs) (auto simp: upd_row_def)

lemma set_upd_row:
  "set (upd_row key i f rs) = (\<lambda>r. if key r = i then f r else r) ` set rs"
  by (simp add: upd_row_def)

lemma upd_row_memE:
  assumes "r \<in> set (upd_row key i f rs)"
  obtains r0 where "r0 \<in> set rs" "key r0 = i" "r = f r0" | "r \<in> set rs" "key r \<noteq> i"
  using assms by (auto simp: set_upd_row split: if_splits)

lemma scalar_one_or_none_get_row:
  "distinct (map key rs) \<Longrightarrow> scalar_one_or_none (filter (\<lambda>r. key r = i) rs) = Inr (get_row key i rs)"
proof (induction rs)
  case Nil
  then show ?case by (simp add: get_row_def)
next
  case (Cons r rs)
  show ?case
  proof (cases "key r = i")
    case True
    then have "filter (\<lambda>r. key r = i) rs = []"
      using Cons.prems by (auto simp: filter_empty_conv rev_image_eqI)
    then show ?thesis using True by (simp add: get_row_def)
  next
    case False
    then show ?thesis using Cons by (simp add: get_row_def)
  qed
qed

lemma find_upd_row_other:
  "\<lbrakk>\<And>r. key r = i \<Longrightarrow> p (f r) = p r; \<And>r. key r = i \<Longrightarrow> p r \<Longrightarrow> f r = r\<rbrakk> \<Longrightarrow>
   List.find p (upd_row key i f rs) = List.find p rs"
  by (induction rs) (auto simp: upd_row_def)

text \<open>The first elements of a list sorted by a key (\<open>ORDER BY ... LIMIT\<close>).\<close>

lemma take_sort_key:
  fixes f :: "'a \<Rightarrow> 'b::linorder"
  shows "sorted (map f (take n (sort_key f xs)))" and "length (take n (sort_key f xs)) = min n (length xs)"
    and "set (take n (sort_key f xs)) \<subseteq> set xs"
    and "x \<in> set xs \<Longrightarrow> x \<notin> set (take n (sort_key f xs)) \<Longrightarrow> y \<in> set (take n (sort_key f xs)) \<Longrightarrow> f y \<le> f x"
proof -
  let ?s = "sort_key f xs"
  have s: "sorted (map f (take n ?s) @ map f (drop n ?s))"
    using sorted_sort_key [of f xs] by (simp flip: map_append)
  then show "sorted (map f (take n ?s))" unfolding sorted_append by blast
  show "length (take n ?s) = min n (length xs)" by simp
  have set: "set xs = set (take n ?s) \<union> set (drop n ?s)" by (metis append_take_drop_id set_append set_sort)
  then show "set (take n ?s) \<subseteq> set xs" by blast
  assume "x \<in> set xs" "x \<notin> set (take n ?s)" "y \<in> set (take n ?s)"
  then show "f y \<le> f x" using s set unfolding sorted_append by auto
qed

text \<open>Sums by key: every element is counted under exactly one of the distinct keys.\<close>

lemma sum_by_key:
  fixes g :: "'a \<Rightarrow> nat"
  assumes "distinct ks" "f ` set xs \<subseteq> set ks"
  shows "sum_list (map (\<lambda>k. sum_list (map g (filter (\<lambda>x. f x = k) xs))) ks) = sum_list (map g xs)"
  using assms(2)
proof (induction xs)
  case (Cons x xs)
  have "sum_list (map g (filter (\<lambda>y. f y = k) (x # xs))) =
      (if f x = k then g x else 0) + sum_list (map g (filter (\<lambda>y. f y = k) xs))" for k by simp
  moreover have "sum_list (map (\<lambda>k. if f x = k then g x else 0) ks) = g x"
    using Cons.prems by (simp add: sum_list_distinct_conv_sum_set [OF assms(1)])
  ultimately show ?case using Cons by (simp only: sum_list_addf) simp
qed simp

end
