(* ===== verification/Py_Regex.thy ===== *)
theory Py_Regex
  imports Prelude
begin

text \<open>
  The part of Python's \<open>re\<close> the program uses: a backtracking matcher over the
  constructs that occur in its patterns.  \<open>runs r m\<close> lists every way \<open>r\<close> can
  match at the position \<open>m\<close> in the order the backtracking engine tries them, so
  its head is the match the engine reports (greedy repetitions try the longest
  first, lazy ones the shortest, alternatives go left to right).  A position is
  the text before it (reversed), the text after it and the groups captured so
  far, the last capture first.

  The declarative relation \<open>matches\<close> says which positions a pattern reaches,
  without any order; \<open>runs_iff_matches\<close> shows the matcher computes exactly it.
  The scan lemmas show that \<open>finditer\<close> and \<open>sub\<close> tile their input.  A repetition
  ignores an iteration that consumes nothing; no pattern of the program has one.
\<close>

section \<open>Patterns and positions\<close>

datatype re =
    Eps
  | Cls "char \<Rightarrow> bool"
  | Cat re re
  | Alt re re
  | Many re
  | Lazy re
  | Grp int re
  | Bol
  | Eol
  | WordB

type_synonym pos = "string \<times> string \<times> (int \<times> string) list"

definition at_eol :: "string \<Rightarrow> bool" where
  "at_eol a \<longleftrightarrow> a = [] \<or> a = [LF]"

text \<open>\<open>\\b\<close>: a word character on exactly one side.\<close>

definition at_word_boundary :: "string \<Rightarrow> string \<Rightarrow> bool" where
  "at_word_boundary b a \<longleftrightarrow>
     (b \<noteq> [] \<and> is_word (hd b)) \<noteq> (a \<noteq> [] \<and> is_word (hd a))"

function runs :: "re \<Rightarrow> pos \<Rightarrow> pos list" where
  "runs Eps (b, a, g) = [(b, a, g)]"
| "runs (Cls p) (b, a, g) =
     (case a of [] \<Rightarrow> [] | c # cs \<Rightarrow> if p c then [(c # b, cs, g)] else [])"
| "runs (Cat r q) (b, a, g) = concat (map (runs q) (runs r (b, a, g)))"
| "runs (Alt r q) (b, a, g) = runs r (b, a, g) @ runs q (b, a, g)"
| "runs (Many r) (b, a, g) =
     concat (map (\<lambda>(b', a', g'). if length a' < length a then runs (Many r) (b', a', g') else [])
       (runs r (b, a, g))) @ [(b, a, g)]"
| "runs (Lazy r) (b, a, g) =
     (b, a, g) # concat (map (\<lambda>(b', a', g').
       if length a' < length a then runs (Lazy r) (b', a', g') else []) (runs r (b, a, g)))"
| "runs (Grp n r) (b, a, g) =
     map (\<lambda>(b', a', g'). (b', a', (n, take (length a - length a') a) # g')) (runs r (b, a, g))"
| "runs Bol (b, a, g) = (if b = [] then [(b, a, g)] else [])"
| "runs Eol (b, a, g) = (if at_eol a then [(b, a, g)] else [])"
| "runs WordB (b, a, g) = (if at_word_boundary b a then [(b, a, g)] else [])"
  by pat_completeness auto
termination
  by (relation "measures [\<lambda>(r, _). size r, \<lambda>(_, _, a, _). length a]") auto

declare runs.simps(5) [simp del] runs.simps(6) [simp del]

text \<open>Derived forms: literals (optionally ignoring case), \<open>+\<close>, \<open>?\<close>, \<open>{m,n}\<close>, sequences, unions.\<close>

definition lit :: "string \<Rightarrow> re" where
  "lit s = foldr (\<lambda>c. Cat (Cls (\<lambda>x. x = c))) s Eps"

definition lit_i :: "string \<Rightarrow> re" where
  "lit_i s = foldr (\<lambda>c. Cat (Cls (\<lambda>x. lower_char x = lower_char c))) s Eps"

definition Some1 :: "re \<Rightarrow> re" where "Some1 r = Cat r (Many r)"
definition Lazy1 :: "re \<Rightarrow> re" where "Lazy1 r = Cat r (Lazy r)"
definition Opt :: "re \<Rightarrow> re" where "Opt r = Alt r Eps"

fun seqs :: "re list \<Rightarrow> re" where
  "seqs [] = Eps"
| "seqs [r] = r"
| "seqs (r # q # rs) = Cat r (seqs (q # rs))"

fun alts :: "re list \<Rightarrow> re" where
  "alts [] = Cls (\<lambda>_. False)"
| "alts [r] = r"
| "alts (r # q # rs) = Alt r (alts (q # rs))"

fun exactly :: "nat \<Rightarrow> re \<Rightarrow> re" where
  "exactly 0 r = Eps"
| "exactly (Suc n) r = Cat r (exactly n r)"

fun upto_n :: "nat \<Rightarrow> re \<Rightarrow> re" where
  "upto_n 0 r = Eps"
| "upto_n (Suc n) r = Opt (Cat r (upto_n n r))"

definition between :: "nat \<Rightarrow> nat \<Rightarrow> re \<Rightarrow> re" where
  "between m n r = Cat (exactly m r) (upto_n (n - m) r)"

definition anychar :: re where "anychar = Cls (\<lambda>c. c \<noteq> LF)"
definition dig :: re where "dig = Cls is_digit"
definition spc :: re where "spc = Cls is_space"

lemmas re_defs = lit_def lit_i_def Some1_def Lazy1_def Opt_def between_def anychar_def dig_def spc_def

section \<open>Reference semantics\<close>

inductive matches :: "re \<Rightarrow> pos \<Rightarrow> pos \<Rightarrow> bool" where
  m_eps: "matches Eps m m"
| m_cls: "p c \<Longrightarrow> matches (Cls p) (b, c # cs, g) (c # b, cs, g)"
| m_cat: "matches r m m' \<Longrightarrow> matches q m' m'' \<Longrightarrow> matches (Cat r q) m m''"
| m_altl: "matches r m m' \<Longrightarrow> matches (Alt r q) m m'"
| m_altr: "matches q m m' \<Longrightarrow> matches (Alt r q) m m'"
| m_many0: "matches (Many r) m m"
| m_many: "matches r m (b, a, g) \<Longrightarrow> length a < length (fst (snd m)) \<Longrightarrow>
     matches (Many r) (b, a, g) m' \<Longrightarrow> matches (Many r) m m'"
| m_lazy0: "matches (Lazy r) m m"
| m_lazy: "matches r m (b, a, g) \<Longrightarrow> length a < length (fst (snd m)) \<Longrightarrow>
     matches (Lazy r) (b, a, g) m' \<Longrightarrow> matches (Lazy r) m m'"
| m_grp: "matches r (b, a, g) (b', a', g') \<Longrightarrow>
     matches (Grp n r) (b, a, g) (b', a', (n, take (length a - length a') a) # g')"
| m_bol: "matches Bol ([], a, g) ([], a, g)"
| m_eol: "at_eol a \<Longrightarrow> matches Eol (b, a, g) (b, a, g)"
| m_wordb: "at_word_boundary b a \<Longrightarrow> matches WordB (b, a, g) (b, a, g)"

inductive_cases matches_elims:
  "matches Eps m m'" "matches (Cls p) m m'" "matches (Cat r q) m m'" "matches (Alt r q) m m'"
  "matches (Many r) m m'" "matches (Lazy r) m m'" "matches (Grp n r) m m'"
  "matches Bol m m'" "matches Eol m m'" "matches WordB m m'"

lemma matches_runs: "matches r m m' \<Longrightarrow> m' \<in> set (runs r m)"
proof (induction rule: matches.induct)
  case (m_eps m)
  then show ?case by (cases m) simp
next
  case (m_cat r m m' q m'')
  then show ?case by (cases m) auto
next
  case (m_altl r m m' q)
  then show ?case by (cases m) auto
next
  case (m_altr q m m' r)
  then show ?case by (cases m) auto
next
  case (m_many0 r m)
  then show ?case by (cases m) (simp, subst runs.simps(5), simp)
next
  case (m_many r m b a g m')
  obtain x y z where m: "m = (x, y, z)" by (cases m) auto
  have "(b, a, g) \<in> set (runs r (x, y, z))" "length a < length y"
    "m' \<in> set (runs (Many r) (b, a, g))"
    using m_many.IH m_many.hyps(2) by (simp_all add: m)
  then have "m' \<in> (\<Union>(b', a', g')\<in>set (runs r (x, y, z)).
      set (if length a' < length y then runs (Many r) (b', a', g') else []))"
    by (intro UN_I [of "(b, a, g)"]) simp_all
  then show ?case unfolding m runs.simps(5) [of r x y z] by (auto simp: case_prod_beta)
next
  case (m_lazy0 r m)
  then show ?case by (cases m) (simp, subst runs.simps(6), simp)
next
  case (m_lazy r m b a g m')
  obtain x y z where m: "m = (x, y, z)" by (cases m) auto
  have "(b, a, g) \<in> set (runs r (x, y, z))" "length a < length y"
    "m' \<in> set (runs (Lazy r) (b, a, g))"
    using m_lazy.IH m_lazy.hyps(2) by (simp_all add: m)
  then have "m' \<in> (\<Union>(b', a', g')\<in>set (runs r (x, y, z)).
      set (if length a' < length y then runs (Lazy r) (b', a', g') else []))"
    by (intro UN_I [of "(b, a, g)"]) simp_all
  then show ?case unfolding m runs.simps(6) [of r x y z] by (auto simp: case_prod_beta)
next
  case (m_grp r b a g b' a' g' n)
  then show ?case by force
qed simp_all

lemma runs_matches: "m' \<in> set (runs r m) \<Longrightarrow> matches r m m'"
proof (induction r m arbitrary: m' rule: runs.induct)
  case (3 r q b a g)
  from "3.prems" obtain m1 where "m1 \<in> set (runs r (b, a, g))" "m' \<in> set (runs q m1)" by auto
  then show ?case using "3.IH" by (blast intro: matches.m_cat)
next
  case (5 r b a g)
  from "5.prems" consider "m' = (b, a, g)"
    | b' a' g' where "(b', a', g') \<in> set (runs r (b, a, g))" "length a' < length a"
        "m' \<in> set (runs (Many r) (b', a', g'))"
    unfolding runs.simps(5) [of r b a g] by (auto split: if_splits)
  then show ?case
  proof cases
    case 1
    then show ?thesis by (simp add: matches.m_many0)
  next
    case (2 b' a' g')
    then show ?thesis using "5.IH"(1) [OF 2(1)] "5.IH"(2) [OF 2(1) refl refl 2(2,3)]
      by (auto intro: matches.m_many)
  qed
next
  case (6 r b a g)
  from "6.prems" consider "m' = (b, a, g)"
    | b' a' g' where "(b', a', g') \<in> set (runs r (b, a, g))" "length a' < length a"
        "m' \<in> set (runs (Lazy r) (b', a', g'))"
    unfolding runs.simps(6) [of r b a g] by (auto split: if_splits)
  then show ?case
  proof cases
    case 1
    then show ?thesis by (simp add: matches.m_lazy0)
  next
    case (2 b' a' g')
    then show ?thesis using "6.IH"(1) [OF 2(1)] "6.IH"(2) [OF 2(1) refl refl 2(2,3)]
      by (auto intro: matches.m_lazy)
  qed
next
  case (7 n r b a g)
  then show ?case by (auto intro: matches.m_grp)
qed (auto intro: matches.intros split: list.splits if_splits)

theorem runs_iff_matches: "m' \<in> set (runs r m) \<longleftrightarrow> matches r m m'"
  using matches_runs runs_matches by blast

text \<open>A match moves forward over the text and leaves the whole text as it was.\<close>

definition whole :: "pos \<Rightarrow> string" where
  "whole m = rev (fst m) @ fst (snd m)"

lemma matches_forward:
  "matches r m m' \<Longrightarrow> \<exists>w. fst (snd m) = w @ fst (snd m') \<and> fst m' = rev w @ fst m"
  by (induction rule: matches.induct) auto

lemma matches_whole: "matches r m m' \<Longrightarrow> whole m' = whole m"
  using matches_forward [of r m m'] by (auto simp: whole_def)

lemma matches_length: "matches r m m' \<Longrightarrow> length (fst (snd m')) \<le> length (fst (snd m))"
  using matches_forward [of r m m'] by auto

section \<open>match, search, finditer, sub\<close>

definition match_at :: "re \<Rightarrow> string \<Rightarrow> string \<Rightarrow> pos option" where
  "match_at r b a = first_row (runs r (b, a, []))"

lemma match_at_SomeD:
  assumes "match_at r b a = Some (b', a', g)"
  shows "a = take (length a - length a') a @ a'"
    and "b' = rev (take (length a - length a') a) @ b" and "length a' \<le> length a"
proof -
  from assms have "matches r (b, a, []) (b', a', g)"
    by (auto simp: match_at_def runs_iff_matches [symmetric] dest: first_row_SomeD)
  from matches_forward [OF this] show "a = take (length a - length a') a @ a'"
    and "b' = rev (take (length a - length a') a) @ b" and "length a' \<le> length a"
    by auto
qed

text \<open>\<open>pattern.match(s)\<close> and \<open>pattern.search(s)\<close>, with the captured groups.\<close>

definition re_match :: "re \<Rightarrow> string \<Rightarrow> (int \<times> string) list option" where
  "re_match r s = map_option (\<lambda>(b, a, g). g) (match_at r [] s)"

fun search_from :: "re \<Rightarrow> string \<Rightarrow> string \<Rightarrow> (int \<times> string) list option" where
  "search_from r b [] = map_option (\<lambda>(b', a', g). g) (match_at r b [])"
| "search_from r b (c # cs) =
     (case match_at r b (c # cs) of
        Some (b', a', g) \<Rightarrow> Some g
      | None \<Rightarrow> search_from r (c # b) cs)"

definition re_search :: "re \<Rightarrow> string \<Rightarrow> (int \<times> string) list option" where
  "re_search r s = search_from r [] s"

definition searches :: "re \<Rightarrow> string \<Rightarrow> bool" where
  "searches r s \<longleftrightarrow> re_search r s \<noteq> None"

definition group :: "int \<Rightarrow> (int \<times> string) list \<Rightarrow> string option" where
  "group n g = map_of g n"

text \<open>
  The left-to-right scan of \<open>finditer\<close> and \<open>sub\<close>: text outside every match, and
  matches with their groups.
\<close>

datatype piece = Gap char | Hit string "(int \<times> string) list"

function scan :: "re \<Rightarrow> string \<Rightarrow> string \<Rightarrow> piece list" where
  "scan r b a =
     (case match_at r b a of
        Some (b', a', g) \<Rightarrow>
          if length a' < length a then Hit (take (length a - length a') a) g # scan r b' a'
          else (case a of [] \<Rightarrow> [Hit [] g] | c # cs \<Rightarrow> Hit [] g # Gap c # scan r (c # b) cs)
      | None \<Rightarrow> (case a of [] \<Rightarrow> [] | c # cs \<Rightarrow> Gap c # scan r (c # b) cs))"
  by pat_completeness auto
termination
  by (relation "measure (\<lambda>(r, b, a). length a)") auto

declare scan.simps [simp del]

fun piece_text :: "piece \<Rightarrow> string" where
  "piece_text (Gap c) = [c]"
| "piece_text (Hit s g) = s"

fun hit_groups :: "piece \<Rightarrow> (int \<times> string) list option" where
  "hit_groups (Gap c) = None"
| "hit_groups (Hit s g) = Some g"

definition finditer :: "re \<Rightarrow> string \<Rightarrow> (int \<times> string) list list" where
  "finditer r s = List.map_filter hit_groups (scan r [] s)"

definition re_sub :: "re \<Rightarrow> string \<Rightarrow> string \<Rightarrow> string" where
  "re_sub r repl s =
     concat (map (\<lambda>p. case p of Gap c \<Rightarrow> [c] | Hit _ _ \<Rightarrow> repl) (scan r [] s))"

text \<open>\<open>sub\<close> with a function of the match.\<close>

definition re_sub_fun :: "re \<Rightarrow> ((int \<times> string) list \<Rightarrow> string) \<Rightarrow> string \<Rightarrow> string" where
  "re_sub_fun r f s = concat (map (\<lambda>p. case p of Gap c \<Rightarrow> [c] | Hit _ g \<Rightarrow> f g) (scan r [] s))"

theorem scan_tiles: "concat (map piece_text (scan r b a)) = a"
proof (induction r b a rule: scan.induct)
  case (1 r b a)
  show ?case
  proof (cases "match_at r b a")
    case None
    show ?thesis
    proof (cases a)
      case Nil
      then show ?thesis using None by (subst scan.simps) simp
    next
      case (Cons c cs)
      then show ?thesis using None 1(1) [OF None Cons] by (subst scan.simps) simp
    qed
  next
    case (Some m)
    then obtain b' a' g where m: "match_at r b a = Some (b', a', g)" by (cases m) auto
    show ?thesis
    proof (cases "length a' < length a")
      case True
      then show ?thesis using m 1(2) [OF m] match_at_SomeD(1) [OF m]
        by (subst scan.simps) auto
    next
      case False
      show ?thesis
      proof (cases a)
        case Nil
        then show ?thesis using m False by (subst scan.simps) simp
      next
        case (Cons c cs)
        then show ?thesis using m False 1(3) [OF m _ _ False Cons] by (subst scan.simps) simp
      qed
    qed
  qed
qed

lemma scan_no_match:
  assumes "\<And>b' a'. rev b' @ a' = rev b @ a \<Longrightarrow> match_at r b' a' = None"
  shows "scan r b a = map Gap a"
  using assms
proof (induction a arbitrary: b)
  case Nil
  then show ?case by (subst scan.simps) simp
next
  case (Cons c cs)
  then have "scan r (c # b) cs = map Gap cs" by simp
  then show ?case using Cons.prems [of b "c # cs"] by (subst scan.simps) simp
qed

lemma re_sub_no_match:
  assumes "\<And>b a. rev b @ a = s \<Longrightarrow> match_at r b a = None"
  shows "re_sub r repl s = s"
proof -
  have "concat (map (\<lambda>p. case p of Gap c \<Rightarrow> [c] | Hit _ _ \<Rightarrow> repl) (map Gap s)) = s"
    by (induction s) auto
  then show ?thesis using scan_no_match [of "[]" s r] assms by (simp add: re_sub_def)
qed

lemma search_from_None:
  "search_from r b a = None \<longleftrightarrow> (\<forall>u v. a = u @ v \<longrightarrow> match_at r (rev u @ b) v = None)"
proof (induction a arbitrary: b)
  case Nil
  then show ?case by auto
next
  case (Cons c cs)
  have "(\<forall>u v. c # cs = u @ v \<longrightarrow> match_at r (rev u @ b) v = None) \<longleftrightarrow>
        match_at r b (c # cs) = None \<and> (\<forall>u v. cs = u @ v \<longrightarrow> match_at r (rev u @ c # b) v = None)"
    (is "?L \<longleftrightarrow> ?R")
  proof
    assume L: ?L
    from L [rule_format, of "[]"] L [rule_format, of "c # _"] show ?R by auto
  next
    assume ?R
    then show ?L by (auto simp: Cons_eq_append_conv)
  qed
  then show ?case using Cons [of "c # b"] by (auto split: option.split)
qed

lemma searches_iff: "searches r s \<longleftrightarrow> (\<exists>u v m. s = u @ v \<and> matches r (rev u, v, []) m)"
proof -
  have "match_at r b a \<noteq> None \<longleftrightarrow> (\<exists>m. matches r (b, a, []) m)" for b a
    by (cases "runs r (b, a, [])") (auto simp: match_at_def runs_iff_matches [symmetric])
  then show ?thesis using search_from_None [of r "[]" s]
    by (auto simp: searches_def re_search_def)
qed

section \<open>Greedy repetition of one character class\<close>

text \<open>
  \<open>runs (Many (Cls p))\<close> offers every prefix of the longest block of \<open>p\<close>
  characters, the longest first.
\<close>

fun advance :: "nat \<Rightarrow> pos \<Rightarrow> pos" where
  "advance n (b, a, g) = (rev (take n a) @ b, drop n a, g)"

lemma runs_Many_Cls:
  "runs (Many (Cls p)) (b, a, g) =
     map (\<lambda>n. advance n (b, a, g)) (rev [0..<Suc (length (takeWhile p a))])"
proof (induction a arbitrary: b)
  case Nil
  then show ?case by (simp add: runs.simps(5))
next
  case (Cons c cs)
  show ?case
  proof (cases "p c")
    case True
    let ?n = "length (takeWhile p cs)"
    have "map (\<lambda>n. advance n (b, c # cs, g)) (rev [0..<Suc (Suc ?n)]) =
          map (\<lambda>n. advance (Suc n) (b, c # cs, g)) (rev [0..<Suc ?n]) @ [(b, c # cs, g)]"
      by (subst upt_conv_Cons) (simp_all add: map_Suc_upt [symmetric] rev_map del: upt_Suc)
    then show ?thesis using True Cons by (simp add: runs.simps(5) [of _ b] del: upt_Suc)
  next
    case False
    then show ?thesis by (simp add: runs.simps(5))
  qed
qed

text \<open>
  When what follows the repetition cannot start with a character of the class,
  only the longest repetition leads to a match.
\<close>

lemma runs_Many_Cls_then:
  assumes stop: "\<And>b c cs g. p c \<Longrightarrow> runs q (b, c # cs, g) = []"
  shows "runs (Cat (Many (Cls p)) q) (b, a, g) =
         runs q (rev (takeWhile p a) @ b, dropWhile p a, g)"
proof (induction a arbitrary: b)
  case Nil
  then show ?case by (simp add: runs.simps(5))
next
  case (Cons c cs)
  show ?case
  proof (cases "p c")
    case True
    then have "runs (Cat (Many (Cls p)) q) (b, c # cs, g) =
        runs (Cat (Many (Cls p)) q) (c # b, cs, g) @ runs q (b, c # cs, g)"
      by (simp add: runs.simps(5) [of _ b])
    then show ?thesis using True Cons stop by (simp del: runs.simps(3))
  next
    case False
    then show ?thesis by (simp add: runs.simps(5))
  qed
qed

lemma runs_lit: "runs (lit s) (b, a, g) = (if startswith a s then [(rev s @ b, drop (length s) a, g)] else [])"
proof (induction s arbitrary: b a)
  case Nil
  then show ?case by (simp add: lit_def startswith_def)
next
  case (Cons c s)
  then show ?case by (cases a) (auto simp: lit_def startswith_def)
qed

lemma runs_lit_i:
  "runs (lit_i s) (b, a, g) =
     (if startswith (py_lower a) (py_lower s)
      then [(rev (take (length s) a) @ b, drop (length s) a, g)] else [])"
proof (induction s arbitrary: b a)
  case Nil
  then show ?case by (simp add: lit_i_def startswith_def py_lower_def)
next
  case (Cons c s)
  then show ?case by (cases a) (auto simp: lit_i_def startswith_def py_lower_def)
qed

lemma runs_Cat: "runs (Cat r q) m = concat (map (runs q) (runs r m))"
  by (cases m) simp

lemma runs_Cat_Cat: "runs (Cat (Cat r q) t) m = runs (Cat r (Cat q t)) m"
proof -
  have "concat (map f (concat xss)) = concat (map (\<lambda>xs. concat (map f xs)) xss)"
    for f :: "pos \<Rightarrow> pos list" and xss
    by (induction xss) auto
  moreover have "(\<lambda>x. concat (map (runs t) (runs q x))) = runs (Cat q t)"
    by (simp add: runs_Cat fun_eq_iff)
  ultimately show ?thesis by (simp add: runs_Cat [of _ _ m] runs_Cat comp_def)
qed

text \<open>
  Rules for the head of a sequence.  With the general equation for sequences
  switched off, they reduce a pattern piece by piece.
\<close>

named_theorems run_heads \<open>the first element of a sequence of patterns\<close>

lemma runs_Cat_lit [run_heads]:
  "runs (Cat (lit s) q) (b, a, g) =
     (if startswith a s then runs q (rev s @ b, drop (length s) a, g) else [])"
  by (simp add: runs_Cat runs_lit)

lemma runs_Cat_lit_i [run_heads]:
  "runs (Cat (lit_i s) q) (b, a, g) =
     (if startswith (py_lower a) (py_lower s)
      then runs q (rev (take (length s) a) @ b, drop (length s) a, g) else [])"
  by (simp add: runs_Cat runs_lit_i)

lemma runs_Cat_Cls [run_heads]:
  "runs (Cat (Cls p) q) (b, a, g) =
     (case a of [] \<Rightarrow> [] | c # cs \<Rightarrow> if p c then runs q (c # b, cs, g) else [])"
  by (simp add: runs_Cat split: list.split)

lemma runs_Cat_Opt [run_heads]:
  "runs (Cat (Opt r) q) m = runs (Cat r q) m @ runs q m"
  by (cases m) (simp add: runs_Cat Opt_def)

declare runs.simps(3) [simp del]

text \<open>The same for a captured, non-empty block.\<close>

lemma runs_Grp_Some1_then:
  assumes stop: "\<And>b c cs g. p c \<Longrightarrow> runs q (b, c # cs, g) = []"
  shows "runs (Cat (Grp n (Some1 (Cls p))) q) (b, a, g) =
         (if takeWhile p a = [] then []
          else runs q (rev (takeWhile p a) @ b, dropWhile p a, (n, takeWhile p a) # g))"
proof (cases a)
  case Nil
  then show ?thesis by (simp add: Some1_def runs_Cat)
next
  case (Cons c cs)
  show ?thesis
  proof (cases "p c")
    case False
    then show ?thesis using Cons by (simp add: Some1_def runs_Cat)
  next
    case True
    let ?k = "length (takeWhile p cs)"
    let ?f = "\<lambda>i. runs q (rev (take (Suc i) (c # cs)) @ b, drop (Suc i) (c # cs), (n, take (Suc i) (c # cs)) # g)"
    have "runs (Cat (Grp n (Some1 (Cls p))) q) (b, a, g) = concat (map ?f (rev [0..<Suc ?k]))"
      using Cons True
      by (simp add: Some1_def runs_Cat runs_Many_Cls comp_def Suc_diff_le del: upt_Suc)
        (rule arg_cong [where f = concat], auto simp: length_takeWhile_le min_def
          intro!: arg_cong2 [where f = "\<lambda>x y. runs q (x, y)"] dest!: less_le_trans [OF _ length_takeWhile_le])
    also have "\<dots> = ?f ?k @ concat (map ?f (rev [0..<?k]))" by simp
    also have "concat (map ?f (rev [0..<?k])) = []"
    proof -
      have "?f i = []" if "i < ?k" for i
      proof -
        have len: "i < length cs" using that length_takeWhile_le [of p cs] by linarith
        then have "drop i cs = cs ! i # drop (Suc i) cs" by (simp add: Cons_nth_drop_Suc)
        moreover have "p (cs ! i)" using that by (metis nth_mem set_takeWhileD takeWhile_nth)
        ultimately show ?thesis using stop by simp
      qed
      then show ?thesis by simp
    qed
    finally show ?thesis using Cons True
      by (simp add: takeWhile_eq_take [symmetric] dropWhile_eq_drop [symmetric])
  qed
qed

text \<open>A lazy repetition offers the prefixes of the block, the shortest first.\<close>

lemma runs_Lazy_Cls:
  "runs (Lazy (Cls p)) (b, a, g) =
     map (\<lambda>n. advance n (b, a, g)) [0..<Suc (length (takeWhile p a))]"
proof (induction a arbitrary: b)
  case Nil
  then show ?case by (simp add: runs.simps(6))
next
  case (Cons c cs)
  show ?case
  proof (cases "p c")
    case True
    let ?n = "length (takeWhile p cs)"
    have "map (\<lambda>n. advance n (b, c # cs, g)) [0..<Suc (Suc ?n)] =
          (b, c # cs, g) # map (\<lambda>n. advance (Suc n) (b, c # cs, g)) [0..<Suc ?n]"
      by (subst upt_conv_Cons) (simp_all add: map_Suc_upt [symmetric] del: upt_Suc)
    then show ?thesis using True Cons by (simp add: runs.simps(6) [of _ b] del: upt_Suc)
  next
    case False
    then show ?thesis by (simp add: runs.simps(6))
  qed
qed

lemma first_row_append: "first_row (xs @ ys) = (case first_row xs of None \<Rightarrow> first_row ys | Some x \<Rightarrow> Some x)"
  by (cases xs) auto

text \<open>The first match among the positions of a range is at its first matching index.\<close>

lemma first_row_concat_map:
  "first_row (concat (map f xs)) =
     (case List.find (\<lambda>x. f x \<noteq> []) xs of None \<Rightarrow> None | Some x \<Rightarrow> first_row (f x))"
  by (induction xs) (auto simp: first_row_append split: option.split, auto simp: neq_Nil_conv)

lemma find_upt: "P n \<Longrightarrow> n < k \<Longrightarrow> (\<And>i. i < n \<Longrightarrow> \<not> P i) \<Longrightarrow> List.find P [0..<k] = Some n"
  by (auto simp: find_Some_iff)

lemma search_from_skip:
  "match_at r b (c # cs) = None \<Longrightarrow> search_from r b (c # cs) = search_from r (c # b) cs"
  by simp

end
