(* ===== verification/Models.thy ===== *)
theory Models
  imports Prelude Config
begin

text \<open>
  The data model: the enumerations and ORM classes of \<open>app/pipeline_models.py\<close>,
  \<open>app/worker_models.py\<close> and \<open>app/models.py\<close>, and the database as one record
  holding the rows of each table in scan order with the next value of its
  autoincrement key.  Every table is an instance of the interface
  \<open>orm_table\<close>: what a lookup by primary key returns after an insert or an
  attribute assignment, and that both keep the keys distinct.
\<close>

section \<open>Enumerations\<close>

datatype run_status = RS_QUEUED | RS_IN_PROGRESS | RS_COMPLETED | RS_FAILED | RS_ABORTED

datatype stage_status = SS_PENDING | SS_RUNNING | SS_SUCCESS | SS_FAILED | SS_SKIPPED

datatype worker_status = WS_IDLE | WS_BUSY | WS_OFFLINE

datatype worker_language = L_PYTHON | L_NODE | L_JAVA | L_GO | L_RUBY | L_GENERIC

datatype assignment_status = AS_ASSIGNED | AS_RUNNING | AS_DONE | AS_FAILED

fun run_status_value :: "run_status \<Rightarrow> string" where
  "run_status_value RS_QUEUED = ''QUEUED''"
| "run_status_value RS_IN_PROGRESS = ''IN_PROGRESS''"
| "run_status_value RS_COMPLETED = ''COMPLETED''"
| "run_status_value RS_FAILED = ''FAILED''"
| "run_status_value RS_ABORTED = ''ABORTED''"

fun stage_status_value :: "stage_status \<Rightarrow> string" where
  "stage_status_value SS_PENDING = ''PENDING''"
| "stage_status_value SS_RUNNING = ''RUNNING''"
| "stage_status_value SS_SUCCESS = ''SUCCESS''"
| "stage_status_value SS_FAILED = ''FAILED''"
| "stage_status_value SS_SKIPPED = ''SKIPPED''"

fun worker_status_value :: "worker_status \<Rightarrow> string" where
  "worker_status_value WS_IDLE = ''IDLE''"
| "worker_status_value WS_BUSY = ''BUSY''"
| "worker_status_value WS_OFFLINE = ''OFFLINE''"

fun worker_language_value :: "worker_language \<Rightarrow> string" where
  "worker_language_value L_PYTHON = ''python''"
| "worker_language_value L_NODE = ''node''"
| "worker_language_value L_JAVA = ''java''"
| "worker_language_value L_GO = ''go''"
| "worker_language_value L_RUBY = ''ruby''"
| "worker_language_value L_GENERIC = ''generic''"

text \<open>\<open>for status in RunStatus\<close>: members in declaration order.\<close>

instantiation run_status :: enum
begin

definition enum_run_status :: "run_status list" where
  "enum_run_status = [RS_QUEUED, RS_IN_PROGRESS, RS_COMPLETED, RS_FAILED, RS_ABORTED]"

definition enum_all_run_status :: "(run_status \<Rightarrow> bool) \<Rightarrow> bool" where
  "enum_all_run_status P \<longleftrightarrow> list_all P Enum.enum"

definition enum_ex_run_status :: "(run_status \<Rightarrow> bool) \<Rightarrow> bool" where
  "enum_ex_run_status P \<longleftrightarrow> list_ex P Enum.enum"

instance
proof
  show univ: "(UNIV :: run_status set) = set Enum.enum"
    unfolding enum_run_status_def by (auto intro: run_status.exhaust)
  show "distinct (Enum.enum :: run_status list)" by (simp add: enum_run_status_def)
  fix P :: "run_status \<Rightarrow> bool"
  show "enum_class.enum_all P \<longleftrightarrow> Ball UNIV P"
    by (simp add: enum_all_run_status_def list_all_iff univ)
  show "enum_class.enum_ex P \<longleftrightarrow> Bex UNIV P"
    by (simp add: enum_ex_run_status_def list_ex_iff univ)
qed

end

lemma run_status_value_inj: "run_status_value s = run_status_value t \<longleftrightarrow> s = t"
  by (cases s; cases t) simp_all

section \<open>ORM classes\<close>

record pipeline_run =
  pr_id :: int
  pr_repo_url :: string
  pr_branch :: string
  pr_commit_sha :: "string option"
  pr_author :: "string option"
  pr_triggered_by :: string
  pr_jenkins_job_name :: "string option"
  pr_jenkins_build_number :: "int option"
  pr_jenkins_build_url :: "string option"
  pr_status :: run_status
  pr_queued_at :: time
  pr_started_at :: "time option"
  pr_completed_at :: "time option"
  pr_stage_names_csv :: "string option"
  pr_scheduling_priority :: int
  pr_priority_reason :: "string option"
  pr_result :: "string option"
  pr_duration_s :: "int option"
  pr_retry_count :: int
  pr_max_retries :: int
  pr_retry_after :: "time option"

record stage_execution =
  se_id :: int
  se_run_id :: int
  se_order :: nat
  se_name :: string
  se_status :: stage_status
  se_started_at :: "time option"
  se_completed_at :: "time option"
  se_duration_s :: "int option"
  se_log_excerpt :: "string option"

record worker =
  w_id :: int
  w_name :: string
  w_language :: worker_language
  w_status :: worker_status
  w_load :: rat
  w_jobs_run :: int
  w_current_job :: "string option"
  w_capabilities :: "string option"
  w_last_heartbeat :: "time option"
  w_created_at :: time

record worker_assignment =
  wa_id :: int
  wa_run_id :: int
  wa_worker_id :: int
  wa_status :: assignment_status
  wa_assigned_at :: time
  wa_started_at :: "time option"
  wa_completed_at :: "time option"
  wa_duration_s :: "int option"
  wa_result :: "string option"

record build_event =
  be_id :: int
  be_job_name :: string
  be_build_number :: int
  be_failure_type :: string
  be_confidence :: string
  be_summary_text :: string
  be_fix_suggestions :: string
  be_severity :: string
  be_log_url :: string
  be_delivery_status :: string
  be_log_truncated :: bool
  be_processed_at :: time

record pattern_record =
  pt_id :: int
  pt_signature_hash :: string
  pt_failure_type :: string
  pt_raw_sample :: string
  pt_resolution_text :: "string option"
  pt_occurrence_count :: int
  pt_last_seen :: time

record system_metrics =
  sm_id :: int
  sm_timestamp :: time
  sm_uptime_seconds :: int
  sm_memory_used_bytes :: int
  sm_memory_total_bytes :: int
  sm_cpu_percent :: rat
  sm_queue_total :: nat
  sm_busy_workers :: nat
  sm_worker_total :: nat
  sm_chaos_intensity :: int
  sm_chaos_level :: string

text \<open>
  \<open>PipelineRun.stage_names\<close>: the stored comma-separated list, split, stripped,
  empty names dropped.
\<close>

definition stage_names_of_csv :: "string option \<Rightarrow> string list" where
  "stage_names_of_csv csv =
     (case csv of
        None \<Rightarrow> []
      | Some s \<Rightarrow> if s = [] then []
          else map py_strip (filter (\<lambda>w. py_strip w \<noteq> []) (py_split CHR '','' s)))"

definition stage_names :: "pipeline_run \<Rightarrow> string list" where
  "stage_names r = stage_names_of_csv (pr_stage_names_csv r)"

text \<open>
  \<open>branch_priority_expr()\<close>, evaluated on the column values; \<open>LIKE 'x/%'\<close> is a
  case-sensitive prefix test.  The column is \<open>NOT NULL\<close>, so a row always takes
  the first arm (\<open>run_priority\<close>).
\<close>

definition branch_case :: "string \<Rightarrow> int" where
  "branch_case b =
     (if startswith b ''hotfix/'' then 1
      else if b = ''main'' then 2
      else if b = ''master'' then 2
      else if startswith b ''release/'' then 3
      else if b = ''develop'' then 4
      else if startswith b ''feature/'' then 5
      else 6)"

definition branch_priority_expr :: "int option \<Rightarrow> string \<Rightarrow> int" where
  "branch_priority_expr prio b = (case prio of Some p \<Rightarrow> p | None \<Rightarrow> branch_case b)"

definition run_priority :: "pipeline_run \<Rightarrow> int" where
  "run_priority r = branch_priority_expr (Some (pr_scheduling_priority r)) (pr_branch r)"

section \<open>The database\<close>

record db =
  runs_t :: "pipeline_run list"
  stages_t :: "stage_execution list"
  workers_t :: "worker list"
  assigns_t :: "worker_assignment list"
  events_t :: "build_event list"
  patterns_t :: "pattern_record list"
  metrics_t :: "system_metrics list"
  next_run :: int
  next_stage :: int
  next_worker :: int
  next_assign :: int
  next_event :: int
  next_pattern :: int
  next_metric :: int

definition empty_db :: db where
  "empty_db = \<lparr>runs_t = [], stages_t = [], workers_t = [], assigns_t = [], events_t = [],
     patterns_t = [], metrics_t = [], next_run = 1, next_stage = 1, next_worker = 1,
     next_assign = 1, next_event = 1, next_pattern = 1, next_metric = 1\<rparr>"

definition get_run_row :: "db \<Rightarrow> int \<Rightarrow> pipeline_run option" where
  "get_run_row d i = get_row pr_id i (runs_t d)"
definition get_worker :: "db \<Rightarrow> int \<Rightarrow> worker option" where
  "get_worker d i = get_row w_id i (workers_t d)"
definition get_assign :: "db \<Rightarrow> int \<Rightarrow> worker_assignment option" where
  "get_assign d i = get_row wa_id i (assigns_t d)"
definition get_stage :: "db \<Rightarrow> int \<Rightarrow> stage_execution option" where
  "get_stage d i = get_row se_id i (stages_t d)"
definition get_event :: "db \<Rightarrow> int \<Rightarrow> build_event option" where
  "get_event d i = get_row be_id i (events_t d)"
definition get_pattern :: "db \<Rightarrow> int \<Rightarrow> pattern_record option" where
  "get_pattern d i = get_row pt_id i (patterns_t d)"

definition upd_run :: "int \<Rightarrow> (pipeline_run \<Rightarrow> pipeline_run) \<Rightarrow> db \<Rightarrow> db" where
  "upd_run i f d = d\<lparr>runs_t := upd_row pr_id i f (runs_t d)\<rparr>"
definition upd_worker :: "int \<Rightarrow> (worker \<Rightarrow> worker) \<Rightarrow> db \<Rightarrow> db" where
  "upd_worker i f d = d\<lparr>workers_t := upd_row w_id i f (workers_t d)\<rparr>"
definition upd_assign :: "int \<Rightarrow> (worker_assignment \<Rightarrow> worker_assignment) \<Rightarrow> db \<Rightarrow> db" where
  "upd_assign i f d = d\<lparr>assigns_t := upd_row wa_id i f (assigns_t d)\<rparr>"
definition upd_stage :: "int \<Rightarrow> (stage_execution \<Rightarrow> stage_execution) \<Rightarrow> db \<Rightarrow> db" where
  "upd_stage i f d = d\<lparr>stages_t := upd_row se_id i f (stages_t d)\<rparr>"
definition upd_event :: "int \<Rightarrow> (build_event \<Rightarrow> build_event) \<Rightarrow> db \<Rightarrow> db" where
  "upd_event i f d = d\<lparr>events_t := upd_row be_id i f (events_t d)\<rparr>"
definition upd_pattern :: "int \<Rightarrow> (pattern_record \<Rightarrow> pattern_record) \<Rightarrow> db \<Rightarrow> db" where
  "upd_pattern i f d = d\<lparr>patterns_t := upd_row pt_id i f (patterns_t d)\<rparr>"

text \<open>\<open>session.add\<close> followed by a flush: the row gets the next key.\<close>

definition add_run :: "pipeline_run \<Rightarrow> db \<Rightarrow> db" where
  "add_run r d = d\<lparr>runs_t := runs_t d @ [r\<lparr>pr_id := next_run d\<rparr>], next_run := next_run d + 1\<rparr>"
definition add_worker :: "worker \<Rightarrow> db \<Rightarrow> db" where
  "add_worker r d = d\<lparr>workers_t := workers_t d @ [r\<lparr>w_id := next_worker d\<rparr>],
     next_worker := next_worker d + 1\<rparr>"
definition add_assign :: "worker_assignment \<Rightarrow> db \<Rightarrow> db" where
  "add_assign r d = d\<lparr>assigns_t := assigns_t d @ [r\<lparr>wa_id := next_assign d\<rparr>],
     next_assign := next_assign d + 1\<rparr>"
definition add_stage :: "stage_execution \<Rightarrow> db \<Rightarrow> db" where
  "add_stage r d = d\<lparr>stages_t := stages_t d @ [r\<lparr>se_id := next_stage d\<rparr>],
     next_stage := next_stage d + 1\<rparr>"
definition add_event :: "build_event \<Rightarrow> db \<Rightarrow> db" where
  "add_event r d = d\<lparr>events_t := events_t d @ [r\<lparr>be_id := next_event d\<rparr>],
     next_event := next_event d + 1\<rparr>"
definition add_pattern :: "pattern_record \<Rightarrow> db \<Rightarrow> db" where
  "add_pattern r d = d\<lparr>patterns_t := patterns_t d @ [r\<lparr>pt_id := next_pattern d\<rparr>],
     next_pattern := next_pattern d + 1\<rparr>"

lemmas table_defs = get_run_row_def get_worker_def get_assign_def get_stage_def get_event_def
  get_pattern_def upd_run_def upd_worker_def upd_assign_def upd_stage_def upd_event_def
  upd_pattern_def add_run_def add_worker_def add_assign_def add_stage_def add_event_def
  add_pattern_def

text \<open>Keys are distinct, positive and below the next key.\<close>

definition keys_ok :: "('r \<Rightarrow> int) \<Rightarrow> 'r list \<Rightarrow> int \<Rightarrow> bool" where
  "keys_ok key rs n \<longleftrightarrow> distinct (map key rs) \<and> (\<forall>r \<in> set rs. 1 \<le> key r \<and> key r < n) \<and> 1 \<le> n"

lemma keys_ok_Nil [simp]: "keys_ok key [] 1"
  by (simp add: keys_ok_def)

lemma keys_ok_filter: "keys_ok key rs n \<Longrightarrow> keys_ok key (filter p rs) n"
  by (auto simp: keys_ok_def distinct_map_filter)

lemma keys_ok_distinct: "keys_ok key rs n \<Longrightarrow> distinct (map key rs)"
  by (simp add: keys_ok_def)

locale orm_table =
  fixes rows :: "'d \<Rightarrow> 'r list"
    and key :: "'r \<Rightarrow> int"
    and nxt :: "'d \<Rightarrow> int"
    and get :: "'d \<Rightarrow> int \<Rightarrow> 'r option"
    and upd :: "int \<Rightarrow> ('r \<Rightarrow> 'r) \<Rightarrow> 'd \<Rightarrow> 'd"
    and add :: "'r \<Rightarrow> 'd \<Rightarrow> 'd"
    and with_key :: "int \<Rightarrow> 'r \<Rightarrow> 'r"
  assumes get_rows: "get d i = get_row key i (rows d)"
    and rows_upd: "rows (upd i f d) = upd_row key i f (rows d)"
    and nxt_upd: "nxt (upd i f d) = nxt d"
    and rows_add: "rows (add r d) = rows d @ [with_key (nxt d) r]"
    and nxt_add: "nxt (add r d) = nxt d + 1"
    and key_with_key: "key (with_key i r) = i"
begin

lemma get_upd:
  assumes "\<And>r. key (f r) = key r"
  shows "get (upd i f d) j = (if j = i then map_option f (get d i) else get d j)"
  using assms by (simp add: get_rows rows_upd db_simps)

lemma ok_upd:
  assumes "\<And>r. key (f r) = key r" "keys_ok key (rows d) (nxt d)"
  shows "keys_ok key (rows (upd i f d)) (nxt (upd i f d))"
  using assms unfolding keys_ok_def rows_upd nxt_upd
  by (auto simp: map_key_upd_row elim!: upd_row_memE)

lemma ok_add:
  assumes "keys_ok key (rows d) (nxt d)"
  shows "keys_ok key (rows (add r d)) (nxt (add r d))"
  using assms unfolding keys_ok_def rows_add nxt_add by (force simp: key_with_key)

lemma get_add:
  assumes "keys_ok key (rows d) (nxt d)"
  shows "get (add r d) i = (if i = nxt d then Some (with_key i r) else get d i)"
proof -
  have "get_row key (nxt d) (rows d) = None"
    using assms by (auto simp: get_row_None_iff keys_ok_def)
  then show ?thesis by (auto simp: get_rows rows_add db_simps key_with_key split: option.split)
qed

lemma get_mem: "keys_ok key (rows d) n \<Longrightarrow> r \<in> set (rows d) \<Longrightarrow> get d (key r) = Some r"
  by (simp add: get_rows get_row_mem keys_ok_def)

lemma get_SomeD: "get d i = Some r \<Longrightarrow> r \<in> set (rows d) \<and> key r = i"
  unfolding get_rows by (rule get_row_SomeD)

lemma get_None_iff: "get d i = None \<longleftrightarrow> i \<notin> key ` set (rows d)"
  by (simp add: get_rows get_row_None_iff)

lemma keys_upd: "(\<And>r. key (f r) = key r) \<Longrightarrow> map key (rows (upd i f d)) = map key (rows d)"
  by (simp add: rows_upd map_key_upd_row)

end

interpretation run_tbl: orm_table runs_t pr_id next_run get_run_row upd_run add_run
    "\<lambda>i r. r\<lparr>pr_id := i\<rparr>"
  by unfold_locales (simp_all add: table_defs)

interpretation worker_tbl: orm_table workers_t w_id next_worker get_worker upd_worker add_worker
    "\<lambda>i r. r\<lparr>w_id := i\<rparr>"
  by unfold_locales (simp_all add: table_defs)

interpretation assign_tbl: orm_table assigns_t wa_id next_assign get_assign upd_assign add_assign
    "\<lambda>i r. r\<lparr>wa_id := i\<rparr>"
  by unfold_locales (simp_all add: table_defs)

interpretation stage_tbl: orm_table stages_t se_id next_stage get_stage upd_stage add_stage
    "\<lambda>i r. r\<lparr>se_id := i\<rparr>"
  by unfold_locales (simp_all add: table_defs)

interpretation event_tbl: orm_table events_t be_id next_event get_event upd_event add_event
    "\<lambda>i r. r\<lparr>be_id := i\<rparr>"
  by unfold_locales (simp_all add: table_defs)

interpretation pattern_tbl: orm_table patterns_t pt_id next_pattern get_pattern upd_pattern
    add_pattern "\<lambda>i r. r\<lparr>pt_id := i\<rparr>"
  by unfold_locales (simp_all add: table_defs)

text \<open>An operation on one table leaves the others alone.\<close>

lemma upd_run_frame [db_simps]:
  "stages_t (upd_run i f d) = stages_t d" "workers_t (upd_run i f d) = workers_t d"
  "assigns_t (upd_run i f d) = assigns_t d" "events_t (upd_run i f d) = events_t d"
  "patterns_t (upd_run i f d) = patterns_t d" "metrics_t (upd_run i f d) = metrics_t d"
  "next_stage (upd_run i f d) = next_stage d" "next_worker (upd_run i f d) = next_worker d"
  "next_assign (upd_run i f d) = next_assign d" "next_event (upd_run i f d) = next_event d"
  "next_pattern (upd_run i f d) = next_pattern d" "get_worker (upd_run i f d) = get_worker d"
  "get_assign (upd_run i f d) = get_assign d" "get_stage (upd_run i f d) = get_stage d"
  by (simp_all add: table_defs fun_eq_iff)

lemma upd_worker_frame [db_simps]:
  "runs_t (upd_worker i f d) = runs_t d" "stages_t (upd_worker i f d) = stages_t d"
  "assigns_t (upd_worker i f d) = assigns_t d" "events_t (upd_worker i f d) = events_t d"
  "patterns_t (upd_worker i f d) = patterns_t d" "metrics_t (upd_worker i f d) = metrics_t d"
  "next_run (upd_worker i f d) = next_run d" "next_stage (upd_worker i f d) = next_stage d"
  "next_assign (upd_worker i f d) = next_assign d" "next_event (upd_worker i f d) = next_event d"
  "next_pattern (upd_worker i f d) = next_pattern d" "get_run_row (upd_worker i f d) = get_run_row d"
  "get_assign (upd_worker i f d) = get_assign d" "get_stage (upd_worker i f d) = get_stage d"
  by (simp_all add: table_defs fun_eq_iff)

lemma upd_assign_frame [db_simps]:
  "runs_t (upd_assign i f d) = runs_t d" "stages_t (upd_assign i f d) = stages_t d"
  "workers_t (upd_assign i f d) = workers_t d" "events_t (upd_assign i f d) = events_t d"
  "patterns_t (upd_assign i f d) = patterns_t d" "metrics_t (upd_assign i f d) = metrics_t d"
  "next_run (upd_assign i f d) = next_run d" "next_stage (upd_assign i f d) = next_stage d"
  "next_worker (upd_assign i f d) = next_worker d" "next_event (upd_assign i f d) = next_event d"
  "next_pattern (upd_assign i f d) = next_pattern d" "get_run_row (upd_assign i f d) = get_run_row d"
  "get_worker (upd_assign i f d) = get_worker d" "get_stage (upd_assign i f d) = get_stage d"
  by (simp_all add: table_defs fun_eq_iff)

lemma upd_stage_frame [db_simps]:
  "runs_t (upd_stage i f d) = runs_t d" "assigns_t (upd_stage i f d) = assigns_t d"
  "workers_t (upd_stage i f d) = workers_t d" "events_t (upd_stage i f d) = events_t d"
  "patterns_t (upd_stage i f d) = patterns_t d" "metrics_t (upd_stage i f d) = metrics_t d"
  "next_run (upd_stage i f d) = next_run d" "next_assign (upd_stage i f d) = next_assign d"
  "next_worker (upd_stage i f d) = next_worker d" "next_event (upd_stage i f d) = next_event d"
  "next_pattern (upd_stage i f d) = next_pattern d" "get_run_row (upd_stage i f d) = get_run_row d"
  "get_worker (upd_stage i f d) = get_worker d" "get_assign (upd_stage i f d) = get_assign d"
  by (simp_all add: table_defs fun_eq_iff)

lemma add_assign_frame [db_simps]:
  "runs_t (add_assign r d) = runs_t d" "stages_t (add_assign r d) = stages_t d"
  "workers_t (add_assign r d) = workers_t d" "events_t (add_assign r d) = events_t d"
  "patterns_t (add_assign r d) = patterns_t d" "metrics_t (add_assign r d) = metrics_t d"
  "next_run (add_assign r d) = next_run d" "next_stage (add_assign r d) = next_stage d"
  "next_worker (add_assign r d) = next_worker d" "next_event (add_assign r d) = next_event d"
  "next_pattern (add_assign r d) = next_pattern d" "get_run_row (add_assign r d) = get_run_row d"
  "get_worker (add_assign r d) = get_worker d" "get_stage (add_assign r d) = get_stage d"
  by (simp_all add: table_defs fun_eq_iff)

section \<open>Work handed to other threads\<close>

text \<open>
  What a handler starts besides changing the database: the Celery task that
  triggers a Jenkins build, the thread that analyses a failed build (job, build
  number, URL, status), the execution of a run on a worker.
\<close>

datatype effect =
    TriggerBuild int string string "string option"
  | AnalyseBuild string int string string
  | ExecuteRun int int "string list"

end
