(* ===== verification/Priority.thy ===== *)
theory Priority
  imports Models
begin

text \<open>
  The priority policy of \<open>app/services/priority.py\<close>: a branch name and the
  changed paths give a value from 1 (first) to 6, a label and a reason.  The
  lemmas compare it with the SQL \<open>CASE\<close> of \<open>branch_priority_expr\<close> and show how
  branch class and changed files interact.
\<close>

section \<open>Definitions\<close>

record pipeline_priority =
  pp_value :: int
  pp_label :: string
  pp_reason :: string

definition LABELS :: "(int \<times> string) list" where
  "LABELS = [(1, ''P1 - Hotfix''), (2, ''P2 - Production''), (3, ''P3 - Release/CI''),
     (4, ''P4 - Develop''), (5, ''P5 - Feature''), (6, ''P6 - Normal'')]"

definition CRITICAL_PATH_MARKERS :: "string list" where
  "CRITICAL_PATH_MARKERS = [''jenkinsfile'', ''.github/workflows/'', ''dockerfile'',
     ''docker-compose'', ''k8s/'', ''kubernetes/'', ''helm/'', ''terraform/'', ''infra/'']"

definition PRODUCTION_PATH_MARKERS :: "string list" where
  "PRODUCTION_PATH_MARKERS = [''auth/'', ''security/'', ''payment/'', ''billing/'', ''prod/'']"

definition priority_label :: "int \<Rightarrow> string" where
  "priority_label v = (case map_of LABELS v of Some l \<Rightarrow> l | None \<Rightarrow> ''P6 - Normal'')"

definition mk_priority :: "int \<Rightarrow> string \<Rightarrow> pipeline_priority" where
  "mk_priority v reason = \<lparr>pp_value = v, pp_label = priority_label v, pp_reason = reason\<rparr>"

definition norm_path :: "string \<Rightarrow> string" where
  "norm_path p = map (\<lambda>c. if c = CHR 0x5C then CHR ''/'' else c) (py_lower p)"

definition any_marker :: "string list \<Rightarrow> string list \<Rightarrow> bool" where
  "any_marker markers files \<longleftrightarrow> list_ex (\<lambda>path. list_ex (\<lambda>m. contains m path) markers) files"

definition branch_key :: "string \<Rightarrow> string" where
  "branch_key branch = py_lower (py_strip branch)"

text \<open>\<open>changed_files or []\<close>: an absent list counts as empty.\<close>

definition calculate_pipeline_priority ::
    "string \<Rightarrow> string \<Rightarrow> string list option \<Rightarrow> pipeline_priority" where
  "calculate_pipeline_priority repo_url branch changed_files =
     (let key = branch_key branch;
          files = map norm_path (case changed_files of None \<Rightarrow> [] | Some fs \<Rightarrow> fs) in
      if startswith key ''hotfix/'' \<or> contains ''security'' key
      then mk_priority 1 ''hotfix/security branch''
      else if key = ''main'' \<or> key = ''master''
      then mk_priority 2 ''production branch''
      else if any_marker PRODUCTION_PATH_MARKERS files
      then mk_priority 2 ''production-sensitive files changed''
      else if startswith key ''release/''
      then mk_priority 3 ''release branch''
      else if any_marker CRITICAL_PATH_MARKERS files
      then mk_priority 3 ''CI/CD or infrastructure files changed''
      else if key = ''develop''
      then mk_priority 4 ''develop integration branch''
      else if startswith key ''feature/''
      then mk_priority 5 ''feature branch''
      else mk_priority 6 ''default branch priority'')"

definition priority_value :: "string \<Rightarrow> string list \<Rightarrow> int" where
  "priority_value branch files = pp_value (calculate_pipeline_priority [] branch (Some files))"

section \<open>Lemmas\<close>

lemma mk_priority_simps [simp]:
  "pp_value (mk_priority v r) = v" "pp_label (mk_priority v r) = priority_label v"
  "pp_reason (mk_priority v r) = r"
  by (simp_all add: mk_priority_def)

lemma any_marker_map: "any_marker ms (map norm_path fs) \<longleftrightarrow> (\<exists>f \<in> set fs. \<exists>m \<in> set ms. contains m (norm_path f))"
  by (auto simp: any_marker_def list_ex_iff)

lemma any_marker_mono: "any_marker ms (map norm_path fs) \<Longrightarrow> set fs \<subseteq> set gs \<Longrightarrow> any_marker ms (map norm_path gs)"
  by (auto simp: any_marker_map)

text \<open>Prefixes of a key exclude the other classes of branches.\<close>

lemma startswith_hd: "startswith s (c # p) \<Longrightarrow> \<exists>t. s = c # t \<and> startswith t p"
  by (cases s) (auto simp: startswith_def)

lemma branch_class_exclusive:
  "startswith k ''release/'' \<Longrightarrow> k \<noteq> ''develop'' \<and> \<not> startswith k ''feature/'' \<and> k \<noteq> ''main'' \<and> k \<noteq> ''master''"
  "startswith k ''feature/'' \<Longrightarrow> k \<noteq> ''develop'' \<and> k \<noteq> ''main'' \<and> k \<noteq> ''master''"
  by (auto dest!: startswith_hd)

section \<open>Properties\<close>

text \<open>
  The value is one of 1 to 6, the label is the label of that value, and the
  repository plays no part in it.
\<close>

theorem priority_in_range:
  fixes repo branch :: string and files :: "string list option"
  defines "p \<equiv> calculate_pipeline_priority repo branch files"
  shows "1 \<le> pp_value p \<and> pp_value p \<le> 6 \<and> map_of LABELS (pp_value p) = Some (pp_label p)
    \<and> p = calculate_pipeline_priority [] branch files"
  unfolding p_def calculate_pipeline_priority_def Let_def
  by (simp add: priority_label_def LABELS_def)

text \<open>
  Touching more files never makes a run less urgent, and the result depends
  only on which files changed, not on their order.
\<close>

theorem priority_more_files:
  assumes "set fs \<subseteq> set gs"
  shows "priority_value b gs \<le> priority_value b fs"
proof -
  have "any_marker PRODUCTION_PATH_MARKERS (map norm_path fs) \<Longrightarrow> any_marker PRODUCTION_PATH_MARKERS (map norm_path gs)"
    "any_marker CRITICAL_PATH_MARKERS (map norm_path fs) \<Longrightarrow> any_marker CRITICAL_PATH_MARKERS (map norm_path gs)"
    using assms by (blast intro: any_marker_mono)+
  then show ?thesis
    by (auto simp: priority_value_def calculate_pipeline_priority_def Let_def)
qed

theorem priority_more_files_witness:
  "set [''src/a.py''] \<subseteq> set [''src/a.py'', ''billing/invoice.py''] \<and>
   priority_value ''feature/x'' [''src/a.py'', ''billing/invoice.py''] \<le> priority_value ''feature/x'' [''src/a.py'']"
  using priority_more_files [of "[''src/a.py'']" "[''src/a.py'', ''billing/invoice.py'']" "''feature/x''"] by simp

text \<open>
  Without changed files the policy agrees with the SQL \<open>CASE\<close> over the branch
  (the legacy priority) on every branch name that is already in lower case
  without surrounding blanks and does not contain "security".
\<close>

theorem priority_matches_branch_case:
  assumes "branch_key b = b" "\<not> contains ''security'' b"
  shows "priority_value b [] = branch_priority_expr None b"
  using assms unfolding priority_value_def calculate_pipeline_priority_def Let_def
    branch_priority_expr_def branch_case_def
  by (auto simp: any_marker_def dest: branch_class_exclusive)

theorem priority_matches_branch_case_witness:
  "branch_key ''release/v1'' = ''release/v1'' \<and> \<not> contains ''security'' ''release/v1'' \<and>
   priority_value ''release/v1'' [] = branch_priority_expr None ''release/v1''"
proof -
  have a: "branch_key ''release/v1'' = ''release/v1''" by code_simp
  have b: "\<not> contains ''security'' ''release/v1''" by code_simp
  show ?thesis using a b priority_matches_branch_case [OF a b] by simp
qed

end
