(* ===== verification/Integrity.thy ===== *)
theory Integrity
  imports Models
begin

text \<open>
  Integrity of the database: the primary keys of every table (\<open>tables_ok\<close>) and
  the foreign keys declared by the ORM classes (\<open>refs_ok\<close>: the run of a stage,
  the run and the worker of an assignment).  The elementary row operations keep
  \<open>db_ok\<close>; the component theories build their preservation lemmas from these.
\<close>

definition tables_ok :: "db \<Rightarrow> bool" where
  "tables_ok d \<longleftrightarrow> keys_ok pr_id (runs_t d) (next_run d) \<and> keys_ok se_id (stages_t d) (next_stage d)
     \<and> keys_ok w_id (workers_t d) (next_worker d) \<and> keys_ok wa_id (assigns_t d) (next_assign d)
     \<and> keys_ok be_id (events_t d) (next_event d) \<and> keys_ok pt_id (patterns_t d) (next_pattern d)"

definition refs_ok :: "db \<Rightarrow> bool" where
  "refs_ok d \<longleftrightarrow> (\<forall>s \<in> set (stages_t d). get_run_row d (se_run_id s) \<noteq> None)
     \<and> (\<forall>a \<in> set (assigns_t d). get_run_row d (wa_run_id a) \<noteq> None \<and> get_worker d (wa_worker_id a) \<noteq> None)"

definition db_ok :: "db \<Rightarrow> bool" where
  "db_ok d \<longleftrightarrow> tables_ok d \<and> refs_ok d"

lemma db_ok_keys:
  assumes "db_ok d"
  shows "keys_ok pr_id (runs_t d) (next_run d)" "keys_ok se_id (stages_t d) (next_stage d)"
    "keys_ok w_id (workers_t d) (next_worker d)" "keys_ok wa_id (assigns_t d) (next_assign d)"
    "keys_ok be_id (events_t d) (next_event d)" "keys_ok pt_id (patterns_t d) (next_pattern d)"
  using assms by (simp_all add: db_ok_def tables_ok_def)

lemma db_ok_refs:
  assumes "db_ok d"
  shows "s \<in> set (stages_t d) \<Longrightarrow> get_run_row d (se_run_id s) \<noteq> None"
    "a \<in> set (assigns_t d) \<Longrightarrow> get_run_row d (wa_run_id a) \<noteq> None"
    "a \<in> set (assigns_t d) \<Longrightarrow> get_worker d (wa_worker_id a) \<noteq> None"
  using assms by (simp_all add: db_ok_def refs_ok_def)

lemma db_ok_empty [simp]: "db_ok empty_db"
  by (simp add: db_ok_def tables_ok_def refs_ok_def empty_db_def)

lemma get_run_row_upd [db_simps]:
  "(\<And>r. pr_id (f r) = pr_id r) \<Longrightarrow>
   get_run_row (upd_run i f d) j = (if j = i then map_option f (get_run_row d i) else get_run_row d j)"
  by (rule run_tbl.get_upd)

lemma get_worker_upd [db_simps]:
  "(\<And>w. w_id (f w) = w_id w) \<Longrightarrow>
   get_worker (upd_worker i f d) j = (if j = i then map_option f (get_worker d i) else get_worker d j)"
  by (rule worker_tbl.get_upd)

lemma db_ok_upd_run:
  assumes "\<And>r. pr_id (f r) = pr_id r" "db_ok d"
  shows "db_ok (upd_run i f d)"
  using assms run_tbl.ok_upd [of f d i]
  by (fastforce simp: db_ok_def tables_ok_def refs_ok_def db_simps)

lemma db_ok_upd_worker:
  assumes "\<And>w. w_id (f w) = w_id w" "db_ok d"
  shows "db_ok (upd_worker i f d)"
  using assms worker_tbl.ok_upd [of f d i]
  by (fastforce simp: db_ok_def tables_ok_def refs_ok_def db_simps)

lemma db_ok_upd_assign:
  assumes "\<And>a. wa_id (f a) = wa_id a" "\<And>a. wa_run_id (f a) = wa_run_id a"
    "\<And>a. wa_worker_id (f a) = wa_worker_id a" "db_ok d"
  shows "db_ok (upd_assign i f d)"
  using assms assign_tbl.ok_upd [of f d i]
  by (auto simp: db_ok_def tables_ok_def refs_ok_def db_simps assign_tbl.rows_upd elim!: upd_row_memE)

lemma db_ok_upd_stage:
  assumes "\<And>s. se_id (f s) = se_id s" "\<And>s. se_run_id (f s) = se_run_id s" "db_ok d"
  shows "db_ok (upd_stage i f d)"
  using assms stage_tbl.ok_upd [of f d i]
  by (auto simp: db_ok_def tables_ok_def refs_ok_def db_simps stage_tbl.rows_upd elim!: upd_row_memE)

lemma add_run_frame [db_simps]:
  "stages_t (add_run r d) = stages_t d" "workers_t (add_run r d) = workers_t d"
  "assigns_t (add_run r d) = assigns_t d" "events_t (add_run r d) = events_t d"
  "patterns_t (add_run r d) = patterns_t d" "metrics_t (add_run r d) = metrics_t d"
  "next_stage (add_run r d) = next_stage d" "next_worker (add_run r d) = next_worker d"
  "next_assign (add_run r d) = next_assign d" "next_event (add_run r d) = next_event d"
  "next_pattern (add_run r d) = next_pattern d" "get_worker (add_run r d) = get_worker d"
  "get_assign (add_run r d) = get_assign d" "get_stage (add_run r d) = get_stage d"
  by (simp_all add: table_defs fun_eq_iff)

lemma add_stage_frame [db_simps]:
  "runs_t (add_stage r d) = runs_t d" "workers_t (add_stage r d) = workers_t d"
  "assigns_t (add_stage r d) = assigns_t d" "events_t (add_stage r d) = events_t d"
  "patterns_t (add_stage r d) = patterns_t d" "metrics_t (add_stage r d) = metrics_t d"
  "next_run (add_stage r d) = next_run d" "next_worker (add_stage r d) = next_worker d"
  "next_assign (add_stage r d) = next_assign d" "next_event (add_stage r d) = next_event d"
  "next_pattern (add_stage r d) = next_pattern d" "get_worker (add_stage r d) = get_worker d"
  "get_assign (add_stage r d) = get_assign d" "get_run_row (add_stage r d) = get_run_row d"
  by (simp_all add: table_defs fun_eq_iff)

lemma add_worker_frame [db_simps]:
  "runs_t (add_worker r d) = runs_t d" "stages_t (add_worker r d) = stages_t d"
  "assigns_t (add_worker r d) = assigns_t d" "events_t (add_worker r d) = events_t d"
  "patterns_t (add_worker r d) = patterns_t d" "metrics_t (add_worker r d) = metrics_t d"
  "next_run (add_worker r d) = next_run d" "next_stage (add_worker r d) = next_stage d"
  "next_assign (add_worker r d) = next_assign d" "next_event (add_worker r d) = next_event d"
  "next_pattern (add_worker r d) = next_pattern d" "get_run_row (add_worker r d) = get_run_row d"
  "get_assign (add_worker r d) = get_assign d" "get_stage (add_worker r d) = get_stage d"
  by (simp_all add: table_defs fun_eq_iff)

lemma db_ok_add_run: "db_ok d \<Longrightarrow> db_ok (add_run r d)"
  using run_tbl.ok_add [of d r] run_tbl.get_add [of d r]
  by (simp add: db_ok_def tables_ok_def refs_ok_def db_simps)

lemma db_ok_add_worker: "db_ok d \<Longrightarrow> db_ok (add_worker r d)"
  using worker_tbl.ok_add [of d r] worker_tbl.get_add [of d r]
  by (simp add: db_ok_def tables_ok_def refs_ok_def db_simps)

lemma db_ok_add_stage:
  assumes "db_ok d" "get_run_row d (se_run_id s) \<noteq> None"
  shows "db_ok (add_stage s d)"
  using assms stage_tbl.ok_add [of d s]
  by (simp add: db_ok_def tables_ok_def refs_ok_def db_simps stage_tbl.rows_add)

lemma db_ok_add_assign:
  assumes "db_ok d" "get_run_row d (wa_run_id a) \<noteq> None" "get_worker d (wa_worker_id a) \<noteq> None"
  shows "db_ok (add_assign a d)"
  using assms assign_tbl.ok_add [of d a]
  by (simp add: db_ok_def tables_ok_def refs_ok_def db_simps assign_tbl.rows_add)

text \<open>A change of all stage rows that keeps their keys.\<close>

lemma db_ok_map_stages:
  assumes "\<And>s. se_id (f s) = se_id s" "\<And>s. se_run_id (f s) = se_run_id s" "db_ok d"
  shows "db_ok (d\<lparr>stages_t := map f (stages_t d)\<rparr>)"
proof -
  have "map se_id (map f (stages_t d)) = map se_id (stages_t d)" using assms(1) by simp
  then have "keys_ok se_id (map f (stages_t d)) (next_stage d)"
    using assms(1,3) by (auto simp: db_ok_def tables_ok_def keys_ok_def comp_def)
  then show ?thesis using assms
    by (simp add: db_ok_def tables_ok_def refs_ok_def get_run_row_def get_worker_def)
qed

lemma db_ok_map_runs:
  assumes "\<And>r. pr_id (f r) = pr_id r" "db_ok d"
  shows "db_ok (d\<lparr>runs_t := map f (runs_t d)\<rparr>)"
proof -
  have "map pr_id (map f (runs_t d)) = map pr_id (runs_t d)" using assms(1) by simp
  then have k: "keys_ok pr_id (map f (runs_t d)) (next_run d)"
    using assms by (auto simp: db_ok_def tables_ok_def keys_ok_def comp_def)
  have "get_row pr_id i (map f rs) = map_option f (get_row pr_id i rs)" for i rs
    by (induction rs) (auto simp: get_row_def assms(1))
  then show ?thesis using assms k
    by (simp add: db_ok_def tables_ok_def refs_ok_def get_run_row_def get_worker_def)
qed

text \<open>The preservation rules of \<open>db_ok\<close> for elementary updates.\<close>

lemmas db_ok_intros = db_ok_upd_run db_ok_upd_worker db_ok_upd_assign db_ok_upd_stage
  db_ok_add_run db_ok_add_worker db_ok_add_stage db_ok_add_assign

end
