(* ===== verification/Worker_Pool.thy ===== *)
theory Worker_Pool
  imports Integrity
begin

text \<open>
  The worker pool of \<open>app/services/worker_pool.py\<close>: detection of the language of
  a run, choice of an idle worker for it, release of a worker after a build, and
  the seed data.  A load is a dyadic rational; it only takes the values 0, 1/2
  and 1 (\<open>load_ok\<close>), on which the float arithmetic of the code is exact.
  The interface \<open>worker_allocator\<close> states what a scheduler may assume of the
  assignment operation; \<open>assign_worker\<close> is its interpretation.
\<close>

section \<open>Language detection\<close>

fun LANG_SIGNALS :: "worker_language \<Rightarrow> string list" where
  "LANG_SIGNALS L_PYTHON = [''python'', ''pytest'', ''pip'', ''django'', ''flask'', ''fastapi'', ''.py'']"
| "LANG_SIGNALS L_NODE = [''node'', ''npm'', ''yarn'', ''jest'', ''react'', ''next'', ''.js'', ''.ts'']"
| "LANG_SIGNALS L_JAVA = [''java'', ''maven'', ''gradle'', ''spring'', ''kotlin'', ''.java'']"
| "LANG_SIGNALS L_GO = [''go'', ''golang'', ''gotest'', ''.go'']"
| "LANG_SIGNALS L_RUBY = [''ruby'', ''rails'', ''rspec'', ''bundler'', ''.rb'']"
| "LANG_SIGNALS L_GENERIC = []"

fun STAGE_LANG_HINTS :: "worker_language \<Rightarrow> string list" where
  "STAGE_LANG_HINTS L_PYTHON = [''pytest'', ''pip install'', ''python'', ''coverage'', ''mypy'', ''ruff'']"
| "STAGE_LANG_HINTS L_NODE = [''npm'', ''yarn'', ''jest'', ''webpack'', ''eslint'', ''next build'']"
| "STAGE_LANG_HINTS L_JAVA = [''maven'', ''gradle'', ''mvn'', ''java'', ''spring'']"
| "STAGE_LANG_HINTS L_GO = [''go test'', ''go build'', ''golangci'']"
| "STAGE_LANG_HINTS L_RUBY = [''bundle'', ''rspec'', ''rails'']"
| "STAGE_LANG_HINTS L_GENERIC = []"

definition all_languages :: "worker_language list" where
  "all_languages = [L_PYTHON, L_NODE, L_JAVA, L_GO, L_RUBY, L_GENERIC]"

definition language_score :: "string \<Rightarrow> string list \<Rightarrow> worker_language \<Rightarrow> nat" where
  "language_score repo_url stages lang =
     (let text = py_lower (repo_url @ '' '' @ py_join '' '' stages) in
      2 * length (filter (\<lambda>signal. contains signal text) (LANG_SIGNALS lang))
      + 3 * length (filter (\<lambda>hint. list_ex (\<lambda>s. contains hint (py_lower s)) stages)
               (STAGE_LANG_HINTS lang)))"

text \<open>\<open>max(xs, key=f)\<close> keeps the first of several maximal items.\<close>

fun py_max_by :: "('a \<Rightarrow> nat) \<Rightarrow> 'a \<Rightarrow> 'a list \<Rightarrow> 'a" where
  "py_max_by f best [] = best"
| "py_max_by f best (x # xs) = py_max_by f (if f best < f x then x else best) xs"

definition detect_language :: "string \<Rightarrow> string list \<Rightarrow> worker_language" where
  "detect_language repo_url stages =
     (let score = language_score repo_url stages;
          best = py_max_by score (hd all_languages) (tl all_languages) in
      if score best = 0 then L_GENERIC else best)"

lemma py_max_by_ge: "f best \<le> f (py_max_by f best xs)"
  by (induction xs arbitrary: best) (auto intro: order_trans less_imp_le)

lemma py_max_by_max: "x \<in> set xs \<Longrightarrow> f x \<le> f (py_max_by f best xs)"
proof (induction xs arbitrary: best)
  case Nil
  then show ?case by simp
next
  case (Cons y ys)
  have "f y \<le> f (py_max_by f (if f best < f y then y else best) ys)"
    using py_max_by_ge [of f "if f best < f y then y else best" ys] by (simp split: if_splits)
  then show ?case using Cons by auto
qed

lemma py_max_by_mem: "py_max_by f best xs \<in> insert best (set xs)"
  by (induction xs arbitrary: best) (auto split: if_splits)

lemma language_in_all [simp]: "l \<in> set all_languages"
  by (cases l) (simp_all add: all_languages_def)

lemma language_score_GENERIC [simp]: "language_score u ss L_GENERIC = 0"
  by (simp add: language_score_def Let_def)

lemma detect_language_max: "language_score u ss l \<le> language_score u ss (detect_language u ss)"
proof -
  have "language_score u ss l \<le> language_score u ss
      (py_max_by (language_score u ss) (hd all_languages) (tl all_languages))"
    using language_in_all [of l] py_max_by_ge [of "language_score u ss" "hd all_languages"]
      py_max_by_max [of l "tl all_languages" "language_score u ss"]
    by (cases "l = hd all_languages") (auto simp: all_languages_def simp del: py_max_by.simps)
  then show ?thesis by (simp add: detect_language_def Let_def)
qed

lemma detect_language_generic_iff:
  "detect_language u ss = L_GENERIC \<longleftrightarrow> (\<forall>l. language_score u ss l = 0)"
proof
  assume "detect_language u ss = L_GENERIC"
  then show "\<forall>l. language_score u ss l = 0" using detect_language_max [of u ss] by simp
next
  assume "\<forall>l. language_score u ss l = 0"
  then show "detect_language u ss = L_GENERIC" by (simp add: detect_language_def Let_def)
qed

section \<open>Assignment\<close>

definition idle_workers :: "db \<Rightarrow> worker list" where
  "idle_workers d = sort_key w_load (filter (\<lambda>w. w_status w = WS_IDLE) (workers_t d))"

definition candidates :: "worker list \<Rightarrow> worker_language \<Rightarrow> worker list" where
  "candidates workers language =
     (let preferred = filter (\<lambda>w. w_language w = language) workers;
          fallback = filter (\<lambda>w. w_language w = L_GENERIC) workers in
      if preferred \<noteq> [] then preferred else if fallback \<noteq> [] then fallback else workers)"

definition job_title :: "db \<Rightarrow> int \<Rightarrow> string" where
  "job_title d run_id =
     (case get_run_row d run_id of
        None \<Rightarrow> ''run-'' @ str_int run_id
      | Some r \<Rightarrow> (case pr_jenkins_job_name r of
            Some j \<Rightarrow> if j \<noteq> [] then j else pr_repo_url r
          | None \<Rightarrow> pr_repo_url r))"

definition occupy :: "string \<Rightarrow> time \<Rightarrow> worker \<Rightarrow> worker" where
  "occupy job now w = w\<lparr>w_status := WS_BUSY, w_load := min 1 (w_load w + 1/2),
     w_last_heartbeat := Some now, w_current_job := Some job\<rparr>"

definition new_assignment :: "int \<Rightarrow> int \<Rightarrow> time \<Rightarrow> worker_assignment" where
  "new_assignment run_id worker_id now =
     \<lparr>wa_id = 0, wa_run_id = run_id, wa_worker_id = worker_id, wa_status = AS_ASSIGNED,
      wa_assigned_at = now, wa_started_at = None, wa_completed_at = None,
      wa_duration_s = None, wa_result = None\<rparr>"

definition assign_worker :: "db \<Rightarrow> int \<Rightarrow> worker_language \<Rightarrow> time \<Rightarrow> db \<times> worker option" where
  "assign_worker d run_id language now =
     (case sort_key w_load (candidates (idle_workers d) language) of
        [] \<Rightarrow> (d, None)
      | chosen # _ \<Rightarrow>
          let d1 = upd_worker (w_id chosen) (occupy (job_title d run_id) now) d;
              d2 = add_assign (new_assignment run_id (w_id chosen) now) d1
          in (d2, get_worker d2 (w_id chosen)))"

section \<open>Release\<close>

definition vacate :: "time \<Rightarrow> worker \<Rightarrow> worker" where
  "vacate now w = w\<lparr>w_status := WS_IDLE, w_load := max 0 (w_load w - 1/2),
     w_jobs_run := w_jobs_run w + 1, w_current_job := None, w_last_heartbeat := Some now\<rparr>"

definition close_assignment :: "bool \<Rightarrow> time \<Rightarrow> worker_assignment \<Rightarrow> worker_assignment" where
  "close_assignment success now a =
     a\<lparr>wa_status := (if success then AS_DONE else AS_FAILED), wa_completed_at := Some now,
       wa_result := Some (if success then ''SUCCESS'' else ''FAILURE''),
       wa_duration_s := (case wa_started_at a of
           Some t \<Rightarrow> Some (trunc_seconds (now - t)) | None \<Rightarrow> wa_duration_s a)\<rparr>"

definition release_worker :: "db \<Rightarrow> int \<Rightarrow> int \<Rightarrow> bool \<Rightarrow> time \<Rightarrow> db" where
  "release_worker d worker_id run_id success now =
     (case get_worker d worker_id of
        None \<Rightarrow> d
      | Some w \<Rightarrow>
          let d1 = upd_worker worker_id (vacate now) d in
          case first_row (filter (\<lambda>a. wa_run_id a = run_id \<and> wa_worker_id a = worker_id) (assigns_t d1)) of
            None \<Rightarrow> d1
          | Some a \<Rightarrow> upd_assign (wa_id a) (close_assignment success now) d1)"

section \<open>Seeding\<close>

definition WORKER_SEED :: "(string \<times> worker_language \<times> string) list" where
  "WORKER_SEED =
     [(''worker-python-1'', L_PYTHON, ''[\"pytest\",\"pip\",\"docker\",\"coverage\"]''),
      (''worker-python-2'', L_PYTHON, ''[\"pytest\",\"pip\",\"mypy\",\"ruff\"]''),
      (''worker-node-1'', L_NODE, ''[\"npm\",\"jest\",\"webpack\",\"docker\"]''),
      (''worker-java-1'', L_JAVA, ''[\"maven\",\"gradle\",\"docker\",\"sonar\"]'')]"

definition new_worker :: "string \<Rightarrow> worker_language \<Rightarrow> string \<Rightarrow> time \<Rightarrow> worker" where
  "new_worker name lang caps now =
     \<lparr>w_id = 0, w_name = name, w_language = lang, w_status = WS_IDLE, w_load = 0, w_jobs_run = 0,
      w_current_job = None, w_capabilities = Some caps, w_last_heartbeat = None, w_created_at = now\<rparr>"

definition seed_workers :: "db \<Rightarrow> time \<Rightarrow> db" where
  "seed_workers d now =
     (case first_row (workers_t d) of
        Some _ \<Rightarrow> d
      | None \<Rightarrow> fold (\<lambda>(name, lang, caps). add_worker (new_worker name lang caps now)) WORKER_SEED d)"

section \<open>Facts about the choice\<close>

lemma occupy_simps [simp]:
  "w_id (occupy j t w) = w_id w" "w_status (occupy j t w) = WS_BUSY"
  "w_language (occupy j t w) = w_language w" "w_load (occupy j t w) = min 1 (w_load w + 1/2)"
  "w_last_heartbeat (occupy j t w) = Some t" "w_current_job (occupy j t w) = Some j"
  "w_name (occupy j t w) = w_name w" "w_jobs_run (occupy j t w) = w_jobs_run w"
  by (simp_all add: occupy_def)

lemma vacate_simps [simp]:
  "w_id (vacate t w) = w_id w" "w_status (vacate t w) = WS_IDLE"
  "w_language (vacate t w) = w_language w" "w_load (vacate t w) = max 0 (w_load w - 1/2)"
  "w_last_heartbeat (vacate t w) = Some t" "w_jobs_run (vacate t w) = w_jobs_run w + 1"
  "w_name (vacate t w) = w_name w"
  by (simp_all add: vacate_def)

lemma close_assignment_simps [simp]:
  "wa_id (close_assignment s t a) = wa_id a" "wa_run_id (close_assignment s t a) = wa_run_id a"
  "wa_worker_id (close_assignment s t a) = wa_worker_id a"
  "wa_completed_at (close_assignment s t a) = Some t"
  by (simp_all add: close_assignment_def)

lemma set_idle_workers: "set (idle_workers d) = {w \<in> set (workers_t d). w_status w = WS_IDLE}"
  by (auto simp: idle_workers_def)

lemma set_candidates_subset: "set (candidates ws l) \<subseteq> set ws"
  by (auto simp: candidates_def Let_def)

lemma candidates_Nil [simp]: "candidates [] l = []"
  by (simp add: candidates_def)

lemma candidates_Nil_iff [simp]: "candidates ws l = [] \<longleftrightarrow> ws = []"
  by (auto simp: candidates_def Let_def)

lemma idle_workers_Nil_iff: "idle_workers d = [] \<longleftrightarrow> (\<forall>w \<in> set (workers_t d). w_status w \<noteq> WS_IDLE)"
proof -
  have "idle_workers d = [] \<longleftrightarrow> set (idle_workers d) = {}" by simp
  then show ?thesis by (auto simp: set_idle_workers)
qed

text \<open>The chosen worker, named, so that each fact about it is stated once.\<close>

definition chosen_worker :: "db \<Rightarrow> worker_language \<Rightarrow> worker option" where
  "chosen_worker d language = first_row (sort_key w_load (candidates (idle_workers d) language))"

lemma sort_key_Nil_iff [simp]: "sort_key f xs = [] \<longleftrightarrow> xs = []"
  by (metis set_empty set_sort)

lemma chosen_worker_None_iff: "chosen_worker d l = None \<longleftrightarrow> idle_workers d = []"
proof (cases "sort_key w_load (candidates (idle_workers d) l)")
  case Nil
  then show ?thesis by (simp add: chosen_worker_def)
next
  case (Cons c cs)
  then have "candidates (idle_workers d) l \<noteq> []"
    by (metis list.distinct(1) sort_key_Nil_iff)
  then show ?thesis using Cons by (simp add: chosen_worker_def)
qed

lemma chosen_worker_candidate:
  assumes "chosen_worker d l = Some c"
  shows "c \<in> set (candidates (idle_workers d) l)"
  using first_row_SomeD [OF assms [unfolded chosen_worker_def]] by simp

lemma chosen_worker_idle:
  assumes "chosen_worker d l = Some c"
  shows "c \<in> set (workers_t d)" "w_status c = WS_IDLE"
  using chosen_worker_candidate [OF assms] set_candidates_subset [of "idle_workers d" l]
  by (auto simp: set_idle_workers)

lemma chosen_worker_least:
  assumes "chosen_worker d l = Some c" "w \<in> set (candidates (idle_workers d) l)"
  shows "w_load c \<le> w_load w"
proof -
  obtain cs where s: "sort_key w_load (candidates (idle_workers d) l) = c # cs"
    using assms(1) by (cases "sort_key w_load (candidates (idle_workers d) l)") (auto simp: chosen_worker_def)
  have "sorted (map w_load (c # cs))" unfolding s [symmetric] by (rule sorted_sort_key)
  moreover have "w \<in> set (c # cs)" using assms(2) unfolding s [symmetric] by simp
  ultimately show ?thesis by auto
qed

text \<open>
  The three candidate lists amount to a rank: workers of the language first, then
  generic ones, then any other.
\<close>

definition worker_rank :: "worker_language \<Rightarrow> worker \<Rightarrow> nat" where
  "worker_rank l w = (if w_language w = l then 0 else if w_language w = L_GENERIC then 1 else 2)"

lemma candidates_least_rank:
  assumes "c \<in> set (candidates ws l)" "w \<in> set ws"
  shows "worker_rank l c \<le> worker_rank l w"
    and "worker_rank l w = worker_rank l c \<Longrightarrow> w \<in> set (candidates ws l)"
  using assms by (auto simp: candidates_def worker_rank_def Let_def filter_empty_conv split: if_splits)

lemma chosen_worker_rank:
  assumes "chosen_worker d l = Some c" "w \<in> set (workers_t d)" "w_status w = WS_IDLE"
  shows "worker_rank l c < worker_rank l w \<or> worker_rank l c = worker_rank l w \<and> w_load c \<le> w_load w"
proof -
  have w: "w \<in> set (idle_workers d)" using assms(2,3) by (simp add: set_idle_workers)
  note c = chosen_worker_candidate [OF assms(1)]
  show ?thesis
    using candidates_least_rank [OF c w] chosen_worker_least [OF assms(1)] by fastforce
qed

text \<open>\<open>assign_worker\<close> written over the chosen worker.\<close>

definition assign_effect :: "db \<Rightarrow> int \<Rightarrow> worker \<Rightarrow> time \<Rightarrow> db" where
  "assign_effect d run_id c now =
     add_assign (new_assignment run_id (w_id c) now) (upd_worker (w_id c) (occupy (job_title d run_id) now) d)"

lemma assign_worker_None: "chosen_worker d l = None \<Longrightarrow> assign_worker d r l now = (d, None)"
  by (cases "sort_key w_load (candidates (idle_workers d) l)")
    (simp_all add: chosen_worker_def assign_worker_def)

lemma assign_worker_Some:
  assumes "keys_ok w_id (workers_t d) n" "chosen_worker d l = Some c"
  shows "assign_worker d r l now = (assign_effect d r c now, Some (occupy (job_title d r) now c))"
proof -
  obtain cs where s: "sort_key w_load (candidates (idle_workers d) l) = c # cs"
    using assms(2) by (cases "sort_key w_load (candidates (idle_workers d) l)") (auto simp: chosen_worker_def)
  have "get_worker d (w_id c) = Some c"
    using worker_tbl.get_mem [OF assms(1) chosen_worker_idle(1) [OF assms(2)]] .
  then have "get_worker (assign_effect d r c now) (w_id c) = Some (occupy (job_title d r) now c)"
    by (simp add: assign_effect_def db_simps worker_tbl.get_upd)
  then show ?thesis using s by (simp add: assign_worker_def assign_effect_def Let_def)
qed

lemma assign_effect_frame [db_simps]:
  "runs_t (assign_effect d r c now) = runs_t d" "stages_t (assign_effect d r c now) = stages_t d"
  "events_t (assign_effect d r c now) = events_t d" "next_run (assign_effect d r c now) = next_run d"
  "next_worker (assign_effect d r c now) = next_worker d"
  "next_assign (assign_effect d r c now) = next_assign d + 1"
  "patterns_t (assign_effect d r c now) = patterns_t d"
  "next_stage (assign_effect d r c now) = next_stage d"
  "next_event (assign_effect d r c now) = next_event d"
  "next_pattern (assign_effect d r c now) = next_pattern d"
  "metrics_t (assign_effect d r c now) = metrics_t d"
  "workers_t (assign_effect d r c now) = upd_row w_id (w_id c) (occupy (job_title d r) now) (workers_t d)"
  "assigns_t (assign_effect d r c now) =
     assigns_t d @ [(new_assignment r (w_id c) now)\<lparr>wa_id := next_assign d\<rparr>]"
  by (simp_all add: assign_effect_def db_simps assign_tbl.rows_add worker_tbl.rows_upd
      assign_tbl.nxt_add worker_tbl.nxt_upd)

section \<open>What a scheduler may assume of an assignment operation\<close>

definition idle_ids :: "db \<Rightarrow> int set" where
  "idle_ids d = w_id ` {w \<in> set (workers_t d). w_status w = WS_IDLE}"

locale worker_allocator =
  fixes assign :: "db \<Rightarrow> int \<Rightarrow> worker_language \<Rightarrow> time \<Rightarrow> db \<times> worker option"
    and good :: "db \<Rightarrow> bool"
  assumes runs_same: "runs_t (fst (assign d r l t)) = runs_t d"
    and good_kept: "good d \<Longrightarrow> good (fst (assign d r l t))"
    and good_runs: "good d \<Longrightarrow> good (upd_run i f d)"
    and refuses: "good d \<Longrightarrow> snd (assign d r l t) = None \<longleftrightarrow> idle_ids d = {}"
    and refused_same: "snd (assign d r l t) = None \<Longrightarrow> fst (assign d r l t) = d"
    and takes_idle: "good d \<Longrightarrow> snd (assign d r l t) = Some w \<Longrightarrow>
      w_id w \<in> idle_ids d \<and> idle_ids (fst (assign d r l t)) = idle_ids d - {w_id w}"

lemma idle_ids_upd_run [simp]: "idle_ids (upd_run i f d) = idle_ids d"
  by (simp add: idle_ids_def db_simps)

definition worker_keys_ok :: "db \<Rightarrow> bool" where
  "worker_keys_ok d \<longleftrightarrow> keys_ok w_id (workers_t d) (next_worker d)"

lemma worker_keys_upd_run [simp]: "worker_keys_ok (upd_run i f d) = worker_keys_ok d"
  by (simp add: worker_keys_ok_def db_simps)

lemma idle_ids_occupy:
  assumes "keys_ok w_id ws n" "c \<in> set ws"
  shows "w_id ` {w \<in> set (upd_row w_id (w_id c) (occupy j t) ws). w_status w = WS_IDLE} =
         w_id ` {w \<in> set ws. w_status w = WS_IDLE} - {w_id c}"
  by (auto simp: set_upd_row image_iff)

interpretation pool: worker_allocator assign_worker worker_keys_ok
proof
  fix d :: db and r l t i f w
  show runs: "runs_t (fst (assign_worker d r l t)) = runs_t d"
    by (auto simp: assign_worker_def Let_def db_simps split: list.split)
  show "worker_keys_ok d \<Longrightarrow> worker_keys_ok (fst (assign_worker d r l t))"
  proof (cases "chosen_worker d l")
    case None
    then show "worker_keys_ok d \<Longrightarrow> ?thesis" by (simp add: assign_worker_None)
  next
    case (Some c)
    assume ok: "worker_keys_ok d"
    have "keys_ok w_id (workers_t (upd_worker i (occupy j u) d)) (next_worker (upd_worker i (occupy j u) d))"
      for i j u using ok worker_tbl.ok_upd [of "occupy j u" d i] by (simp add: worker_keys_ok_def)
    then show ?thesis using ok Some
      by (simp add: assign_worker_Some worker_keys_ok_def assign_effect_def db_simps)
  qed
  show "worker_keys_ok d \<Longrightarrow> worker_keys_ok (upd_run i f d)" by simp
  show "worker_keys_ok d \<Longrightarrow> snd (assign_worker d r l t) = None \<longleftrightarrow> idle_ids d = {}"
  proof (cases "chosen_worker d l")
    case None
    then show ?thesis using chosen_worker_None_iff [of d l]
      by (simp add: assign_worker_None idle_workers_Nil_iff idle_ids_def)
  next
    case (Some c)
    assume ok: "worker_keys_ok d"
    then show ?thesis using Some chosen_worker_idle [OF Some]
      by (auto simp: assign_worker_Some worker_keys_ok_def idle_ids_def)
  qed
  show "snd (assign_worker d r l t) = None \<Longrightarrow> fst (assign_worker d r l t) = d"
  proof (cases "sort_key w_load (candidates (idle_workers d) l)")
    case Nil
    then show ?thesis by (simp add: assign_worker_def)
  next
    case (Cons c cs)
    then have "c \<in> set (sort_key w_load (candidates (idle_workers d) l))" by simp
    then have "c \<in> set (workers_t d)"
      using set_candidates_subset [of "idle_workers d" l] by (auto simp: set_idle_workers)
    then have "get_worker (assign_effect d r c t) (w_id c) \<noteq> None"
      by (auto simp: assign_effect_def db_simps worker_tbl.get_upd worker_tbl.get_None_iff)
    moreover assume "snd (assign_worker d r l t) = None"
    ultimately show ?thesis using Cons by (simp add: assign_worker_def assign_effect_def Let_def)
  qed
  show "worker_keys_ok d \<Longrightarrow> snd (assign_worker d r l t) = Some w \<Longrightarrow>
      w_id w \<in> idle_ids d \<and> idle_ids (fst (assign_worker d r l t)) = idle_ids d - {w_id w}"
  proof (cases "chosen_worker d l")
    case None
    then show "snd (assign_worker d r l t) = Some w \<Longrightarrow> ?thesis" by (simp add: assign_worker_None)
  next
    case (Some c)
    assume ok: "worker_keys_ok d" and w: "snd (assign_worker d r l t) = Some w"
    then show ?thesis using Some chosen_worker_idle [OF Some] idle_ids_occupy [of "workers_t d" _ c]
      by (auto simp: assign_worker_Some worker_keys_ok_def idle_ids_def db_simps)
  qed
qed

section \<open>Loads and heartbeats\<close>

definition load_ok :: "worker \<Rightarrow> bool" where
  "load_ok w \<longleftrightarrow> w_load w = 0 \<or> w_load w = 1/2 \<or> w_load w = 1"

text \<open>A busy worker has a heartbeat, so the recovery of stale workers can see it.\<close>

definition worker_ok :: "worker \<Rightarrow> bool" where
  "worker_ok w \<longleftrightarrow> load_ok w \<and> 0 \<le> w_jobs_run w \<and> (w_status w = WS_BUSY \<longrightarrow> w_last_heartbeat w \<noteq> None)"

definition workers_ok :: "db \<Rightarrow> bool" where
  "workers_ok d \<longleftrightarrow> (\<forall>w \<in> set (workers_t d). worker_ok w)"

lemma worker_ok_occupy [simp]: "worker_ok w \<Longrightarrow> worker_ok (occupy j t w)"
  by (auto simp: worker_ok_def load_ok_def)

lemma worker_ok_vacate [simp]: "worker_ok w \<Longrightarrow> worker_ok (vacate t w)"
  by (auto simp: worker_ok_def load_ok_def)

lemma worker_ok_new [simp]: "worker_ok (new_worker n l c t)"
  by (simp add: worker_ok_def load_ok_def new_worker_def)

lemma worker_ok_set_id [simp]: "worker_ok (w\<lparr>w_id := i\<rparr>) = worker_ok w"
  by (simp add: worker_ok_def load_ok_def)

lemma workers_ok_upd:
  "\<lbrakk>workers_ok d; \<And>w. worker_ok w \<Longrightarrow> worker_ok (f w)\<rbrakk> \<Longrightarrow> workers_ok (upd_worker i f d)"
  by (auto simp: workers_ok_def worker_tbl.rows_upd elim!: upd_row_memE)

lemma workers_ok_frame [simp]:
  "workers_ok (upd_run i g d) = workers_ok d" "workers_ok (upd_assign i h d) = workers_ok d"
  "workers_ok (upd_stage i k d) = workers_ok d" "workers_ok (add_assign a d) = workers_ok d"
  by (simp_all add: workers_ok_def db_simps)

lemma workers_ok_assign: "workers_ok d \<Longrightarrow> workers_ok (fst (assign_worker d r l t))"
  by (auto simp: assign_worker_def Let_def workers_ok_upd split: list.split)

lemma workers_ok_release: "workers_ok d \<Longrightarrow> workers_ok (release_worker d w r s t)"
  by (auto simp: release_worker_def Let_def workers_ok_upd split: option.split)

lemma workers_ok_seed: "workers_ok d \<Longrightarrow> workers_ok (seed_workers d t)"
proof -
  have "workers_ok d \<Longrightarrow> workers_ok (add_worker (new_worker n l c t) d)" for n l c d
    by (auto simp: workers_ok_def worker_tbl.rows_add)
  then have "workers_ok d \<Longrightarrow>
      workers_ok (fold (\<lambda>(n, l, c). add_worker (new_worker n l c t)) xs d)" for xs
    by (induction xs arbitrary: d) auto
  then show "workers_ok d \<Longrightarrow> ?thesis" by (simp add: seed_workers_def split: option.split)
qed

section \<open>Integrity, and busy workers have an open assignment\<close>

lemma db_ok_assign:
  assumes "db_ok d" "get_run_row d r \<noteq> None"
  shows "db_ok (fst (assign_worker d r l t))"
proof (cases "chosen_worker d l")
  case None
  then show ?thesis using assms by (simp add: assign_worker_None)
next
  case (Some c)
  have "get_worker d (w_id c) \<noteq> None"
    using chosen_worker_idle(1) [OF Some] by (auto simp: worker_tbl.get_None_iff)
  then have "db_ok (assign_effect d r c t)" unfolding assign_effect_def
    using assms by (intro db_ok_intros) (simp_all add: db_simps new_assignment_def)
  then show ?thesis using Some assms by (simp add: assign_worker_Some [OF db_ok_keys(3)])
qed

lemma db_ok_release: "db_ok d \<Longrightarrow> db_ok (release_worker d w r s t)"
  by (auto simp: release_worker_def Let_def intro!: db_ok_intros split: option.split)

lemma db_ok_seed: "db_ok d \<Longrightarrow> db_ok (seed_workers d t)"
proof -
  have "db_ok d \<Longrightarrow> db_ok (fold (\<lambda>(n, l, c). add_worker (new_worker n l c t)) xs d)" for xs
    by (induction xs arbitrary: d) (auto intro: db_ok_intros)
  then show "db_ok d \<Longrightarrow> ?thesis" by (simp add: seed_workers_def split: option.split)
qed

definition open_on :: "int \<Rightarrow> worker_assignment \<Rightarrow> bool" where
  "open_on w a \<longleftrightarrow> wa_worker_id a = w \<and> wa_completed_at a = None"

definition busy_has_assignment :: "db \<Rightarrow> bool" where
  "busy_has_assignment d \<longleftrightarrow>
     (\<forall>w \<in> set (workers_t d). w_status w = WS_BUSY \<longrightarrow> (\<exists>a \<in> set (assigns_t d). open_on (w_id w) a))"

lemma busy_has_assignment_seed: "busy_has_assignment d \<Longrightarrow> busy_has_assignment (seed_workers d t)"
proof -
  have "busy_has_assignment d \<Longrightarrow> busy_has_assignment (add_worker (new_worker n l c t) d)" for n l c d
    by (auto simp: busy_has_assignment_def worker_tbl.rows_add db_simps new_worker_def)
  then have "busy_has_assignment d \<Longrightarrow>
      busy_has_assignment (fold (\<lambda>(n, l, c). add_worker (new_worker n l c t)) xs d)" for xs
    by (induction xs arbitrary: d) auto
  then show "busy_has_assignment d \<Longrightarrow> ?thesis" by (simp add: seed_workers_def split: option.split)
qed

lemma busy_has_assignment_frame [simp]:
  "busy_has_assignment (upd_run i g d) = busy_has_assignment d"
  "busy_has_assignment (upd_stage i k d) = busy_has_assignment d"
  by (simp_all add: busy_has_assignment_def db_simps)

text \<open>
  Closing assignments of one worker keeps the invariant once that worker is no
  longer busy; so does any change of an assignment that leaves its worker and
  its completion time.
\<close>

lemma busy_has_assignment_upd_worker:
  assumes "busy_has_assignment d" "\<And>w. w_id (f w) = w_id w" "\<And>w. w_status (f w) = WS_BUSY \<Longrightarrow> w_status w = WS_BUSY"
  shows "busy_has_assignment (upd_worker i f d)"
  using assms by (fastforce simp: busy_has_assignment_def db_simps worker_tbl.rows_upd elim!: upd_row_memE)

lemma busy_has_assignment_upd_assign:
  assumes "busy_has_assignment d" "\<And>a. wa_worker_id (f a) = wa_worker_id a"
    and "\<And>a. a \<in> set (assigns_t d) \<Longrightarrow> wa_id a = i \<Longrightarrow> wa_completed_at (f a) = wa_completed_at a \<or>
      (\<forall>w \<in> set (workers_t d). w_id w = wa_worker_id a \<longrightarrow> w_status w \<noteq> WS_BUSY)"
  shows "busy_has_assignment (upd_assign i f d)"
  unfolding busy_has_assignment_def
proof (intro ballI impI)
  fix w assume w: "w \<in> set (workers_t (upd_assign i f d))" "w_status w = WS_BUSY"
  then obtain a where a: "a \<in> set (assigns_t d)" "open_on (w_id w) a"
    using assms(1) by (auto simp: busy_has_assignment_def db_simps)
  let ?a = "if wa_id a = i then f a else a"
  have "?a \<in> set (assigns_t (upd_assign i f d))"
    using a(1) by (auto simp: assign_tbl.rows_upd set_upd_row)
  moreover have "open_on (w_id w) ?a"
  proof (cases "wa_id a = i")
    case True
    have "wa_completed_at (f a) = wa_completed_at a"
      using assms(3) [OF a(1) True] a(2) w by (auto simp: open_on_def db_simps)
    then show ?thesis using a(2) True assms(2) by (simp add: open_on_def)
  next
    case False
    then show ?thesis using a(2) by simp
  qed
  ultimately show "\<exists>a \<in> set (assigns_t (upd_assign i f d)). open_on (w_id w) a" by blast
qed

lemma busy_has_assignment_assign:
  assumes "db_ok d" "busy_has_assignment d"
  shows "busy_has_assignment (fst (assign_worker d r l t))"
proof (cases "chosen_worker d l")
  case None
  then show ?thesis using assms by (simp add: assign_worker_None)
next
  case (Some c)
  let ?d = "assign_effect d r c t"
  let ?a = "(new_assignment r (w_id c) t)\<lparr>wa_id := next_assign d\<rparr>"
  have "\<exists>a \<in> set (assigns_t ?d). open_on (w_id w) a" if w: "w \<in> set (workers_t ?d)" "w_status w = WS_BUSY" for w
  proof (cases "w_id w = w_id c")
    case True
    then show ?thesis by (simp add: db_simps open_on_def new_assignment_def)
  next
    case False
    then have "w \<in> set (workers_t d)" using w(1) by (auto simp: db_simps elim!: upd_row_memE)
    then obtain a where "a \<in> set (assigns_t d)" "open_on (w_id w) a"
      using assms(2) w(2) by (auto simp: busy_has_assignment_def)
    then show ?thesis by (auto simp: db_simps)
  qed
  then show ?thesis using Some by (simp add: assign_worker_Some [OF db_ok_keys(3) [OF assms(1)]] busy_has_assignment_def)
qed

lemma release_status:
  "w \<in> set (workers_t (upd_worker i (vacate t) d)) \<Longrightarrow> w_id w = i \<Longrightarrow> w_status w = WS_IDLE"
  unfolding worker_tbl.rows_upd set_upd_row by (elim imageE) (simp split: if_splits)

lemma busy_has_assignment_release:
  assumes "db_ok d" "busy_has_assignment d"
  shows "busy_has_assignment (release_worker d w r s t)"
proof (cases "get_worker d w")
  case None
  then show ?thesis using assms by (simp add: release_worker_def)
next
  case (Some x)
  let ?d = "upd_worker w (vacate t) d"
  let ?rows = "filter (\<lambda>a. wa_run_id a = r \<and> wa_worker_id a = w) (assigns_t ?d)"
  have d: "busy_has_assignment ?d" using assms(2) by (rule busy_has_assignment_upd_worker) simp_all
  show ?thesis
  proof (cases "first_row ?rows")
    case None
    then show ?thesis using Some d by (simp add: release_worker_def Let_def)
  next
    case (Some a)
    have "busy_has_assignment (upd_assign (wa_id a) (close_assignment s t) ?d)"
    proof (rule busy_has_assignment_upd_assign [OF d])
      fix b assume b: "b \<in> set (assigns_t ?d)" "wa_id b = wa_id a"
      show "wa_completed_at (close_assignment s t b) = wa_completed_at b \<or>
        (\<forall>v \<in> set (workers_t ?d). w_id v = wa_worker_id b \<longrightarrow> w_status v \<noteq> WS_BUSY)"
      proof -
        have a: "a \<in> set (assigns_t d)" "wa_worker_id a = w"
          using first_row_SomeD [OF Some] by (simp_all add: db_simps)
        have "b \<in> set (assigns_t d)" using b(1) by (simp add: db_simps)
        then have "get_assign d (wa_id a) = Some b"
          using assign_tbl.get_mem [OF db_ok_keys(4) [OF assms(1)]] b(2) by metis
        then have "b = a" using assign_tbl.get_mem [OF db_ok_keys(4) [OF assms(1)] a(1)] by simp
        then have "wa_worker_id b = w" using a(2) by simp
        moreover have "w_status v \<noteq> WS_BUSY" if "v \<in> set (workers_t ?d)" "w_id v = w" for v
          using release_status [OF that] by simp
        ultimately show ?thesis by blast
      qed
    qed simp
    then show ?thesis using Some \<open>get_worker d w = Some x\<close> by (simp add: release_worker_def Let_def)
  qed
qed

section \<open>Properties\<close>

text \<open>
  The detected language has the largest score of all languages (2 per signal
  found in the URL and stage text, 3 per hint found in a stage), and it is the
  generic one exactly when no signal and no hint occurs.
\<close>

theorem detect_language_best:
  "language_score u ss l \<le> language_score u ss (detect_language u ss)
   \<and> (detect_language u ss = L_GENERIC \<longleftrightarrow> language_score u ss (detect_language u ss) = 0)"
  using detect_language_max [of u ss] detect_language_generic_iff [of u ss]
  by (metis le_zero_eq)

text \<open>
  When an assignment succeeds, the returned worker was idle, is now busy, and
  was minimal among all idle workers: first by language rank (same language,
  generic, other), then by load.  When it fails no worker was idle and nothing
  changed.
\<close>

theorem assign_worker_choice:
  assumes "worker_keys_ok d"
  shows "case assign_worker d r l now of
      (d', None) \<Rightarrow> d' = d \<and> (\<forall>w \<in> set (workers_t d). w_status w \<noteq> WS_IDLE)
    | (d', Some w) \<Rightarrow> w_status w = WS_BUSY \<and> (\<exists>c \<in> set (workers_t d). w_id c = w_id w \<and> w_status c = WS_IDLE
        \<and> (\<forall>v \<in> set (workers_t d). w_status v = WS_IDLE \<longrightarrow>
             worker_rank l c < worker_rank l v \<or> worker_rank l c = worker_rank l v \<and> w_load c \<le> w_load v))"
proof (cases "chosen_worker d l")
  case None
  then show ?thesis by (simp add: assign_worker_None chosen_worker_None_iff idle_workers_Nil_iff)
next
  case (Some c)
  then show ?thesis using assms chosen_worker_idle [OF Some] chosen_worker_rank [OF Some]
    by (auto simp: assign_worker_Some worker_keys_ok_def)
qed

definition example_worker :: "int \<Rightarrow> worker_language \<Rightarrow> worker_status \<Rightarrow> worker" where
  "example_worker i l s = (new_worker ''w'' l ''[]'' 0)\<lparr>w_id := i, w_status := s, w_last_heartbeat := Some 0\<rparr>"

definition example_db :: db where
  "example_db = empty_db\<lparr>workers_t := [example_worker 1 L_NODE WS_IDLE, example_worker 2 L_PYTHON WS_IDLE,
     example_worker 3 L_GENERIC WS_BUSY], next_worker := 4\<rparr>"

lemma example_db_ok: "worker_keys_ok example_db" "workers_ok example_db"
  by (simp_all add: example_db_def example_worker_def worker_keys_ok_def keys_ok_def workers_ok_def
      worker_ok_def load_ok_def new_worker_def)

theorem assign_worker_choice_witness:
  "worker_keys_ok example_db \<and> w_status (hd (workers_t example_db)) = WS_IDLE \<and>
   (case assign_worker example_db 7 L_PYTHON 5 of
      (d', None) \<Rightarrow> d' = example_db \<and> (\<forall>w \<in> set (workers_t example_db). w_status w \<noteq> WS_IDLE)
    | (d', Some w) \<Rightarrow> w_status w = WS_BUSY \<and> (\<exists>c \<in> set (workers_t example_db). w_id c = w_id w \<and> w_status c = WS_IDLE
        \<and> (\<forall>v \<in> set (workers_t example_db). w_status v = WS_IDLE \<longrightarrow>
             worker_rank L_PYTHON c < worker_rank L_PYTHON v
             \<or> worker_rank L_PYTHON c = worker_rank L_PYTHON v \<and> w_load c \<le> w_load v)))"
  using example_db_ok assign_worker_choice [OF example_db_ok(1), where r = 7 and l = L_PYTHON and now = 5]
  by (simp add: example_db_def example_worker_def new_worker_def)

text \<open>
  Releasing closes only the first assignment row of the pair (run, worker).
  Any later row of the same pair, in particular an open one left by a retry that
  went to the same worker, stays exactly as it was.
\<close>

theorem release_touches_first_row_only:
  assumes "keys_ok wa_id (assigns_t d) n"
    and "filter (\<lambda>a. wa_run_id a = r \<and> wa_worker_id a = w) (assigns_t d) = a0 # rest"
    and "a \<in> set rest"
  shows "a \<in> set (assigns_t (release_worker d w r s t))"
proof -
  have sub: "a \<in> set (assigns_t d)" "a0 \<in> set (assigns_t d)"
  proof -
    have "a \<in> set (a0 # rest)" "a0 \<in> set (a0 # rest)" using assms(3) by simp_all
    then show "a \<in> set (assigns_t d)" "a0 \<in> set (assigns_t d)"
      unfolding assms(2) [symmetric] by simp_all
  qed
  have "distinct (map wa_id (a0 # rest))"
    using keys_ok_filter [OF assms(1), of "\<lambda>a. wa_run_id a = r \<and> wa_worker_id a = w"] assms(2)
    by (simp add: keys_ok_def)
  then have ne: "wa_id a \<noteq> wa_id a0" using assms(3) by (auto simp: image_iff)
  have "a \<in> set (upd_row wa_id (wa_id a0) f (assigns_t d))" for f
    using sub ne by (force simp: set_upd_row)
  then show ?thesis using sub assms(2)
    by (auto simp: release_worker_def Let_def db_simps assign_tbl.rows_upd split: option.split)
qed

definition reused_worker_db :: db where
  "reused_worker_db = example_db\<lparr>assigns_t :=
     [(new_assignment 7 2 0)\<lparr>wa_id := 1, wa_completed_at := Some 3\<rparr>, (new_assignment 7 2 4)\<lparr>wa_id := 2\<rparr>],
     next_assign := 3\<rparr>"

lemma reused_open_row: "wa_completed_at ((new_assignment 7 2 4)\<lparr>wa_id := 2\<rparr>) = None"
  by (simp add: new_assignment_def)

theorem release_touches_first_row_only_witness:
  "(new_assignment 7 2 4)\<lparr>wa_id := 2\<rparr> \<in> set (assigns_t (release_worker reused_worker_db 2 7 True 9))
   \<and> wa_completed_at ((new_assignment 7 2 4)\<lparr>wa_id := 2\<rparr>) = None"
  by (rule conjI [OF _ reused_open_row], rule release_touches_first_row_only [of _ 3 _ _ "(new_assignment 7 2 0)\<lparr>wa_id := 1, wa_completed_at := Some 3\<rparr>"
        "[(new_assignment 7 2 4)\<lparr>wa_id := 2\<rparr>]"])
    (simp_all add: reused_worker_db_def keys_ok_def new_assignment_def)

end
