(* ===== verification/Json.thy ===== *)
theory Json
  imports Prelude
begin

text \<open>
  JSON values as \<open>json.loads\<close> returns them, with the accesses the handlers make
  (\<open>d.get(k, default)\<close>, truth value, \<open>or\<close>), and HTTP responses as the \<open>httpx\<close>
  client returns them.  An access to a value that is not a dictionary raises
  \<open>AttributeError\<close>.  Of several equal keys of an object the last one counts.
  \<open>JConst\<close> holds the literals \<open>NaN\<close>, \<open>Infinity\<close> and \<open>-Infinity\<close>.
\<close>

datatype json =
    JNull
  | JBool bool
  | JInt int
  | JFloat rat
  | JStr string
  | JArr "json list"
  | JObj "(string \<times> json) list"
  | JConst string

fun jtruthy :: "json \<Rightarrow> bool" where
  "jtruthy JNull = False"
| "jtruthy (JBool b) = b"
| "jtruthy (JInt i) = (i \<noteq> 0)"
| "jtruthy (JFloat x) = (x \<noteq> 0)"
| "jtruthy (JStr s) = (s \<noteq> [])"
| "jtruthy (JArr xs) = (xs \<noteq> [])"
| "jtruthy (JObj kvs) = (kvs \<noteq> [])"
| "jtruthy (JConst s) = True"

definition j_or :: "json \<Rightarrow> json \<Rightarrow> json" where
  "j_or x y = (if jtruthy x then x else y)"

text \<open>\<open>d.get(k, default)\<close>.\<close>

fun jget :: "json \<Rightarrow> string \<Rightarrow> json \<Rightarrow> json res" where
  "jget (JObj kvs) k dflt = Inr (case map_of (rev kvs) k of Some v \<Rightarrow> v | None \<Rightarrow> dflt)"
| "jget _ k dflt = Inl AttributeError"

abbreviation jget0 :: "json \<Rightarrow> string \<Rightarrow> json res" where
  "jget0 j k \<equiv> jget j k JNull"

text \<open>\<open>d.get(k1, {}).get(k2)\<close>.\<close>

definition jget2 :: "json \<Rightarrow> string \<Rightarrow> string \<Rightarrow> json res" where
  "jget2 j k1 k2 = rbind (jget j k1 (JObj [])) (\<lambda>x. jget0 x k2)"

text \<open>A method of \<open>str\<close> on a value of another type raises \<open>AttributeError\<close>.\<close>

fun as_str :: "json \<Rightarrow> string res" where
  "as_str (JStr s) = Inr s"
| "as_str _ = Inl AttributeError"

fun str_opt :: "json \<Rightarrow> string option" where
  "str_opt (JStr s) = Some s"
| "str_opt _ = None"

text \<open>Iteration over a value: the items, the keys or the characters.\<close>

fun json_items :: "json \<Rightarrow> json list res" where
  "json_items (JArr xs) = Inr xs"
| "json_items (JObj kvs) = Inr (map JStr (dedup (map fst kvs)))"
| "json_items (JStr s) = Inr (map (\<lambda>c. JStr [c]) s)"
| "json_items _ = Inl TypeError"

lemma jget_not_obj: "(\<And>kvs. j \<noteq> JObj kvs) \<Longrightarrow> jget j k x = Inl AttributeError"
  by (cases j) auto

lemma jget_Inl: "jget j k x = Inl e \<Longrightarrow> e = AttributeError"
  by (cases j) auto

lemma jget_last: "jget (JObj (kvs @ [(k, v)])) k x = Inr v"
  by simp

lemma j_or_truthy: "jtruthy (j_or x y) \<longleftrightarrow> jtruthy x \<or> jtruthy y"
  by (simp add: j_or_def)

section \<open>HTTP responses\<close>

text \<open>
  \<open>response_json\<close> is \<open>None\<close> where \<open>response.json()\<close> raises; a call that gets no
  response raises \<open>httpx.RequestError\<close>, the left side of \<open>http_result\<close>.
\<close>

record http_response =
  status_code :: nat
  response_text :: string
  response_json :: "json option"
  location :: string

type_synonym http_result = "string + http_response"

text \<open>\<open>raise_for_status\<close> accepts the codes of success only.\<close>

definition is_success :: "http_response \<Rightarrow> bool" where
  "is_success r \<longleftrightarrow> 200 \<le> status_code r \<and> status_code r < 300"

definition ok_response :: "string \<Rightarrow> http_response" where
  "ok_response t = \<lparr>status_code = 200, response_text = t, response_json = None, location = []\<rparr>"

end
