(* ===== verification/Jenkinsfile_Parser.thy ===== *)
theory Jenkinsfile_Parser
  imports Py_Regex Json
begin

text \<open>
  \<open>app/services/jenkinsfile_parser.py\<close>: the raw-file URL of a repository, the
  fetch of its Jenkinsfile with one retry without credentials, and the ordered
  stage names.  The HTTP client is a parameter (\<open>http_get url headers\<close>).  The
  lemmas reduce the stage pattern to a deterministic scanner and show that a
  pipeline text written stage by stage is read back as its stages.
\<close>

section \<open>Patterns\<close>

definition is_quote :: "char \<Rightarrow> bool" where
  "is_quote c \<longleftrightarrow> c = CHR 0x27 \<or> c = CHR 0x22"

abbreviation QUOTE :: re where "QUOTE \<equiv> Cls is_quote"

definition STAGE_RE :: re where
  "STAGE_RE = seqs [lit_i ''stage'', Many spc, lit ''('', Many spc, QUOTE,
     Grp 1 (Some1 (Cls (\<lambda>c. \<not> is_quote c))), QUOTE, Many spc, lit '')'']"

definition not_slash :: re where "not_slash = Cls (\<lambda>c. c \<noteq> CHR ''/'')"
definition not_slash_query :: re where
  "not_slash_query = Cls (\<lambda>c. c \<noteq> CHR ''/'' \<and> c \<noteq> CHR ''?'' \<and> c \<noteq> CHR ''#'')"

definition host_re :: "string \<Rightarrow> re \<Rightarrow> re" where
  "host_re host name = seqs [lit_i host, Grp 1 (seqs [Some1 not_slash, lit ''/'', Lazy1 name]),
     Opt (lit_i ''.git''), Eol]"

definition GITHUB_RE :: re where "GITHUB_RE = host_re ''github.com/'' not_slash"
definition GITLAB_RE :: re where "GITLAB_RE = host_re ''gitlab.com/'' not_slash_query"
definition BITBUCKET_RE :: re where "BITBUCKET_RE = host_re ''bitbucket.org/'' not_slash_query"

text \<open>Group 1 of a successful search.\<close>

definition search_slug :: "re \<Rightarrow> string \<Rightarrow> string option" where
  "search_slug r s = Option.bind (re_search r s) (group 1)"

definition raw_url :: "string \<Rightarrow> string \<Rightarrow> string \<Rightarrow> string option" where
  "raw_url repo_url branch path =
     (case search_slug GITHUB_RE repo_url of
        Some m \<Rightarrow> Some (''https://raw.githubusercontent.com/'' @ m @ ''/'' @ branch @ ''/'' @ path)
      | None \<Rightarrow>
     (case search_slug GITLAB_RE repo_url of
        Some m \<Rightarrow> Some (''https://gitlab.com/api/v4/projects/'' @ replace_char CHR ''/'' ''%2F'' m
            @ ''/repository/files/'' @ path @ ''/raw?ref='' @ branch)
      | None \<Rightarrow>
     (case search_slug BITBUCKET_RE repo_url of
        Some m \<Rightarrow> Some (''https://api.bitbucket.org/2.0/repositories/'' @ m @ ''/src/'' @ branch @ ''/'' @ path)
      | None \<Rightarrow> None)))"

section \<open>Fetching and parsing\<close>

definition auth_headers :: "string \<Rightarrow> string option \<Rightarrow> (string \<times> string) list" where
  "auth_headers url token =
     (case token of
        None \<Rightarrow> []
      | Some t \<Rightarrow> if t = [] then []
          else if contains ''gitlab.com'' url then [(''PRIVATE-TOKEN'', t)]
          else [(''Authorization'', ''Bearer '' @ t)])"

definition fetch_jenkinsfile ::
    "(string \<Rightarrow> (string \<times> string) list \<Rightarrow> http_result) \<Rightarrow> string \<Rightarrow> string \<Rightarrow> string option \<Rightarrow> string option" where
  "fetch_jenkinsfile http_get repo_url branch token =
     (case raw_url repo_url branch ''Jenkinsfile'' of
        None \<Rightarrow> None
      | Some url \<Rightarrow>
          if url = [] then None
          else let headers = auth_headers url token in
          (case http_get url headers of
             Inl _ \<Rightarrow> None
           | Inr resp \<Rightarrow>
               if status_code resp = 200 then Some (response_text resp)
               else if status_code resp = 404 \<and> headers \<noteq> [] then
                 (case http_get url [] of
                    Inl _ \<Rightarrow> None
                  | Inr resp2 \<Rightarrow>
                      if status_code resp2 = 200 then Some (response_text resp2) else None)
               else None))"

text \<open>The loop with \<open>seen\<close> over \<open>_STAGE_RE.finditer\<close>.\<close>

definition stage_matches :: "string \<Rightarrow> string list" where
  "stage_matches t = List.map_filter (group 1) (finditer STAGE_RE t)"

definition parse_stages :: "string \<Rightarrow> string list" where
  "parse_stages t = dedup_seen [] (stage_matches t)"

definition get_pipeline_stages ::
    "(string \<Rightarrow> (string \<times> string) list \<Rightarrow> http_result) \<Rightarrow> string \<Rightarrow> string \<Rightarrow> string option \<Rightarrow> string list" where
  "get_pipeline_stages http_get repo_url branch token =
     (case fetch_jenkinsfile http_get repo_url branch token of
        None \<Rightarrow> []
      | Some text \<Rightarrow> if text = [] then [] else parse_stages text)"

section \<open>The stage pattern as a deterministic scanner\<close>

definition drop_spaces :: "string \<Rightarrow> string" where
  "drop_spaces s = dropWhile is_space s"

text \<open>What must follow the name: closing quote, blanks, closing bracket.\<close>

definition stage_tail :: "string \<Rightarrow> string option" where
  "stage_tail a =
     (case a of [] \<Rightarrow> None
      | q # a1 \<Rightarrow> if is_quote q \<and> startswith (drop_spaces a1) '')'' then Some (tl (drop_spaces a1)) else None)"

definition stage_at :: "string \<Rightarrow> (string \<times> string) option" where
  "stage_at a =
     (if \<not> startswith (py_lower a) ''stage'' then None
      else let a1 = drop_spaces (drop 5 a) in
      if \<not> startswith a1 ''('' then None
      else (case drop_spaces (tl a1) of [] \<Rightarrow> None
        | q # a2 \<Rightarrow>
            if \<not> is_quote q then None
            else let name = takeWhile (\<lambda>c. \<not> is_quote c) a2 in
            if name = [] then None
            else map_option (\<lambda>rest. (name, rest)) (stage_tail (dropWhile (\<lambda>c. \<not> is_quote c) a2))))"

lemma quote_not_space: "is_quote c \<Longrightarrow> \<not> is_space c"
  by (auto simp: is_quote_def char_class_defs)

lemma paren_not_space: "\<not> is_space CHR ''(''" "\<not> is_space CHR '')''"
  by (simp_all add: char_class_defs)

lemma startswith_char: "startswith a [c] \<longleftrightarrow> a \<noteq> [] \<and> hd a = c"
  by (cases a) (auto simp: startswith_def)

lemma runs_blanks_then_lit:
  assumes "\<not> is_space c"
  shows "runs (Cat (Many spc) (lit [c])) (b, a, g) =
         runs (lit [c]) (rev (takeWhile is_space a) @ b, drop_spaces a, g)"
  unfolding spc_def drop_spaces_def
  by (rule runs_Many_Cls_then) (use assms in \<open>auto simp: runs_lit startswith_char\<close>)

text \<open>
  The text before a position follows from the text after it, so the lemmas state
  the remaining text and the groups only.
\<close>

lemma runs_stage_tail:
  "map snd (runs (Cat QUOTE (Cat (Many spc) (lit '')''))) (b, a, g)) =
     (case stage_tail a of None \<Rightarrow> [] | Some rest \<Rightarrow> [(rest, g)])"
  by (cases a) (simp_all add: run_heads stage_tail_def runs_blanks_then_lit paren_not_space runs_lit
      drop_Suc startswith_char)

lemma runs_stage_name:
  "map snd (runs (Cat (Grp 1 (Some1 (Cls (\<lambda>c. \<not> is_quote c)))) (Cat QUOTE (Cat (Many spc) (lit '')''))))
      (b, a, g)) =
   (let name = takeWhile (\<lambda>c. \<not> is_quote c) a in
    if name = [] then []
    else case stage_tail (dropWhile (\<lambda>c. \<not> is_quote c) a) of None \<Rightarrow> [] | Some rest \<Rightarrow> [(rest, (1, name) # g)])"
  by (subst runs_Grp_Some1_then) (simp add: run_heads, simp add: runs_stage_tail Let_def)

lemma runs_STAGE_RE:
  "map snd (runs STAGE_RE (b, a, [])) =
     (case stage_at a of None \<Rightarrow> [] | Some (name, rest) \<Rightarrow> [(rest, [(1, name)])])"
proof -
  let ?name = "Cat (Grp 1 (Some1 (Cls (\<lambda>c. \<not> is_quote c)))) (Cat QUOTE (Cat (Many spc) (lit '')'')))"
  let ?q = "Cat (Many spc) (Cat QUOTE ?name)"
  have quoted: "runs ?q (b, a, g) = runs (Cat QUOTE ?name) (rev (takeWhile is_space a) @ b, drop_spaces a, g)"
    for b a g
    unfolding spc_def drop_spaces_def
    by (rule runs_Many_Cls_then) (use quote_not_space in \<open>auto simp: run_heads\<close>)
  have open_paren: "runs (Cat (Many spc) (Cat (lit ''('') ?q)) (b, a, g) =
      runs (Cat (lit ''('') ?q) (rev (takeWhile is_space a) @ b, drop_spaces a, g)" for b a g
    unfolding spc_def drop_spaces_def
    by (rule runs_Many_Cls_then) (use paren_not_space in \<open>auto simp: run_heads startswith_char\<close>)
  have name: "map snd (runs (Cat QUOTE ?name) (b, a, g)) =
      (case a of [] \<Rightarrow> [] | q # a2 \<Rightarrow>
         if is_quote q then map snd (runs ?name (q # b, a2, g)) else [])" for b a g
    by (cases a) (simp_all add: run_heads)
  have from_paren: "map snd (runs (Cat (lit ''('') ?q) (b, a, g)) =
      (if startswith a ''('' then map snd (runs ?q (CHR ''('' # b, tl a, g)) else [])" for b a g
    by (simp add: run_heads drop_Suc)
  have stage: "runs STAGE_RE (b, a, []) =
      (if startswith (py_lower a) ''stage''
       then runs (Cat (Many spc) (Cat (lit ''('') ?q)) (rev (take 5 a) @ b, drop 5 a, []) else [])"
  proof -
    have "py_lower ''stage'' = ''stage''" by (simp add: py_lower_def char_class_defs)
    moreover have "length ''stage'' = 5" by simp
    ultimately show ?thesis by (simp only: STAGE_RE_def seqs.simps runs_Cat_lit_i)
  qed
  show ?thesis
    unfolding stage stage_at_def Let_def
    by (simp only: open_paren from_paren quoted name runs_stage_name Let_def split: if_split)
      (simp split: list.split option.split)
qed

lemma match_at_STAGE_RE:
  "match_at STAGE_RE b a = None \<longleftrightarrow> stage_at a = None"
  "stage_at a = Some (name, rest) \<Longrightarrow> \<exists>b'. match_at STAGE_RE b a = Some (b', rest, [(1, name)])"
  using runs_STAGE_RE [of b a]
  by (cases "runs STAGE_RE (b, a, [])"; auto simp: match_at_def split: option.splits)+

lemma stage_tail_length: "stage_tail a = Some rest \<Longrightarrow> length rest < length a"
  using length_dropWhile_le [of is_space "tl a"]
  by (cases a) (auto simp: stage_tail_def drop_spaces_def split: if_splits)

lemma stage_at_SomeD:
  assumes "stage_at a = Some (name, rest)"
  shows "name \<noteq> []" "\<forall>c \<in> set name. \<not> is_quote c" "length rest < length a" "sublist name a"
proof -
  from assms obtain q a2 where
    a2: "drop_spaces (tl (drop_spaces (drop 5 a))) = q # a2"
    and name: "name = takeWhile (\<lambda>c. \<not> is_quote c) a2" and ne: "name \<noteq> []"
    and rest: "stage_tail (dropWhile (\<lambda>c. \<not> is_quote c) a2) = Some rest"
    by (auto simp: stage_at_def Let_def split: if_splits list.splits)
  have "suffix (q # a2) a"
    unfolding a2 [symmetric] drop_spaces_def
    by (meson suffix_dropWhile suffix_drop suffix_order.trans suffix_tl)
  then have suf: "suffix a2 a" by (meson suffix_ConsD)
  show "name \<noteq> []" by (rule ne)
  show "\<forall>c \<in> set name. \<not> is_quote c" by (auto simp: name dest: set_takeWhileD)
  have "length rest < length a2"
    using stage_tail_length [OF rest] length_dropWhile_le [of "\<lambda>c. \<not> is_quote c" a2] by linarith
  then show "length rest < length a" using suffix_length_le [OF suf] by linarith
  have "prefix name a2" unfolding name by (rule takeWhile_is_prefix)
  then show "sublist name a"
    using suf by (meson prefix_imp_sublist sublist_order.order.trans suffix_imp_sublist)
qed

text \<open>The scanner that \<open>finditer\<close> amounts to.\<close>

function scan_stages :: "string \<Rightarrow> string list" where
  "scan_stages a =
     (case stage_at a of
        Some (name, rest) \<Rightarrow> name # scan_stages rest
      | None \<Rightarrow> (case a of [] \<Rightarrow> [] | c # cs \<Rightarrow> scan_stages cs))"
  by pat_completeness auto
termination
  by (relation "measure length") (auto dest: stage_at_SomeD(3))

declare scan_stages.simps [simp del]

lemma group_single [simp]: "group n [(n, s)] = Some s"
  by (simp add: group_def)

lemma map_filter_Cons [simp]:
  "List.map_filter f (x # xs) = (case f x of None \<Rightarrow> List.map_filter f xs | Some y \<Rightarrow> y # List.map_filter f xs)"
  "List.map_filter f [] = []"
  by (simp_all add: List.map_filter_def split: option.split)

lemma scan_STAGE_RE:
  "List.map_filter (group 1) (List.map_filter hit_groups (scan STAGE_RE b a)) = scan_stages a"
proof (induction a arbitrary: b rule: scan_stages.induct)
  case (1 a)
  show ?case
  proof (cases "stage_at a")
    case None
    then have m: "match_at STAGE_RE b a = None" by (simp add: match_at_STAGE_RE(1))
    show ?thesis
    proof (cases a)
      case Nil
      then show ?thesis using None m by (simp add: scan.simps [of _ _ "[]"] scan_stages.simps [of "[]"])
    next
      case (Cons c cs)
      then show ?thesis using None m 1(1) [OF None Cons]
        by (simp add: scan.simps [of _ _ "c # cs"] scan_stages.simps [of "c # cs"])
    qed
  next
    case (Some nr)
    obtain name rest where nr: "nr = (name, rest)" by (cases nr)
    obtain b' where m: "match_at STAGE_RE b a = Some (b', rest, [(1, name)])"
      using match_at_STAGE_RE(2) Some nr by blast
    have "length rest < length a" using Some nr by (auto dest: stage_at_SomeD(3))
    then show ?thesis using Some nr m 1(2) [OF Some nr [symmetric]]
      by (simp add: scan.simps [of _ _ a] scan_stages.simps [of a])
  qed
qed

lemma stage_matches_scan: "stage_matches t = scan_stages t"
  using scan_STAGE_RE [of "[]" t] by (simp add: stage_matches_def finditer_def)

lemma scan_stages_names:
  "n \<in> set (scan_stages a) \<Longrightarrow> n \<noteq> [] \<and> (\<forall>c \<in> set n. \<not> is_quote c) \<and> contains n a"
proof (induction a rule: scan_stages.induct)
  case (1 a)
  show ?case
  proof (cases "stage_at a")
    case None
    show ?thesis
    proof (cases a)
      case Nil
      then show ?thesis using 1(3) None by (simp add: scan_stages.simps [of "[]"])
    next
      case (Cons c cs)
      then have "n \<in> set (scan_stages cs)" using 1(3) None by (simp add: scan_stages.simps [of "c # cs"])
      then show ?thesis using 1(1) [OF None Cons] Cons by simp
    qed
  next
    case (Some nr)
    obtain name rest where nr: "nr = (name, rest)" by (cases nr)
    have "stage_at a = Some (name, rest)" using Some nr by simp
    note facts = stage_at_SomeD [OF this]
    show ?thesis
    proof (cases "n = name")
      case True
      then show ?thesis using facts by (simp add: contains_iff_sublist)
    next
      case False
      then have "n \<in> set (scan_stages rest)" using 1(3) Some nr by (simp add: scan_stages.simps [of a])
      then have IH: "n \<noteq> [] \<and> (\<forall>c \<in> set n. \<not> is_quote c) \<and> contains n rest"
        using 1(2) [OF Some nr [symmetric]] by simp
      have "suffix rest a"
      proof -
        obtain b' where "match_at STAGE_RE [] a = Some (b', rest, [(1, name)])"
          using match_at_STAGE_RE(2) Some nr by blast
        from match_at_SomeD(1) [OF this] show ?thesis by (metis suffixI)
      qed
      then have "sublist rest a" by (rule suffix_imp_sublist)
      then show ?thesis using IH by (auto simp: contains_iff_sublist intro: sublist_order.order.trans)
    qed
  qed
qed

section \<open>Reading back a written pipeline\<close>

definition stage_line :: "string \<Rightarrow> string" where
  "stage_line n = ''stage('' @ CHR 0x27 # n @ CHR 0x27 # '') { }'' @ [LF]"

lemma stage_at_written:
  assumes "n \<noteq> []" "\<forall>c \<in> set n. \<not> is_quote c"
  shows "stage_at (stage_line n @ rest) = Some (n, '' { }'' @ LF # rest)"
proof -
  have low: "startswith (py_lower (stage_line n @ rest)) ''stage''"
    by (simp add: stage_line_def py_lower_def startswith_def char_class_defs)
  have d5: "drop 5 (stage_line n @ rest) = CHR ''('' # CHR 0x27 # n @ CHR 0x27 # '') { }'' @ LF # rest"
    by (simp add: stage_line_def)
  have sp: "\<not> is_space CHR ''(''" "\<not> is_space CHR 0x27" "\<not> is_space CHR '')''" "is_quote CHR 0x27"
    by (simp_all add: char_class_defs is_quote_def)
  have tw: "takeWhile (\<lambda>c. \<not> is_quote c) (n @ CHR 0x27 # w) = n"
    "dropWhile (\<lambda>c. \<not> is_quote c) (n @ CHR 0x27 # w) = CHR 0x27 # w" for w
    using assms(2) sp(4) by (simp_all add: takeWhile_append dropWhile_append)
  show ?thesis unfolding stage_at_def Let_def d5
    using low assms(1) sp by (simp add: drop_spaces_def startswith_char tw stage_tail_def)
qed

lemma stage_at_other: "lower_char c \<noteq> CHR ''s'' \<Longrightarrow> stage_at (c # cs) = None"
  by (simp add: stage_at_def py_lower_def startswith_def)

lemma scan_stages_skip: "lower_char c \<noteq> CHR ''s'' \<Longrightarrow> scan_stages (c # cs) = scan_stages cs"
  by (simp add: scan_stages.simps [of "c # cs"] stage_at_other)

lemma scan_stages_written:
  "\<forall>n \<in> set ns. n \<noteq> [] \<and> (\<forall>c \<in> set n. \<not> is_quote c) \<Longrightarrow>
   scan_stages (concat (map stage_line ns)) = ns"
proof (induction ns)
  case Nil
  have "stage_at [] = None" by (simp add: stage_at_def py_lower_def startswith_def)
  then show ?case by (simp add: scan_stages.simps [of "[]"])
next
  case (Cons n ns)
  have skip: "scan_stages ('' { }'' @ LF # s) = scan_stages s" for s
    by (simp add: scan_stages_skip char_class_defs LF_def)
  show ?case using Cons stage_at_written [of n "concat (map stage_line ns)"] skip
    by (simp add: scan_stages.simps [of "stage_line n @ _"])
qed

section \<open>The GitHub slug\<close>

text \<open>What the lazy name and the optional \<open>.git\<close> leave of the last path segment.\<close>

definition strip_git :: "string \<Rightarrow> string" where
  "strip_git rep =
     (if 4 < length rep \<and> py_lower (drop (length rep - 4) rep) = ''.git''
      then take (length rep - 4) rep else rep)"

lemma match_at_host_None:
  "\<not> startswith (py_lower a) (py_lower host) \<Longrightarrow> match_at (host_re host name) b a = None"
  by (simp add: match_at_def host_re_def run_heads)

lemma runs_git_end:
  assumes "LF \<notin> set a"
  shows "runs (Cat (Opt (lit_i ''.git'')) Eol) (b, a, g) =
     (if py_lower a = ''.git'' then [(rev a @ b, [], g)] else if a = [] then [(b, [], g)] else [])"
proof -
  have low: "py_lower ''.git'' = ''.git''" by (simp add: py_lower_def char_class_defs)
  have eol: "at_eol (drop n a) \<longleftrightarrow> drop n a = []" for n
  proof -
    have "drop n a \<noteq> [LF]"
    proof
      assume "drop n a = [LF]"
      then have "LF \<in> set (drop n a)" by simp
      then show False using assms in_set_dropD [of LF n a] by blast
    qed
    then show ?thesis by (simp add: at_eol_def)
  qed
  have iff: "startswith (py_lower a) ''.git'' \<and> length a \<le> 4 \<longleftrightarrow> py_lower a = ''.git''"
  proof
    assume h: "startswith (py_lower a) ''.git'' \<and> length a \<le> 4"
    then show "py_lower a = ''.git''" by (auto simp: startswith_def numeral_eq_Suc)
  next
    assume e: "py_lower a = ''.git''"
    have "length (py_lower a) = 4" unfolding e by simp
    then have "length a \<le> 4" unfolding length_py_lower by simp
    then show "startswith (py_lower a) ''.git'' \<and> length a \<le> 4" by (simp add: e startswith_def)
  qed
  have eola: "at_eol a \<longleftrightarrow> a = []" "at_eol []" using eol [of 0] by (simp_all add: at_eol_def)
  show ?thesis
  proof (cases "py_lower a = ''.git''")
    case True
    then have "a \<noteq> []" by (auto simp: py_lower_def)
    then show ?thesis using True iff
      by (simp add: runs_Cat_Opt run_heads low eola eol numeral_eq_Suc startswith_def)
  next
    case False
    then show ?thesis using iff
      by (auto simp: runs_Cat_Opt run_heads low eola eol numeral_eq_Suc)
  qed
qed

lemma runs_slug:
  assumes "org \<noteq> []" "CHR ''/'' \<notin> set org" "CHR ''/'' \<notin> set (c # cs)"
  shows "runs (seqs [Some1 not_slash, lit ''/'', Lazy1 not_slash]) (b, org @ CHR ''/'' # c # cs, g) =
     map (\<lambda>n. advance n (c # CHR ''/'' # rev org @ b, cs, g)) [0..<Suc (length cs)]"
proof -
  let ?Q = "Cat (lit ''/'') (Lazy1 not_slash)"
  obtain o1 os where org: "org = o1 # os" using assms(1) by (cases org) auto
  have all: "takeWhile (\<lambda>x. x \<noteq> CHR ''/'') (os @ CHR ''/'' # w) = os"
    "dropWhile (\<lambda>x. x \<noteq> CHR ''/'') (os @ CHR ''/'' # w) = CHR ''/'' # w" for w
    using assms(2) org by (auto simp: takeWhile_append dropWhile_append)
  have many: "runs (Cat (Many not_slash) ?Q) (b, a, g) =
      runs ?Q (rev (takeWhile (\<lambda>x. x \<noteq> CHR ''/'') a) @ b, dropWhile (\<lambda>x. x \<noteq> CHR ''/'') a, g)" for b a g
    unfolding not_slash_def by (rule runs_Many_Cls_then) (auto simp: run_heads startswith_char)
  have tw: "takeWhile (\<lambda>x. x \<noteq> CHR ''/'') cs = cs"
    using assms(3) by (auto simp: takeWhile_eq_all_conv)
  have "c \<noteq> CHR ''/''" "o1 \<noteq> CHR ''/''" using assms(2,3) org by auto
  with many show ?thesis using org
    by (simp add: tw Some1_def runs_Cat_Cat not_slash_def run_heads all Lazy1_def runs_Lazy_Cls startswith_char
        del: upt_Suc)
qed

lemma match_at_host:
  assumes "org \<noteq> []" "CHR ''/'' \<notin> set org" "rep \<noteq> []" "CHR ''/'' \<notin> set rep" "LF \<notin> set rep"
    and "py_lower host = host"
  shows "\<exists>b' a'. match_at (host_re host not_slash) b (host @ org @ CHR ''/'' # rep) =
    Some (b', a', [(1, org @ CHR ''/'' # strip_git rep)])"
proof -
  obtain c cs where rep: "rep = c # cs" using assms(3) by (cases rep) auto
  let ?T = "Cat (Opt (lit_i ''.git'')) Eol"
  let ?b = "c # CHR ''/'' # rev org @ rev host @ b"
  let ?at = "\<lambda>n. (rev (take n cs) @ ?b, drop n cs, [(1::int, org @ CHR ''/'' # c # take n cs)])"
  let ?n = "if 4 \<le> length cs \<and> py_lower (drop (length cs - 4) cs) = ''.git'' then length cs - 4 else length cs"
  have nolf: "LF \<notin> set (drop n cs)" for n using assms(5) rep in_set_dropD [of LF n cs] by auto
  have runsT: "runs ?T (?at n) \<noteq> [] \<longleftrightarrow> py_lower (drop n cs) = ''.git'' \<or> drop n cs = []" for n
    by (simp add: runs_git_end [OF nolf])
  have len4: "n = length cs - 4 \<and> 4 \<le> length cs" if "py_lower (drop n cs) = ''.git''" for n
    using arg_cong [OF that, of length] by (auto simp: numeral_eq_Suc)
  have find: "List.find (\<lambda>n. runs ?T (?at n) \<noteq> []) [0..<Suc (length cs)] = Some ?n"
  proof (rule find_upt)
    show "runs ?T (?at ?n) \<noteq> []" unfolding runsT by simp
    show "?n < Suc (length cs)" by (simp add: less_Suc_eq_le)
    show "\<not> runs ?T (?at i) \<noteq> []" if "i < ?n" for i
      unfolding runsT using that len4 [of i] by (auto split: if_splits)
  qed
  have strip: "strip_git rep = c # take ?n cs"
  proof (cases "4 \<le> length cs")
    case True
    then obtain k where "length cs = k + 4" by (metis le_add_diff_inverse2)
    then show ?thesis by (simp add: strip_git_def rep)
  next
    case False
    then show ?thesis by (simp add: strip_git_def rep)
  qed
  let ?slug = "seqs [Some1 not_slash, lit ''/'', Lazy1 not_slash]"
  have "runs (host_re host not_slash) (b, host @ org @ CHR ''/'' # rep, []) =
      runs (Cat (Grp 1 ?slug) ?T) (rev host @ b, org @ CHR ''/'' # rep, [])"
    using assms(6) by (simp add: host_re_def runs_Cat_lit_i py_lower_append)
  also have "\<dots> = concat (map (runs ?T) (map (\<lambda>n. ?at n) [0..<Suc (length cs)]))"
    unfolding runs_Cat [of "Grp _ _"] runs.simps(7) rep runs_slug [OF assms(1,2,4) [unfolded rep]] map_map
    by (rule arg_cong [where f = concat], rule map_cong [OF refl])
      (auto simp: Suc_diff_le less_Suc_eq_le)
  finally have "runs (host_re host not_slash) (b, host @ org @ CHR ''/'' # rep, []) =
      concat (map (\<lambda>n. runs ?T (?at n)) [0..<Suc (length cs)])"
    by (simp add: comp_def)
  then have "match_at (host_re host not_slash) b (host @ org @ CHR ''/'' # rep) = first_row (runs ?T (?at ?n))"
    by (simp add: match_at_def first_row_concat_map find del: upt_Suc)
  then show ?thesis using strip
    by (auto simp: runs_git_end [OF nolf] split: if_splits)
qed

lemma search_github:
  assumes "org \<noteq> []" "CHR ''/'' \<notin> set org" "rep \<noteq> []" "CHR ''/'' \<notin> set rep" "LF \<notin> set rep"
  shows "search_slug GITHUB_RE (''https://github.com/'' @ org @ CHR ''/'' # rep) = Some (org @ CHR ''/'' # strip_git rep)"
proof -
  have low: "py_lower ''github.com/'' = ''github.com/''" by (simp add: py_lower_def char_class_defs)
  have skip: "search_from GITHUB_RE b (c # cs) = search_from GITHUB_RE (c # b) cs"
    if "lower_char c \<noteq> CHR ''g''" for b c cs
  proof (rule search_from_skip)
    show "match_at GITHUB_RE b (c # cs) = None" unfolding GITHUB_RE_def
      by (rule match_at_host_None, unfold low) (use that in \<open>simp add: py_lower_def startswith_def\<close>)
  qed
  obtain b' a' where m: "match_at GITHUB_RE (rev ''https://'') (''github.com/'' @ org @ CHR ''/'' # rep) =
      Some (b', a', [(1, org @ CHR ''/'' # strip_git rep)])"
    using match_at_host [OF assms low] unfolding GITHUB_RE_def by blast
  have "search_from GITHUB_RE [] (''https://'' @ ''github.com/'' @ org @ CHR ''/'' # rep) =
      search_from GITHUB_RE (rev ''https://'') (''github.com/'' @ org @ CHR ''/'' # rep)"
    by (simp add: skip char_class_defs del: search_from.simps)
  then show ?thesis using m by (simp add: search_slug_def re_search_def)
qed

section \<open>Properties\<close>

text \<open>
  The names found are pairwise different, never empty, free of quote
  characters, and each of them occurs in the Jenkinsfile.
\<close>

theorem parse_stages_names:
  "distinct (parse_stages t) \<and>
   (\<forall>n \<in> set (parse_stages t). n \<noteq> [] \<and> (\<forall>c \<in> set n. \<not> is_quote c) \<and> contains n t)"
  using scan_stages_names [of _ t]
  by (auto simp: parse_stages_def stage_matches_scan dedup_facts)

lemma parse_one_stage: "parse_stages (stage_line ''Build'') = [''Build'']"
proof -
  have "\<forall>n \<in> set [''Build'']. n \<noteq> [] \<and> (\<forall>c \<in> set n. \<not> is_quote c)" by (simp add: is_quote_def)
  from scan_stages_written [OF this] show ?thesis by (simp add: parse_stages_def stage_matches_scan)
qed

theorem parse_stages_names_witness:
  "parse_stages (stage_line ''Build'') = [''Build''] \<and> distinct (parse_stages (stage_line ''Build'')) \<and>
   contains ''Build'' (stage_line ''Build'')"
  using parse_one_stage parse_stages_names [of "stage_line ''Build''"] by simp

text \<open>
  C14: a pipeline text written with one stage per line is parsed back to exactly
  its stages, in order and without repetitions.
\<close>

theorem parse_stages_written:
  assumes "\<forall>n \<in> set ns. n \<noteq> [] \<and> (\<forall>c \<in> set n. \<not> is_quote c)"
  shows "parse_stages (concat (map stage_line ns)) = dedup ns"
  using scan_stages_written [OF assms] by (simp add: parse_stages_def stage_matches_scan)

theorem parse_stages_written_witness:
  "parse_stages (concat (map stage_line [''Test'', ''Build'', ''Test''])) = dedup [''Test'', ''Build'', ''Test'']
   \<and> dedup [''Test'', ''Build'', ''Test''] = [''Test'', ''Build'']"
proof -
  have "\<forall>n \<in> set [''Test'', ''Build'', ''Test'']. n \<noteq> [] \<and> (\<forall>c \<in> set n. \<not> is_quote c)"
    by (simp add: is_quote_def)
  from parse_stages_written [OF this] show ?thesis by simp
qed

text \<open>
  For a GitHub repository the clone URL (ending in \<open>.git\<close>) and the web URL
  lead to the same raw Jenkinsfile, under the organisation and repository of the
  URL and the given branch.
\<close>

theorem raw_url_github:
  assumes "org \<noteq> []" "CHR ''/'' \<notin> set org" "rep \<noteq> []" "CHR ''/'' \<notin> set rep" "LF \<notin> set rep"
    and "strip_git rep = rep"
  shows "raw_url (''https://github.com/'' @ org @ ''/'' @ rep) branch ''Jenkinsfile'' =
           Some (''https://raw.githubusercontent.com/'' @ org @ ''/'' @ rep @ ''/'' @ branch @ ''/Jenkinsfile'')
    \<and> raw_url (''https://github.com/'' @ org @ ''/'' @ rep @ ''.git'') branch ''Jenkinsfile'' =
        raw_url (''https://github.com/'' @ org @ ''/'' @ rep) branch ''Jenkinsfile''"
proof -
  have "strip_git (rep @ ''.git'') = rep"
    using assms(3) by (simp add: strip_git_def py_lower_def char_class_defs)
  then show ?thesis
    using search_github [OF assms(1,2,3,4,5)] search_github [OF assms(1,2), of "rep @ ''.git''"] assms
    by (simp add: raw_url_def LF_def)
qed

theorem raw_url_github_witness:
  "raw_url ''https://github.com/acme/my-repo.git'' ''main'' ''Jenkinsfile'' =
     Some ''https://raw.githubusercontent.com/acme/my-repo/main/Jenkinsfile''"
proof -
  have "strip_git ''my-repo'' = ''my-repo''" by (simp add: strip_git_def py_lower_def char_class_defs)
  then show ?thesis using raw_url_github [of "''acme''" "''my-repo''" "''main''"] by (simp add: LF_def)
qed

end
