(* ===== verification/Realtime_Data.thy ===== *)
theory Realtime_Data
  imports Models
begin

text \<open>
  \<open>app/services/realtime_data.py\<close>: the filters that keep seed and test records
  out of the live answers.  \<open>ILIKE '%marker%'\<close> is a case-insensitive containment
  (the markers hold no wildcard).
\<close>

definition NON_REAL_MARKERS :: "string list" where
  "NON_REAL_MARKERS = [''sample-repo'', ''fake'', ''dummy'', ''demo'']"

definition ilike_any :: "string list \<Rightarrow> string \<Rightarrow> bool" where
  "ilike_any markers s \<longleftrightarrow> list_ex (\<lambda>m. contains m (py_lower s)) markers"

definition real_pipeline_run :: "pipeline_run \<Rightarrow> bool" where
  "real_pipeline_run r \<longleftrightarrow>
     \<not> ilike_any NON_REAL_MARKERS (pr_repo_url r) \<and> pr_triggered_by r \<noteq> ''test-suite''"

definition real_build_event :: "build_event \<Rightarrow> bool" where
  "real_build_event e \<longleftrightarrow> \<not> ilike_any NON_REAL_MARKERS (be_job_name e)"

text \<open>The filter looks at two columns only, which no handler rewrites.\<close>

lemma real_pipeline_run_cong:
  "pr_repo_url r = pr_repo_url r' \<Longrightarrow> pr_triggered_by r = pr_triggered_by r' \<Longrightarrow>
   real_pipeline_run r = real_pipeline_run r'"
  by (simp add: real_pipeline_run_def)

end
