(* ===== verification/Job_Scheduler.thy ===== *)
theory Job_Scheduler
  imports Worker_Pool Priority Jenkinsfile_Parser Realtime_Data
begin

text \<open>
  \<open>app/services/job_scheduler.py\<close>: creation of a run with its stages, the
  callbacks that move runs and stages through their life, and the dashboard
  snapshot.  A callback returns the committed database; work it starts in
  another thread is returned as a list of effects.  Each call reads the clock
  once (\<open>now\<close>).
\<close>

section \<open>Scheduling a pipeline\<close>

definition derive_job_name :: "string \<Rightarrow> string \<Rightarrow> string" where
  "derive_job_name repo_url branch =
     (let path = removesuffix (rstrip_by (\<lambda>c. c = CHR ''/'') repo_url) ''.git'';
          parts = filter (\<lambda>p. p \<noteq> []) (py_split CHR ''/'' path);
          n = length parts in
      if 2 \<le> n then parts ! (n - 2) @ ''/'' @ parts ! (n - 1) @ ''/'' @ branch
      else if parts \<noteq> [] then parts ! (n - 1) @ ''/'' @ branch
      else ''unknown/'' @ branch)"

definition DEFAULT_STAGES :: "string list" where
  "DEFAULT_STAGES = [''Checkout'', ''Build'', ''Test'', ''Deploy'']"

definition NO_STAGES_MESSAGE :: string where
  "NO_STAGES_MESSAGE = ''No Jenkinsfile stages found for this repository/branch. Refusing to create synthetic pipeline stages while real-time data mode is enabled.''"

definition new_run ::
    "string \<Rightarrow> string \<Rightarrow> string option \<Rightarrow> string option \<Rightarrow> string \<Rightarrow> string \<Rightarrow> string list
     \<Rightarrow> pipeline_priority \<Rightarrow> time \<Rightarrow> pipeline_run" where
  "new_run repo_url branch commit_sha author triggered_by job_name stages priority now =
     \<lparr>pr_id = 0, pr_repo_url = repo_url, pr_branch = branch, pr_commit_sha = commit_sha,
      pr_author = author, pr_triggered_by = triggered_by, pr_jenkins_job_name = Some job_name,
      pr_jenkins_build_number = None, pr_jenkins_build_url = None, pr_status = RS_QUEUED,
      pr_queued_at = now, pr_started_at = None, pr_completed_at = None,
      pr_stage_names_csv = (if stages = [] then None else Some (py_join '','' stages)),
      pr_scheduling_priority = pp_value priority, pr_priority_reason = Some (pp_reason priority),
      pr_result = None, pr_duration_s = None, pr_retry_count = 0, pr_max_retries = 2,
      pr_retry_after = None\<rparr>"

definition new_stage :: "int \<Rightarrow> nat \<Rightarrow> string \<Rightarrow> stage_execution" where
  "new_stage run_id idx name =
     \<lparr>se_id = 0, se_run_id = run_id, se_order = idx, se_name = name, se_status = SS_PENDING,
      se_started_at = None, se_completed_at = None, se_duration_s = None, se_log_excerpt = None\<rparr>"

fun add_stages :: "int \<Rightarrow> nat \<Rightarrow> string list \<Rightarrow> db \<Rightarrow> db" where
  "add_stages run_id idx [] d = d"
| "add_stages run_id idx (name # names) d =
     add_stages run_id (Suc idx) names (add_stage (new_stage run_id idx name) d)"

record schedule_request =
  sr_repo_url :: string
  sr_branch :: string
  sr_commit_sha :: "string option"
  sr_author :: "string option"
  sr_triggered_by :: string
  sr_git_token :: "string option"
  sr_changed_files :: "string list option"

definition found_stages ::
    "settings \<Rightarrow> (string \<Rightarrow> (string \<times> string) list \<Rightarrow> http_result) \<Rightarrow> schedule_request \<Rightarrow> string list" where
  "found_stages st http_get q =
     get_pipeline_stages http_get (sr_repo_url q) (sr_branch q)
       (or_else (sr_git_token q) (Some (GITHUB_TOKEN st)))"

definition schedule_pipeline ::
    "settings \<Rightarrow> (string \<Rightarrow> (string \<times> string) list \<Rightarrow> http_result) \<Rightarrow> db \<Rightarrow> schedule_request \<Rightarrow> time
     \<Rightarrow> (db \<times> pipeline_run \<times> effect list) res" where
  "schedule_pipeline st http_get d q now =
     (let found = found_stages st http_get q in
      if found = [] \<and> \<not> ALLOW_SYNTHETIC_PIPELINE_STAGES st
      then Inl (ValueError NO_STAGES_MESSAGE)
      else
        let stages = (if found = [] then DEFAULT_STAGES else found);
            job_name = derive_job_name (sr_repo_url q) (sr_branch q);
            priority = calculate_pipeline_priority (sr_repo_url q) (sr_branch q) (sr_changed_files q);
            run = (new_run (sr_repo_url q) (sr_branch q) (sr_commit_sha q) (sr_author q)
                (sr_triggered_by q) job_name stages priority now)\<lparr>pr_id := next_run d\<rparr>;
            d' = add_stages (next_run d) 0 stages (add_run run d)
        in Inr (d', run, [TriggerBuild (next_run d) job_name (sr_branch q) (sr_commit_sha q)]))"

section \<open>Callbacks\<close>

definition get_run :: "db \<Rightarrow> int \<Rightarrow> pipeline_run option" where
  "get_run d run_id = get_run_row d run_id"

text \<open>\<open>run.stages\<close>, ordered by \<open>StageExecution.order\<close>.\<close>

definition run_stages :: "db \<Rightarrow> int \<Rightarrow> stage_execution list" where
  "run_stages d run_id = sort_key se_order (filter (\<lambda>s. se_run_id s = run_id) (stages_t d))"

definition open_assignments :: "db \<Rightarrow> int \<Rightarrow> worker_assignment list" where
  "open_assignments d run_id =
     filter (\<lambda>a. wa_run_id a = run_id \<and> wa_completed_at a = None) (assigns_t d)"

definition on_build_started :: "db \<Rightarrow> int \<Rightarrow> int \<Rightarrow> string \<Rightarrow> time \<Rightarrow> db" where
  "on_build_started d run_id build_number build_url now =
     (case get_run d run_id of
        None \<Rightarrow> d
      | Some _ \<Rightarrow>
          let d1 = upd_run run_id (\<lambda>r. r\<lparr>pr_status := RS_IN_PROGRESS,
                pr_jenkins_build_number := Some build_number,
                pr_jenkins_build_url := Some build_url, pr_started_at := Some now\<rparr>) d in
          case first_row (open_assignments d1 run_id) of
            None \<Rightarrow> d1
          | Some a \<Rightarrow> upd_assign (wa_id a)
                (\<lambda>a. a\<lparr>wa_status := AS_RUNNING, wa_started_at := Some now\<rparr>) d1)"

definition find_stage :: "db \<Rightarrow> int \<Rightarrow> string \<Rightarrow> stage_execution option res" where
  "find_stage d run_id name =
     scalar_one_or_none (filter (\<lambda>s. se_run_id s = run_id \<and> se_name s = name) (stages_t d))"

definition on_stage_started :: "db \<Rightarrow> int \<Rightarrow> string \<Rightarrow> time \<Rightarrow> db res" where
  "on_stage_started d run_id name now =
     rbind (find_stage d run_id name) (\<lambda>found. Inr
       (case found of
          None \<Rightarrow> d
        | Some s \<Rightarrow> upd_stage (se_id s)
            (\<lambda>s. s\<lparr>se_status := SS_RUNNING, se_started_at := Some now\<rparr>) d))"

definition on_stage_completed ::
    "db \<Rightarrow> int \<Rightarrow> string \<Rightarrow> bool \<Rightarrow> string option \<Rightarrow> time \<Rightarrow> db res" where
  "on_stage_completed d run_id name success log_excerpt now =
     rbind (find_stage d run_id name) (\<lambda>found. Inr
       (case found of
          None \<Rightarrow> d
        | Some s \<Rightarrow> upd_stage (se_id s)
            (\<lambda>s. s\<lparr>se_status := (if success then SS_SUCCESS else SS_FAILED),
                   se_completed_at := Some now, se_log_excerpt := log_excerpt,
                   se_duration_s := (case se_started_at s of
                       Some t \<Rightarrow> Some (trunc_seconds (now - t)) | None \<Rightarrow> se_duration_s s)\<rparr>) d))"

text \<open>The Jenkins result as a run status; everything unknown counts as a failure.\<close>

definition status_of_result :: "string \<Rightarrow> run_status" where
  "status_of_result result =
     (if result = ''SUCCESS'' then RS_COMPLETED
      else if result = ''ABORTED'' then RS_ABORTED
      else RS_FAILED)"

definition finish_run :: "string \<Rightarrow> time \<Rightarrow> pipeline_run \<Rightarrow> pipeline_run" where
  "finish_run result now r =
     r\<lparr>pr_result := Some result, pr_completed_at := Some now, pr_status := status_of_result result,
       pr_duration_s := (case pr_started_at r of
           Some t \<Rightarrow> Some (trunc_seconds (now - t)) | None \<Rightarrow> pr_duration_s r)\<rparr>"

definition skip_stage :: "stage_execution \<Rightarrow> stage_execution" where
  "skip_stage s =
     (if se_status s = SS_PENDING \<or> se_status s = SS_RUNNING then s\<lparr>se_status := SS_SKIPPED\<rparr> else s)"

definition skip_stages :: "int \<Rightarrow> db \<Rightarrow> db" where
  "skip_stages run_id d =
     d\<lparr>stages_t := map (\<lambda>s. if se_run_id s = run_id then skip_stage s else s) (stages_t d)\<rparr>"

definition job_build_url :: "settings \<Rightarrow> string \<Rightarrow> int \<Rightarrow> string" where
  "job_build_url st job n = JENKINS_URL st @ ''/job/'' @ job @ ''/'' @ str_int n @ ''/''"

definition analysis_of :: "settings \<Rightarrow> pipeline_run \<Rightarrow> string \<Rightarrow> effect list" where
  "analysis_of st r result =
     (case (pr_jenkins_job_name r, pr_jenkins_build_number r) of
        (Some job, Some n) \<Rightarrow>
          if result \<noteq> ''SUCCESS'' \<and> job \<noteq> [] \<and> n \<noteq> 0
          then [AnalyseBuild job n (case pr_jenkins_build_url r of
                    Some u \<Rightarrow> if u \<noteq> [] then u else job_build_url st job n
                  | None \<Rightarrow> job_build_url st job n) result]
          else []
      | _ \<Rightarrow> [])"

text \<open>
  The commit is in \<open>release_worker\<close> when an assignment is open; that returns
  early, without a commit, for an unknown worker.
\<close>

definition on_build_completed :: "settings \<Rightarrow> db \<Rightarrow> int \<Rightarrow> string \<Rightarrow> time \<Rightarrow> db \<times> effect list" where
  "on_build_completed st d run_id result now =
     (case get_run d run_id of
        None \<Rightarrow> (d, [])
      | Some run \<Rightarrow>
          let d1 = skip_stages run_id (upd_run run_id (finish_run result now) d);
              d2 = (case first_row (open_assignments d1 run_id) of
                  None \<Rightarrow> d1
                | Some a \<Rightarrow> if get_worker d1 (wa_worker_id a) = None then d
                    else release_worker d1 (wa_worker_id a) run_id (result = ''SUCCESS'') now)
          in (d2, analysis_of st run result))"

section \<open>Dashboard snapshot\<close>

text \<open>Rows with \<open>ORDER BY queued_at DESC LIMIT n\<close>, grouped by status in the order of the enumeration.\<close>

definition recent_runs :: "db \<Rightarrow> nat \<Rightarrow> pipeline_run list" where
  "recent_runs d limit =
     take limit (sort_key (\<lambda>r. - pr_queued_at r) (filter real_pipeline_run (runs_t d)))"

definition get_dashboard_snapshot :: "db \<Rightarrow> nat \<Rightarrow> (run_status \<times> pipeline_run list) list" where
  "get_dashboard_snapshot d limit =
     map (\<lambda>s. (s, filter (\<lambda>r. pr_status r = s) (recent_runs d limit))) Enum.enum"

definition bucket :: "(run_status \<times> pipeline_run list) list \<Rightarrow> run_status \<Rightarrow> pipeline_run list" where
  "bucket snapshot s = (case map_of snapshot s of Some rs \<Rightarrow> rs | None \<Rightarrow> [])"

section \<open>Integrity\<close>

lemma add_stages_frame [db_simps]:
  "runs_t (add_stages r i ns d) = runs_t d" "workers_t (add_stages r i ns d) = workers_t d"
  "assigns_t (add_stages r i ns d) = assigns_t d" "get_run_row (add_stages r i ns d) = get_run_row d"
  by (induction ns arbitrary: i d) (simp_all add: db_simps)

lemma db_ok_add_stages: "db_ok d \<Longrightarrow> get_run_row d r \<noteq> None \<Longrightarrow> db_ok (add_stages r i ns d)"
proof (induction ns arbitrary: i d)
  case Nil
  then show ?case by simp
next
  case (Cons n ns)
  then have "db_ok (add_stage (new_stage r i n) d)"
    by (intro db_ok_add_stage) (simp_all add: new_stage_def)
  then show ?case using Cons by (simp add: db_simps)
qed

lemma skip_stages_frame [db_simps]:
  "runs_t (skip_stages r d) = runs_t d" "workers_t (skip_stages r d) = workers_t d"
  "assigns_t (skip_stages r d) = assigns_t d" "get_run_row (skip_stages r d) = get_run_row d"
  "get_worker (skip_stages r d) = get_worker d"
  by (simp_all add: skip_stages_def table_defs fun_eq_iff)

lemma skip_stage_keys [simp]:
  "se_id (skip_stage s) = se_id s" "se_run_id (skip_stage s) = se_run_id s"
  "se_order (skip_stage s) = se_order s" "se_name (skip_stage s) = se_name s"
  by (simp_all add: skip_stage_def)

lemma finish_run_simps [simp]:
  "pr_id (finish_run res t r) = pr_id r" "pr_status (finish_run res t r) = status_of_result res"
  "pr_result (finish_run res t r) = Some res" "pr_completed_at (finish_run res t r) = Some t"
  "pr_retry_count (finish_run res t r) = pr_retry_count r" "pr_max_retries (finish_run res t r) = pr_max_retries r"
  "pr_repo_url (finish_run res t r) = pr_repo_url r" "pr_triggered_by (finish_run res t r) = pr_triggered_by r"
  by (simp_all add: finish_run_def)

lemma db_ok_skip_stages: "db_ok d \<Longrightarrow> db_ok (skip_stages r d)"
  unfolding skip_stages_def by (rule db_ok_map_stages) simp_all

lemma release_frame [db_simps]:
  "runs_t (release_worker d w r s t) = runs_t d" "stages_t (release_worker d w r s t) = stages_t d"
  "get_run_row (release_worker d w r s t) = get_run_row d"
  by (auto simp: release_worker_def Let_def db_simps fun_eq_iff get_run_row_def split: option.split)

text \<open>In a database with intact references the early return never happens.\<close>

lemma on_build_completed_eq:
  assumes "db_ok d" "get_run d r = Some run"
  shows "fst (on_build_completed st d r result now) =
    (let d1 = skip_stages r (upd_run r (finish_run result now) d) in
     case first_row (open_assignments d1 r) of None \<Rightarrow> d1
     | Some a \<Rightarrow> release_worker d1 (wa_worker_id a) r (result = ''SUCCESS'') now)"
proof (cases "first_row (open_assignments (skip_stages r (upd_run r (finish_run result now) d)) r)")
  case None
  then show ?thesis using assms(2) by (simp add: on_build_completed_def Let_def)
next
  case (Some a)
  then have "a \<in> set (assigns_t d)"
    by (auto simp: open_assignments_def db_simps dest: first_row_SomeD)
  then have "get_worker d (wa_worker_id a) \<noteq> None" by (rule db_ok_refs(3) [OF assms(1)])
  then show ?thesis using Some assms by (auto simp: on_build_completed_def Let_def db_simps)
qed

lemma db_ok_completed: "db_ok d \<Longrightarrow> db_ok (fst (on_build_completed st d r result now))"
  by (cases "get_run d r")
    (auto simp: on_build_completed_eq on_build_completed_def Let_def
      intro!: db_ok_intros db_ok_skip_stages db_ok_release split: option.split)

lemma db_ok_started: "db_ok d \<Longrightarrow> db_ok (on_build_started d r n u now)"
  by (auto simp: on_build_started_def Let_def intro!: db_ok_intros split: option.split)

lemma db_ok_stage_started: "db_ok d \<Longrightarrow> on_stage_started d r n now = Inr d' \<Longrightarrow> db_ok d'"
  by (auto simp: on_stage_started_def intro!: db_ok_intros split: option.splits)

lemma db_ok_stage_completed: "db_ok d \<Longrightarrow> on_stage_completed d r n ok ex now = Inr d' \<Longrightarrow> db_ok d'"
  by (auto simp: on_stage_completed_def intro!: db_ok_intros split: option.splits)

lemma workers_ok_callbacks:
  assumes "workers_ok d"
  shows "workers_ok (fst (on_build_completed st d r result now))" "workers_ok (on_build_started d r n u now)"
    "on_stage_started d r m now = Inr d' \<Longrightarrow> workers_ok d'"
    "on_stage_completed d r m ok ex now = Inr d' \<Longrightarrow> workers_ok d'"
proof -
  have skip: "workers_ok (skip_stages r d) = workers_ok d" for d by (simp add: workers_ok_def db_simps)
  show "workers_ok (fst (on_build_completed st d r result now))"
    using assms by (auto simp: on_build_completed_def Let_def skip intro!: workers_ok_release split: option.split)
  show "workers_ok (on_build_started d r n u now)"
    using assms by (auto simp: on_build_started_def Let_def split: option.split)
  show "on_stage_started d r m now = Inr d' \<Longrightarrow> workers_ok d'"
    using assms by (auto simp: on_stage_started_def split: option.splits)
  show "on_stage_completed d r m ok ex now = Inr d' \<Longrightarrow> workers_ok d'"
    using assms by (auto simp: on_stage_completed_def split: option.splits)
qed

lemma busy_has_assignment_completed:
  assumes "db_ok d" "busy_has_assignment d"
  shows "busy_has_assignment (fst (on_build_completed st d r result now))"
proof (cases "get_run d r")
  case None
  then show ?thesis using assms by (simp add: on_build_completed_def)
next
  case (Some run)
  let ?d = "skip_stages r (upd_run r (finish_run result now) d)"
  have "db_ok ?d" using assms by (intro db_ok_skip_stages db_ok_intros) simp_all
  moreover have "busy_has_assignment ?d" using assms by (simp add: busy_has_assignment_def db_simps)
  ultimately show ?thesis using assms Some
    by (auto simp: on_build_completed_eq Let_def intro!: busy_has_assignment_release split: option.split)
qed

lemma busy_has_assignment_started:
  assumes "busy_has_assignment d"
  shows "busy_has_assignment (on_build_started d r n u now)"
proof -
  have "busy_has_assignment (upd_assign i (\<lambda>a. a\<lparr>wa_status := s, wa_started_at := v\<rparr>) (upd_run r f d))" for i s v f
    using assms by (intro busy_has_assignment_upd_assign) simp_all
  then show ?thesis using assms by (auto simp: on_build_started_def Let_def split: option.split)
qed

section \<open>Stages of a new run\<close>

lemma run_stages_upd_run [db_simps]: "run_stages (upd_run i f d) r = run_stages d r"
  by (simp add: run_stages_def db_simps)

lemma filter_add_stages:
  "filter (\<lambda>s. se_run_id s = r) (stages_t (add_stages q i ns d)) =
     filter (\<lambda>s. se_run_id s = r) (stages_t d) @
     (if r = q then map (\<lambda>(k, n). (new_stage r (i + k) n)\<lparr>se_id := next_stage d + int k\<rparr>) (enumerate 0 ns) else [])"
proof (induction ns arbitrary: i d)
  case Nil
  then show ?case by simp
next
  case (Cons n ns)
  have "enumerate 0 (n # ns) = (0, n) # map (\<lambda>(k, n). (Suc k, n)) (enumerate 0 ns)"
    by (simp add: enumerate_Suc_eq apfst_def map_prod_def case_prod_unfold)
  then show ?case using Cons
    by (auto simp: stage_tbl.rows_add stage_tbl.nxt_add new_stage_def comp_def case_prod_unfold algebra_simps)
qed

lemma run_stages_add_other: "r \<noteq> q \<Longrightarrow> run_stages (add_stages q i ns d) r = run_stages d r"
  by (simp add: run_stages_def filter_add_stages)

lemma run_stages_add_new:
  assumes "filter (\<lambda>s. se_run_id s = q) (stages_t d) = []"
  shows "run_stages (add_stages q 0 ns d) q =
    map (\<lambda>(k, n). (new_stage q k n)\<lparr>se_id := next_stage d + int k\<rparr>) (enumerate 0 ns)"
proof -
  let ?f = "\<lambda>(k, n). (new_stage q k n)\<lparr>se_id := next_stage d + int k\<rparr>"
  have "map se_order (map ?f (enumerate 0 ns)) = map fst (enumerate 0 ns)"
    by (simp add: case_prod_unfold new_stage_def comp_def del: map_fst_enumerate)
  then have "sorted (map se_order (map ?f (enumerate 0 ns)))" by (simp add: enumerate_eq_zip)
  then show ?thesis using assms by (simp add: run_stages_def filter_add_stages sort_key_id_if_sorted)
qed

lemma fresh_run_no_stages:
  assumes "db_ok d"
  shows "filter (\<lambda>s. se_run_id s = next_run d) (stages_t d) = []"
proof -
  have "get_run_row d (next_run d) = None"
    using db_ok_keys(1) [OF assms] by (auto simp: run_tbl.get_None_iff keys_ok_def)
  then show ?thesis using db_ok_refs(1) [OF assms] by (metis (mono_tags, lifting) filter_False)
qed

section \<open>The stored list of stage names\<close>

lemma py_strip_idem [simp]: "py_strip (py_strip s) = py_strip s"
  by (simp add: py_strip_def)

lemma stage_names_of_csv_clean:
  assumes "n \<in> set (stage_names_of_csv csv)"
  shows "n \<noteq> [] \<and> py_strip n = n \<and> CHR '','' \<notin> set n"
proof -
  obtain s w where "w \<in> set (py_split CHR '','' s)" "n = py_strip w" "n \<noteq> []"
    using assms by (auto simp: stage_names_of_csv_def split: option.splits if_splits)
  moreover have "set (strip_by p w) \<subseteq> set w" for p w
    unfolding strip_by_def by (metis (no_types, lifting) set_dropWhileD set_rev subsetI)
  ultimately show ?thesis using py_split_sep_free [of w "CHR '',''" s]
    unfolding py_strip_def by (metis strip_by_idem subsetD)
qed

lemma py_join_not_Nil: "ws \<noteq> [] \<Longrightarrow> \<forall>w \<in> set ws. w \<noteq> [] \<Longrightarrow> py_join sep ws \<noteq> []"
  by (induction sep ws rule: py_join.induct) auto

lemma stage_names_of_join:
  assumes "ws \<noteq> []" "\<forall>n \<in> set ws. n \<noteq> [] \<and> py_strip n = n \<and> CHR '','' \<notin> set n"
  shows "stage_names_of_csv (Some (py_join '','' ws)) = ws"
proof -
  have "py_split CHR '','' (py_join '','' ws) = ws" using assms by (intro py_split_join) auto
  moreover have "py_join '','' ws \<noteq> []" using assms by (intro py_join_not_Nil) auto
  moreover have "filter (\<lambda>w. py_strip w \<noteq> []) ws = ws" using assms(2) by (auto simp: filter_id_conv)
  moreover have "map py_strip ws = ws" using assms(2) by (auto intro: map_idI)
  ultimately show ?thesis by (simp add: stage_names_of_csv_def)
qed

section \<open>The effect of a completed build on one run\<close>

lemma run_stages_skip:
  "run_stages (skip_stages r d) i = (if i = r then map skip_stage (run_stages d i) else run_stages d i)"
proof -
  have f: "filter (\<lambda>s. se_run_id s = i) (map (\<lambda>s. if se_run_id s = r then skip_stage s else s) xs) =
      (if i = r then map skip_stage (filter (\<lambda>s. se_run_id s = i) xs) else filter (\<lambda>s. se_run_id s = i) xs)" for xs
    by (induction xs) auto
  have "sort_key se_order (map skip_stage xs) = map skip_stage (sort_key se_order xs)" for xs
  proof -
    have "insort_key se_order (skip_stage x) (map skip_stage ys) = map skip_stage (insort_key se_order x ys)" for x ys
      by (induction ys) auto
    then show ?thesis by (induction xs) simp_all
  qed
  then show ?thesis by (simp add: run_stages_def skip_stages_def f)
qed

lemma skip_stage_done: "se_status (skip_stage s) \<noteq> SS_PENDING \<and> se_status (skip_stage s) \<noteq> SS_RUNNING"
  by (simp add: skip_stage_def)

lemma run_stages_release [db_simps]: "run_stages (release_worker d w r s t) i = run_stages d i"
  by (simp add: run_stages_def db_simps)

lemma completed_runs:
  assumes "db_ok d" "get_run d r = Some run"
  shows "get_run (fst (on_build_completed st d r result now)) i =
      (if i = r then Some (finish_run result now run) else get_run d i)"
    and "run_stages (fst (on_build_completed st d r result now)) i =
      (if i = r then map skip_stage (run_stages d i) else run_stages d i)"
  using assms
  by (auto simp: on_build_completed_eq Let_def get_run_def db_simps run_stages_skip split: option.split)

lemma runs_t_completed:
  assumes "db_ok d" "get_run d r = Some run"
  shows "runs_t (fst (on_build_completed st d r result now)) = upd_row pr_id r (finish_run result now) (runs_t d)"
  using assms by (simp add: on_build_completed_eq Let_def db_simps run_tbl.rows_upd split: option.split)

text \<open>The run a request leads to, and what storing it does.\<close>

definition scheduled_run ::
    "settings \<Rightarrow> (string \<Rightarrow> (string \<times> string) list \<Rightarrow> http_result) \<Rightarrow> db \<Rightarrow> schedule_request \<Rightarrow> time \<Rightarrow> pipeline_run" where
  "scheduled_run st http_get d q now =
     (new_run (sr_repo_url q) (sr_branch q) (sr_commit_sha q) (sr_author q) (sr_triggered_by q)
      (derive_job_name (sr_repo_url q) (sr_branch q))
      (if found_stages st http_get q = [] then DEFAULT_STAGES else found_stages st http_get q)
      (calculate_pipeline_priority (sr_repo_url q) (sr_branch q) (sr_changed_files q)) now)\<lparr>pr_id := next_run d\<rparr>"

lemma schedule_pipeline_stored:
  assumes "db_ok d" "found_stages st http_get q \<noteq> [] \<or> ALLOW_SYNTHETIC_PIPELINE_STAGES st"
  obtains d' where
    "schedule_pipeline st http_get d q now = Inr (d', scheduled_run st http_get d q now,
       [TriggerBuild (next_run d) (derive_job_name (sr_repo_url q) (sr_branch q)) (sr_branch q) (sr_commit_sha q)])"
    "db_ok d'" "get_run d (next_run d) = None" "get_run d' (next_run d) = Some (scheduled_run st http_get d q now)"
    "map se_name (run_stages d' (next_run d)) =
      (if found_stages st http_get q = [] then DEFAULT_STAGES else found_stages st http_get q)"
    "\<forall>s \<in> set (run_stages d' (next_run d)). se_status s = SS_PENDING"
    "\<And>i. i \<noteq> next_run d \<Longrightarrow> get_run d' i = get_run d i \<and> run_stages d' i = run_stages d i"
    "workers_t d' = workers_t d" "assigns_t d' = assigns_t d"
proof -
  let ?names = "if found_stages st http_get q = [] then DEFAULT_STAGES else found_stages st http_get q"
  let ?run = "scheduled_run st http_get d q now"
  let ?d1 = "add_run ?run d"
  let ?d2 = "add_stages (next_run d) 0 ?names ?d1"
  have [simp]: "pr_id ?run = next_run d" by (simp add: scheduled_run_def)
  have get: "get_run_row ?d1 i = (if i = next_run d then Some ?run else get_run_row d i)" for i
    using run_tbl.get_add [OF db_ok_keys(1) [OF assms(1)]] by (simp add: scheduled_run_def)
  have none: "get_run_row d (next_run d) = None"
    using db_ok_keys(1) [OF assms(1)] by (auto simp: run_tbl.get_None_iff keys_ok_def)
  have ok: "db_ok ?d2" using assms(1) get by (intro db_ok_add_stages db_ok_intros) simp_all
  have "run_stages ?d2 (next_run d) =
      map (\<lambda>(k, n). (new_stage (next_run d) k n)\<lparr>se_id := next_stage ?d1 + int k\<rparr>) (enumerate 0 ?names)"
    using fresh_run_no_stages [OF assms(1)] by (intro run_stages_add_new) (simp add: db_simps)
  then have st: "map se_name (run_stages ?d2 (next_run d)) = ?names"
    "\<forall>s \<in> set (run_stages ?d2 (next_run d)). se_status s = SS_PENDING"
    by (simp_all add: case_prod_unfold new_stage_def comp_def split: if_splits)
  have other: "run_stages ?d2 i = run_stages d i" if "i \<noteq> next_run d" for i
    using that by (simp add: run_stages_add_other) (simp add: run_stages_def db_simps)
  show thesis
    by (rule that [of ?d2]) (use assms(2) get none ok st other in
      \<open>simp_all add: schedule_pipeline_def scheduled_run_def Let_def get_run_def db_simps\<close>)
qed

section \<open>Distinct stage names\<close>

text \<open>
  The stages of a run have different names (the parser drops repetitions), so the
  lookup of a stage by name never finds two rows.
\<close>

definition stage_names_distinct :: "db \<Rightarrow> bool" where
  "stage_names_distinct d \<longleftrightarrow> distinct (map (\<lambda>s. (se_run_id s, se_name s)) (stages_t d))"

lemma find_stage_total:
  assumes "stage_names_distinct d"
  shows "\<exists>x. find_stage d i n = Inr x"
proof -
  have "scalar_one_or_none (filter (\<lambda>s. se_run_id s = i \<and> se_name s = n) xs) \<noteq> Inl MultipleResultsFound"
    if "distinct (map (\<lambda>s. (se_run_id s, se_name s)) xs)" for xs
    using that
  proof (induction xs)
    case (Cons s xs)
    show ?case
    proof (cases "se_run_id s = i \<and> se_name s = n")
      case True
      then have "filter (\<lambda>s. se_run_id s = i \<and> se_name s = n) xs = []"
        using Cons.prems by (auto simp: filter_empty_conv image_iff)
      then show ?thesis using True by simp
    next
      case False
      then show ?thesis using Cons by auto
    qed
  qed simp
  then have "find_stage d i n \<noteq> Inl MultipleResultsFound"
    using assms by (simp add: find_stage_def stage_names_distinct_def)
  moreover have "e = MultipleResultsFound" if "scalar_one_or_none xs = Inl e" for xs :: "stage_execution list" and e
    using that by (cases xs rule: scalar_one_or_none.cases) simp_all
  ultimately show ?thesis by (cases "find_stage d i n") (auto simp: find_stage_def)
qed

definition stage_key :: "stage_execution \<Rightarrow> int \<times> string" where
  "stage_key s = (se_run_id s, se_name s)"

lemma names_distinct_key: "stage_names_distinct d \<longleftrightarrow> distinct (map stage_key (stages_t d))"
  by (simp add: stage_names_distinct_def stage_key_def [abs_def])

lemma names_distinct_cong:
  "map stage_key (stages_t d') = map stage_key (stages_t d) \<Longrightarrow> stage_names_distinct d' = stage_names_distinct d"
  by (simp only: names_distinct_key)

lemma names_distinct_frame: "stages_t d' = stages_t d \<Longrightarrow> stage_names_distinct d' = stage_names_distinct d"
  by (simp add: names_distinct_key)

lemma names_distinct_upd_stage:
  "(\<And>s. stage_key (f s) = stage_key s) \<Longrightarrow> stage_names_distinct (upd_stage k f d) = stage_names_distinct d"
  by (rule names_distinct_cong) (simp add: stage_tbl.rows_upd)

lemma names_distinct_stage:
  assumes "stage_names_distinct d"
  shows "on_stage_started d i n now = Inr d' \<Longrightarrow> stage_names_distinct d'"
    "on_stage_completed d i n ok ex now = Inr d' \<Longrightarrow> stage_names_distinct d'"
  using assms by (auto simp: on_stage_started_def on_stage_completed_def names_distinct_upd_stage stage_key_def split: option.splits)

lemma names_distinct_skip: "stage_names_distinct (skip_stages r d) = stage_names_distinct d"
  by (rule names_distinct_cong) (simp add: skip_stages_def skip_stage_def stage_key_def)

lemma names_distinct_callbacks:
  "stage_names_distinct (fst (on_build_completed st d r result now)) = stage_names_distinct d"
  "stage_names_distinct (on_build_started d r n u now) = stage_names_distinct d"
proof -
  have "stage_names_distinct (release_worker d w r s now) = stage_names_distinct d" for d w s
    by (rule names_distinct_frame) (simp add: release_worker_def Let_def db_simps split: option.split)
  moreover have "stage_names_distinct (upd_run i f d) = stage_names_distinct d" for i f d
    by (rule names_distinct_frame) (simp add: db_simps)
  ultimately show "stage_names_distinct (fst (on_build_completed st d r result now)) = stage_names_distinct d"
    by (simp add: on_build_completed_def Let_def names_distinct_skip split: option.split)
  show "stage_names_distinct (on_build_started d r n u now) = stage_names_distinct d"
    by (rule names_distinct_frame) (simp add: on_build_started_def Let_def db_simps split: option.split)
qed

section \<open>Properties\<close>

text \<open>
  C21: scheduling either fails, exactly when the repository yields no stages and
  synthetic ones are not allowed, or stores one new QUEUED run whose stages are
  the stages found (or the four defaults), in order and all PENDING, leaves
  every other run and its stages alone, and hands one build trigger for that run
  to the task queue.
\<close>

theorem schedule_pipeline_result:
  assumes "db_ok d"
  shows "case schedule_pipeline st http_get d q now of
      Inl e \<Rightarrow> found_stages st http_get q = [] \<and> \<not> ALLOW_SYNTHETIC_PIPELINE_STAGES st
    | Inr (d', run, effs) \<Rightarrow>
        (found_stages st http_get q \<noteq> [] \<or> ALLOW_SYNTHETIC_PIPELINE_STAGES st) \<and> db_ok d'
        \<and> get_run d (pr_id run) = None \<and> get_run d' (pr_id run) = Some run \<and> pr_status run = RS_QUEUED
        \<and> map se_name (run_stages d' (pr_id run)) = (if found_stages st http_get q = [] then DEFAULT_STAGES else found_stages st http_get q)
        \<and> (\<forall>s \<in> set (run_stages d' (pr_id run)). se_status s = SS_PENDING)
        \<and> (\<forall>i. i \<noteq> pr_id run \<longrightarrow> get_run d' i = get_run d i \<and> run_stages d' i = run_stages d i)
        \<and> effs = [TriggerBuild (pr_id run) (derive_job_name (sr_repo_url q) (sr_branch q))
            (sr_branch q) (sr_commit_sha q)]"
proof (cases "found_stages st http_get q = [] \<and> \<not> ALLOW_SYNTHETIC_PIPELINE_STAGES st")
  case True
  then show ?thesis by (simp add: schedule_pipeline_def Let_def)
next
  case False
  then have "found_stages st http_get q \<noteq> [] \<or> ALLOW_SYNTHETIC_PIPELINE_STAGES st" by blast
  from schedule_pipeline_stored [OF assms this, of now] show ?thesis
  proof cases
    case (1 d')
    then show ?thesis using False by (simp add: scheduled_run_def new_run_def)
  qed
qed

definition jenkinsfile_server :: "string \<Rightarrow> (string \<times> string) list \<Rightarrow> http_result" where
  "jenkinsfile_server url hs = Inr (ok_response (stage_line ''Build''))"

definition example_request :: schedule_request where
  "example_request = \<lparr>sr_repo_url = ''https://github.com/acme/app'', sr_branch = ''main'', sr_commit_sha = None,
     sr_author = None, sr_triggered_by = ''api'', sr_git_token = None, sr_changed_files = None\<rparr>"

theorem schedule_pipeline_result_witness:
  "db_ok empty_db \<and>
   (case schedule_pipeline default_settings jenkinsfile_server empty_db example_request 5 of
      Inl e \<Rightarrow> found_stages default_settings jenkinsfile_server example_request = []
    | Inr (d', run, effs) \<Rightarrow> db_ok d' \<and> get_run d' (pr_id run) = Some run \<and> pr_status run = RS_QUEUED)"
  using schedule_pipeline_result [OF db_ok_empty, of default_settings jenkinsfile_server example_request 5]
  by (auto split: sum.splits prod.splits)

text \<open>
  C39: the comma-separated column gives the stage names of a run back exactly when
  every name is non-empty, has no blanks around it and no comma in it.  Stage
  names come from Jenkinsfiles, where a comma is legal: such a run is executed
  and stored under other names than its stage rows.
\<close>

theorem stage_names_roundtrip:
  "stage_names (new_run u b c a tb j ns p now) = ns
   \<longleftrightarrow> list_all (\<lambda>n. n \<noteq> [] \<and> py_strip n = n \<and> CHR '','' \<notin> set n) ns"
proof (cases "ns = []")
  case True
  then show ?thesis by (simp add: stage_names_def new_run_def stage_names_of_csv_def)
next
  case False
  show ?thesis
  proof
    assume "stage_names (new_run u b c a tb j ns p now) = ns"
    then show "list_all (\<lambda>n. n \<noteq> [] \<and> py_strip n = n \<and> CHR '','' \<notin> set n) ns"
      using stage_names_of_csv_clean unfolding list_all_iff stage_names_def by metis
  next
    assume "list_all (\<lambda>n. n \<noteq> [] \<and> py_strip n = n \<and> CHR '','' \<notin> set n) ns"
    then show "stage_names (new_run u b c a tb j ns p now) = ns"
      using False stage_names_of_join [of ns] by (simp add: stage_names_def new_run_def list_all_iff)
  qed
qed

text \<open>
  C11: when Jenkins reports the end of a build, its run gets the result, the
  completion time and the status COMPLETED (SUCCESS), ABORTED (ABORTED) or
  FAILED (anything else); no stage of it is left PENDING or RUNNING, finished
  stages keep their status; every other run and its stages are untouched.
\<close>

theorem build_completed_finalises:
  fixes st :: settings and result :: string and now :: time
  assumes "db_ok d" "get_run d r = Some run"
  defines "d' \<equiv> fst (on_build_completed st d r result now)"
  shows "(\<exists>run'. get_run d' r = Some run' \<and> pr_status run' = status_of_result result
            \<and> pr_result run' = Some result \<and> pr_completed_at run' = Some now
            \<and> pr_status run' \<noteq> RS_QUEUED \<and> pr_status run' \<noteq> RS_IN_PROGRESS)
    \<and> map (\<lambda>s. (se_id s, se_name s)) (run_stages d' r) = map (\<lambda>s. (se_id s, se_name s)) (run_stages d r)
    \<and> list_all2 (\<lambda>s s'. se_status s' \<notin> {SS_PENDING, SS_RUNNING}
         \<and> (se_status s \<notin> {SS_PENDING, SS_RUNNING} \<longrightarrow> s' = s)) (run_stages d r) (run_stages d' r)
    \<and> (\<forall>i. i \<noteq> r \<longrightarrow> get_run d' i = get_run d i \<and> run_stages d' i = run_stages d i)"
proof -
  have "status_of_result result \<noteq> RS_QUEUED \<and> status_of_result result \<noteq> RS_IN_PROGRESS"
    by (simp add: status_of_result_def)
  moreover have "list_all2 (\<lambda>s s'. se_status s' \<notin> {SS_PENDING, SS_RUNNING}
         \<and> (se_status s \<notin> {SS_PENDING, SS_RUNNING} \<longrightarrow> s' = s)) xs (map skip_stage xs)" for xs
    using skip_stage_done by (induction xs) (auto simp: skip_stage_def)
  ultimately show ?thesis using completed_runs [OF assms(1,2)] unfolding d'_def by (simp add: comp_def)
qed

definition running_db :: db where
  "running_db = example_db\<lparr>
     runs_t := [(new_run ''https://github.com/acme/app'' ''main'' None None ''api'' ''acme/app/main''
        [''Build''] (mk_priority 2 ''production branch'') 5)\<lparr>pr_id := 1, pr_status := RS_IN_PROGRESS,
          pr_started_at := Some 6, pr_jenkins_build_number := Some 9\<rparr>], next_run := 2,
     stages_t := [(new_stage 1 0 ''Build'')\<lparr>se_id := 1, se_status := SS_RUNNING\<rparr>], next_stage := 2,
     assigns_t := [(new_assignment 1 3 6)\<lparr>wa_id := 1\<rparr>], next_assign := 2\<rparr>"

lemma running_db_ok: "db_ok running_db"
  by (simp add: running_db_def example_db_def example_worker_def new_worker_def db_ok_def tables_ok_def
      refs_ok_def keys_ok_def empty_db_def new_run_def new_stage_def new_assignment_def
      get_run_row_def get_worker_def get_row_def)

lemma running_db_run: "get_run running_db 1 = Some (hd (runs_t running_db))"
  by (simp add: running_db_def get_run_def get_run_row_def get_row_def)

theorem build_completed_finalises_witness:
  "\<exists>run'. get_run (fst (on_build_completed default_settings running_db 1 ''UNSTABLE'' 7000000)) 1 = Some run'
     \<and> pr_status run' = RS_FAILED \<and> pr_result run' = Some ''UNSTABLE'' \<and> pr_completed_at run' = Some 7000000"
  using build_completed_finalises [OF running_db_ok running_db_run, of default_settings "''UNSTABLE''" 7000000]
  by (auto simp: status_of_result_def)

text \<open>
  Root-cause analysis of a finished build is started exactly when the result
  is not SUCCESS and the run has a job name and a non-zero build number, once,
  for that job and number, with the recorded build URL if there is one.
\<close>

theorem analysis_started_iff:
  "snd (on_build_completed st d r result now) =
     (case get_run d r of
        None \<Rightarrow> []
      | Some run \<Rightarrow>
          if result \<noteq> ''SUCCESS'' \<and> truthy (pr_jenkins_job_name run)
             \<and> pr_jenkins_build_number run \<notin> {None, Some 0}
          then [AnalyseBuild (the (pr_jenkins_job_name run)) (the (pr_jenkins_build_number run))
                 (if truthy (pr_jenkins_build_url run) then the (pr_jenkins_build_url run)
                  else job_build_url st (the (pr_jenkins_job_name run)) (the (pr_jenkins_build_number run)))
                 result]
          else [])"
  by (auto simp: on_build_completed_def Let_def analysis_of_def truthy_def split: option.split)

text \<open>
  The end of a build frees the worker of its first open assignment: the
  worker becomes idle with half a unit less load and one job more, and when the
  run and the worker have no older assignment row, that assignment is closed
  with the outcome.
\<close>

theorem build_completed_frees_worker:
  assumes "db_ok d" "get_run d r = Some run" "first_row (open_assignments d r) = Some a"
    and "first_row (filter (\<lambda>b. wa_run_id b = r \<and> wa_worker_id b = wa_worker_id a) (assigns_t d)) = Some a"
  shows "get_worker (fst (on_build_completed st d r result now)) (wa_worker_id a) =
      map_option (vacate now) (get_worker d (wa_worker_id a))
    \<and> get_assign (fst (on_build_completed st d r result now)) (wa_id a) =
        Some (close_assignment (result = ''SUCCESS'') now a)"
proof -
  let ?d1 = "skip_stages r (upd_run r (finish_run result now) d)"
  have open1: "open_assignments ?d1 r = open_assignments d r" by (simp add: open_assignments_def db_simps)
  have a: "a \<in> set (assigns_t d)" using first_row_SomeD [OF assms(3)] by (simp add: open_assignments_def)
  then obtain w where w: "get_worker d (wa_worker_id a) = Some w" using db_ok_refs(3) [OF assms(1)] by blast
  have "get_assign d (wa_id a) = Some a" using assign_tbl.get_mem [OF db_ok_keys(4) [OF assms(1)] a] .
  then have "get_assign ?d1 (wa_id a) = Some a" by (simp add: get_assign_def db_simps)
  then show ?thesis using assms w open1
    by (simp add: on_build_completed_eq Let_def release_worker_def db_simps assign_tbl.get_upd)
qed

theorem build_completed_frees_worker_witness:
  "\<exists>w. get_worker (fst (on_build_completed default_settings running_db 1 ''SUCCESS'' 7000000)) 3 = Some w
     \<and> w_status w = WS_IDLE \<and> w_jobs_run w = 1"
proof -
  let ?a = "(new_assignment 1 3 6)\<lparr>wa_id := 1\<rparr>"
  have "first_row (open_assignments running_db 1) = Some ?a"
    "first_row (filter (\<lambda>b. wa_run_id b = 1 \<and> wa_worker_id b = wa_worker_id ?a) (assigns_t running_db)) = Some ?a"
    by (simp_all add: running_db_def open_assignments_def new_assignment_def)
  from build_completed_frees_worker [OF running_db_ok running_db_run this, of default_settings "''SUCCESS''" 7000000]
  have "get_worker (fst (on_build_completed default_settings running_db 1 ''SUCCESS'' 7000000)) 3 =
      map_option (vacate 7000000) (get_worker running_db 3)"
    by (simp add: new_assignment_def)
  then show ?thesis
    by (simp add: running_db_def example_db_def get_worker_def get_row_def example_worker_def new_worker_def)
qed

lemma length_by_status:
  "length (filter (\<lambda>r. pr_status r = RS_QUEUED) rs) + length (filter (\<lambda>r. pr_status r = RS_IN_PROGRESS) rs)
   + length (filter (\<lambda>r. pr_status r = RS_COMPLETED) rs) + length (filter (\<lambda>r. pr_status r = RS_FAILED) rs)
   + length (filter (\<lambda>r. pr_status r = RS_ABORTED) rs) = length rs"
proof (induction rs)
  case (Cons r rs)
  then show ?case by (cases "pr_status r") simp_all
qed simp

lemma sorted_recent_runs: "sorted_wrt (\<lambda>r s. pr_queued_at r \<ge> pr_queued_at s) (recent_runs d n)"
proof -
  have "sorted (map (\<lambda>r. - pr_queued_at r) (sort_key (\<lambda>r. - pr_queued_at r) xs))" for xs :: "pipeline_run list"
    by (rule sorted_sort_key)
  then have "sorted_wrt (\<lambda>r s. pr_queued_at r \<ge> pr_queued_at s) (sort_key (\<lambda>r. - pr_queued_at r) xs)" for xs :: "pipeline_run list"
    by (simp add: sorted_map)
  then show ?thesis unfolding recent_runs_def by (rule sorted_wrt_take)
qed

text \<open>
  The dashboard snapshot partitions the newest \<open>limit\<close> real runs: each bucket
  holds exactly the runs of its status, newest first, and the bucket sizes add
  up to the number of runs shown.
\<close>

theorem snapshot_partitions:
  "list_all (\<lambda>r. pr_status r = s \<and> real_pipeline_run r) (bucket (get_dashboard_snapshot d limit) s)
   \<and> sorted_wrt (\<lambda>r r'. pr_queued_at r \<ge> pr_queued_at r') (bucket (get_dashboard_snapshot d limit) s)
   \<and> sum_list (map (\<lambda>(s, rs). length rs) (get_dashboard_snapshot d limit)) =
       min limit (length (filter real_pipeline_run (runs_t d)))"
proof -
  have b: "bucket (get_dashboard_snapshot d limit) s = filter (\<lambda>r. pr_status r = s) (recent_runs d limit)"
    by (cases s) (simp_all add: bucket_def get_dashboard_snapshot_def enum_run_status_def)
  have "list_all real_pipeline_run (recent_runs d limit)"
    by (auto simp: recent_runs_def list_all_iff dest: in_set_takeD)
  then have "list_all (\<lambda>r. pr_status r = s \<and> real_pipeline_run r) (bucket (get_dashboard_snapshot d limit) s)"
    by (auto simp: b list_all_iff)
  moreover have "sum_list (map (\<lambda>(s, rs). length rs) (get_dashboard_snapshot d limit)) = length (recent_runs d limit)"
    using length_by_status [of "recent_runs d limit"]
    by (simp add: get_dashboard_snapshot_def enum_run_status_def)
  ultimately show ?thesis using sorted_recent_runs [of d limit]
    by (simp add: b sorted_wrt_filter recent_runs_def)
qed

end
