(* ===== verification/Scheduler.thy ===== *)
theory Scheduler
  imports Job_Scheduler "HOL-Library.Product_Lexorder"
begin

text \<open>
  \<open>app/scheduler.py\<close>: one pass of the scheduler loop.  A tick recovers stale
  workers and orphaned runs, reads the queue in dispatch order, claims and
  assigns its runs one by one and finally schedules or performs retries.  Each
  database transaction of the code is one function on the database; the clock
  readings of a tick are a record.  The assignment operation is a parameter of
  the dispatch loop, so that the lemmas about the loop rest only on the contract
  \<open>worker_allocator\<close>.
\<close>

section \<open>Recovery of stale workers and orphaned runs\<close>

definition stale :: "time \<Rightarrow> worker \<Rightarrow> bool" where
  "stale cutoff w \<longleftrightarrow> w_status w = WS_BUSY \<and>
     (case w_last_heartbeat w of None \<Rightarrow> False | Some t \<Rightarrow> t < cutoff)"

definition requeue :: "pipeline_run \<Rightarrow> pipeline_run" where
  "requeue r = r\<lparr>pr_status := RS_QUEUED, pr_started_at := None\<rparr>"

definition timeout_assignment :: "string \<Rightarrow> time \<Rightarrow> worker_assignment \<Rightarrow> worker_assignment" where
  "timeout_assignment why now a =
     a\<lparr>wa_status := AS_FAILED, wa_completed_at := Some now, wa_result := Some why\<rparr>"

definition expire_assignment :: "string \<Rightarrow> time \<Rightarrow> worker_assignment \<Rightarrow> db \<Rightarrow> db" where
  "expire_assignment why now a d =
     upd_assign (wa_id a) (timeout_assignment why now)
       (upd_run (wa_run_id a) (\<lambda>r. if pr_status r = RS_IN_PROGRESS then requeue r else r) d)"

definition reset_worker :: "time \<Rightarrow> worker \<Rightarrow> worker" where
  "reset_worker now w = w\<lparr>w_status := WS_IDLE, w_load := 0, w_current_job := None,
     w_last_heartbeat := Some now\<rparr>"

definition open_of_worker :: "db \<Rightarrow> int \<Rightarrow> worker_assignment list" where
  "open_of_worker d w = filter (open_on w) (assigns_t d)"

definition recover_worker :: "string \<Rightarrow> time \<Rightarrow> worker \<Rightarrow> db \<Rightarrow> db" where
  "recover_worker why now w d =
     upd_worker (w_id w) (reset_worker now) (fold (expire_assignment why now) (open_of_worker d (w_id w)) d)"

definition orphaned :: "time \<Rightarrow> pipeline_run \<Rightarrow> bool" where
  "orphaned cutoff r \<longleftrightarrow> pr_status r = RS_IN_PROGRESS \<and> pr_jenkins_build_url r = None \<and>
     (case pr_started_at r of None \<Rightarrow> True | Some t \<Rightarrow> t < cutoff)"

definition give_up :: "time \<Rightarrow> worker \<Rightarrow> worker" where
  "give_up now w = w\<lparr>w_status := WS_IDLE, w_load := max 0 (w_load w - 1/2), w_current_job := None,
     w_last_heartbeat := Some now\<rparr>"

text \<open>One open assignment of an orphaned run; the number counts released workers.\<close>

definition abandon_assignment :: "time \<Rightarrow> worker_assignment \<Rightarrow> db \<times> nat \<Rightarrow> db \<times> nat" where
  "abandon_assignment now a s =
     (let (d, n) = s;
          held = (case get_worker d (wa_worker_id a) of None \<Rightarrow> False | Some w \<Rightarrow> w_status w = WS_BUSY);
          d1 = (if held then upd_worker (wa_worker_id a) (give_up now) d else d)
      in (upd_assign (wa_id a) (timeout_assignment ''TIMEOUT'' now) d1, if held then n + 1 else n))"

definition recover_run :: "time \<Rightarrow> pipeline_run \<Rightarrow> db \<times> nat \<Rightarrow> db \<times> nat" where
  "recover_run now r s =
     (let (d, n) = s; (d1, m) = fold (abandon_assignment now) (open_assignments d (pr_id r)) (d, n)
      in (upd_run (pr_id r) requeue d1, m))"

definition recovery_cutoff :: "settings \<Rightarrow> time \<Rightarrow> time" where
  "recovery_cutoff st now = now - seconds (60 * WORKER_HEARTBEAT_TIMEOUT_MINUTES st)"

definition recover_stale_workers :: "settings \<Rightarrow> db \<Rightarrow> time \<Rightarrow> db \<times> nat" where
  "recover_stale_workers st d now =
     (let cutoff = recovery_cutoff st now;
          stale_list = filter (stale cutoff) (workers_t d);
          d1 = fold (recover_worker ''TIMEOUT'' now) stale_list d
      in fold (recover_run now) (filter (orphaned cutoff) (runs_t d1)) (d1, length stale_list))"

section \<open>Dispatch\<close>

record tick_clock =
  tc_recover :: time
  tc_claim :: "int \<Rightarrow> time"
  tc_assign :: "int \<Rightarrow> time"
  tc_retry :: time

definition queue_order :: "string \<Rightarrow> pipeline_run list \<Rightarrow> pipeline_run list" where
  "queue_order mode rs =
     (if mode = ''Priority'' then sort_key (\<lambda>r. (run_priority r, pr_queued_at r)) rs
      else sort_key pr_queued_at rs)"

definition waiting :: "pipeline_run \<Rightarrow> bool" where
  "waiting r \<longleftrightarrow> pr_status r = RS_QUEUED \<and> real_pipeline_run r"

definition queued_runs :: "settings \<Rightarrow> string \<Rightarrow> db \<Rightarrow> pipeline_run list" where
  "queued_runs st mode d = take (MAX_CONCURRENT_EXECUTIONS st) (queue_order mode (filter waiting (runs_t d)))"

definition claimed :: "time \<Rightarrow> pipeline_run \<Rightarrow> pipeline_run" where
  "claimed now r = r\<lparr>pr_status := RS_IN_PROGRESS, pr_started_at := Some now\<rparr>"

text \<open>
  The guarded \<open>UPDATE\<close>: \<open>None\<close> is a row count of 0, another tick has the run.
\<close>

definition claim_run :: "time \<Rightarrow> int \<Rightarrow> db \<Rightarrow> db option" where
  "claim_run now i d =
     (if list_ex (\<lambda>r. pr_id r = i \<and> pr_status r = RS_QUEUED) (runs_t d)
      then Some (upd_run i (\<lambda>r. if pr_status r = RS_QUEUED then claimed now r else r) d)
      else None)"

type_synonym assign_fun = "db \<Rightarrow> int \<Rightarrow> worker_language \<Rightarrow> time \<Rightarrow> db \<times> worker option"

definition dispatch_run_with :: "assign_fun \<Rightarrow> tick_clock \<Rightarrow> pipeline_run \<Rightarrow> db \<Rightarrow> db \<times> effect list" where
  "dispatch_run_with assign c r d =
     (case claim_run (tc_claim c (pr_id r)) (pr_id r) d of
        None \<Rightarrow> (d, [])
      | Some d1 \<Rightarrow>
          (case assign d1 (pr_id r) (detect_language (pr_repo_url r) (stage_names r)) (tc_assign c (pr_id r)) of
             (d2, Some w) \<Rightarrow> (d2, [ExecuteRun (pr_id r) (w_id w) (stage_names r)])
           | (d2, None) \<Rightarrow> (upd_run (pr_id r) requeue d2, [])))"

fun dispatch_all_with :: "assign_fun \<Rightarrow> tick_clock \<Rightarrow> pipeline_run list \<Rightarrow> db \<Rightarrow> db \<times> effect list" where
  "dispatch_all_with assign c [] d = (d, [])"
| "dispatch_all_with assign c (r # rs) d =
     (let (d1, es) = dispatch_run_with assign c r d; (d2, es') = dispatch_all_with assign c rs d1
      in (d2, es @ es'))"

abbreviation dispatch_run :: "tick_clock \<Rightarrow> pipeline_run \<Rightarrow> db \<Rightarrow> db \<times> effect list" where
  "dispatch_run \<equiv> dispatch_run_with assign_worker"

abbreviation dispatch_all :: "tick_clock \<Rightarrow> pipeline_run list \<Rightarrow> db \<Rightarrow> db \<times> effect list" where
  "dispatch_all \<equiv> dispatch_all_with assign_worker"

section \<open>Automatic retries\<close>

definition retry_eligible :: "pipeline_run \<Rightarrow> bool" where
  "retry_eligible r \<longleftrightarrow> pr_status r = RS_FAILED \<and> pr_retry_count r < pr_max_retries r \<and> real_pipeline_run r"

definition retried :: "pipeline_run \<Rightarrow> pipeline_run" where
  "retried r = r\<lparr>pr_retry_count := pr_retry_count r + 1, pr_status := RS_QUEUED, pr_started_at := None,
     pr_completed_at := None, pr_retry_after := None\<rparr>"

definition auto_retry :: "int list \<Rightarrow> time \<Rightarrow> pipeline_run \<Rightarrow> pipeline_run res" where
  "auto_retry backoffs now r =
     (case pr_retry_after r of
        None \<Rightarrow> rbind (py_index backoffs (min (pr_retry_count r) (int (length backoffs) - 1)))
          (\<lambda>delay. Inr (r\<lparr>pr_retry_after := Some (now + seconds delay)\<rparr>))
      | Some t \<Rightarrow> Inr (if t \<le> now then retried r else r))"

definition retry_phase :: "settings \<Rightarrow> time \<Rightarrow> db \<Rightarrow> db res" where
  "retry_phase st now d =
     rbind (mapM_res (\<lambda>r. if retry_eligible r then auto_retry (PIPELINE_RETRY_BACKOFF_SECONDS st) now r else Inr r)
         (runs_t d))
       (\<lambda>rs. Inr (d\<lparr>runs_t := rs\<rparr>))"

section \<open>The tick\<close>

text \<open>
  \<open>exec_threads\<close> is the number of live execution threads of the process.  When
  the last phase raises, what the earlier transactions committed stays.
\<close>

datatype tick_result = Skipped | Ticked nat nat | TickError pyerr

definition scheduler_tick ::
    "settings \<Rightarrow> string \<Rightarrow> bool \<Rightarrow> nat \<Rightarrow> db \<Rightarrow> tick_clock \<Rightarrow> db \<times> effect list \<times> tick_result" where
  "scheduler_tick st mode use_celery exec_threads d c =
     (if \<not> use_celery \<and> MAX_CONCURRENT_EXECUTIONS st \<le> exec_threads then (d, [], Skipped)
      else
        let d1 = fst (recover_stale_workers st d (tc_recover c));
            queue = queued_runs st mode d1;
            (d2, es) = dispatch_all c queue d1
        in (case retry_phase st (tc_retry c) d2 of
              Inl e \<Rightarrow> (d2, es, TickError e)
            | Inr d3 \<Rightarrow> (d3, es, Ticked (length queue) (length es))))"

section \<open>The dispatch loop over any assignment operation\<close>

lemma claimed_simps [simp]:
  "pr_id (claimed t r) = pr_id r" "pr_status (claimed t r) = RS_IN_PROGRESS" "pr_started_at (claimed t r) = Some t"
  by (simp_all add: claimed_def)

lemma requeue_simps [simp]:
  "pr_id (requeue r) = pr_id r" "pr_status (requeue r) = RS_QUEUED" "pr_started_at (requeue r) = None"
  "requeue (claimed t r) = requeue r"
  by (simp_all add: requeue_def claimed_def)

lemma get_run_row_cong: "runs_t d = runs_t d' \<Longrightarrow> get_run_row d i = get_run_row d' i"
  by (simp add: get_run_row_def)

lemma claim_run_queued:
  assumes "get_run_row d i = Some x" "pr_status x = RS_QUEUED"
  shows "claim_run t i d = Some (upd_run i (\<lambda>r. if pr_status r = RS_QUEUED then claimed t r else r) d)"
  using run_tbl.get_SomeD [OF assms(1)] assms(2) by (auto simp: claim_run_def list_ex_iff)

lemma claim_run_SomeD:
  "claim_run t i d = Some d' \<Longrightarrow> d' = upd_run i (\<lambda>r. if pr_status r = RS_QUEUED then claimed t r else r) d"
  by (simp add: claim_run_def split: if_splits)

definition queued_in :: "db \<Rightarrow> int \<Rightarrow> bool" where
  "queued_in d i \<longleftrightarrow> (\<exists>x. get_run_row d i = Some x \<and> pr_status x = RS_QUEUED)"

text \<open>The row of a run after the loop: dispatched, tried in vain, or not in the queue.\<close>

definition dispatched_row ::
    "tick_clock \<Rightarrow> int list \<Rightarrow> int list \<Rightarrow> int \<Rightarrow> pipeline_run \<Rightarrow> pipeline_run" where
  "dispatched_row c gone left i r =
     (if i \<in> set gone then claimed (tc_claim c i) r else if i \<in> set left then requeue r else r)"

context worker_allocator
begin

lemma dispatch_run_idle:
  assumes "good d" "queued_in d (pr_id r)" "idle_ids d \<noteq> {}"
  obtains d1 w where "dispatch_run_with assign c r d = (d1, [ExecuteRun (pr_id r) w (stage_names r)])"
    "good d1" "w \<in> idle_ids d" "idle_ids d1 = idle_ids d - {w}"
    "\<And>i. get_run_row d1 i = map_option (dispatched_row c [pr_id r] [] i) (get_run_row d i)"
proof -
  let ?claim = "\<lambda>x. if pr_status x = RS_QUEUED then claimed (tc_claim c (pr_id r)) x else x"
  let ?d0 = "upd_run (pr_id r) ?claim d"
  let ?lang = "detect_language (pr_repo_url r) (stage_names r)"
  let ?res = "assign ?d0 (pr_id r) ?lang (tc_assign c (pr_id r))"
  obtain x where x: "get_run_row d (pr_id r) = Some x" "pr_status x = RS_QUEUED"
    using assms(2) by (auto simp: queued_in_def)
  have good0: "good ?d0" using assms(1) by (rule good_runs)
  have "snd ?res \<noteq> None" using refuses [OF good0] assms(3) by simp
  then obtain d1 w where res: "?res = (d1, Some w)" by (cases ?res) auto
  have "runs_t d1 = runs_t ?d0" using runs_same [of ?d0 "pr_id r" ?lang "tc_assign c (pr_id r)"] res by simp
  then have rows: "get_run_row d1 i = map_option (dispatched_row c [pr_id r] [] i) (get_run_row d i)" for i
    using x by (cases "i = pr_id r"; cases "get_run_row d i") (simp_all add: get_run_row_cong [of d1 ?d0] db_simps dispatched_row_def)
  have "dispatch_run_with assign c r d = (d1, [ExecuteRun (pr_id r) (w_id w) (stage_names r)])"
    using claim_run_queued [OF x] res by (simp add: dispatch_run_with_def)
  moreover have "good d1" using good_kept [OF good0, of "pr_id r" ?lang "tc_assign c (pr_id r)"] res by simp
  moreover have "w_id w \<in> idle_ids d" "idle_ids d1 = idle_ids d - {w_id w}"
    using takes_idle [OF good0, of "pr_id r" ?lang "tc_assign c (pr_id r)" w] res by simp_all
  ultimately show thesis using rows that by blast
qed

lemma dispatch_run_full:
  assumes "good d" "queued_in d (pr_id r)" "idle_ids d = {}"
  obtains d1 where "dispatch_run_with assign c r d = (d1, [])" "good d1" "idle_ids d1 = {}"
    "\<And>i. get_run_row d1 i = map_option (dispatched_row c [] [pr_id r] i) (get_run_row d i)"
proof -
  let ?claim = "\<lambda>x. if pr_status x = RS_QUEUED then claimed (tc_claim c (pr_id r)) x else x"
  let ?d0 = "upd_run (pr_id r) ?claim d"
  let ?res = "assign ?d0 (pr_id r) (detect_language (pr_repo_url r) (stage_names r)) (tc_assign c (pr_id r))"
  obtain x where x: "get_run_row d (pr_id r) = Some x" "pr_status x = RS_QUEUED"
    using assms(2) by (auto simp: queued_in_def)
  have good0: "good ?d0" using assms(1) by (rule good_runs)
  have none: "snd ?res = None" using refuses [OF good0] assms(3) by simp
  then have "?res = (?d0, None)" using refused_same [OF none] by (cases ?res) simp
  then have run: "dispatch_run_with assign c r d = (upd_run (pr_id r) requeue ?d0, [])"
    using claim_run_queued [OF x] by (simp add: dispatch_run_with_def)
  have rows: "get_run_row (upd_run (pr_id r) requeue ?d0) i =
      map_option (dispatched_row c [] [pr_id r] i) (get_run_row d i)" for i
    using x by (cases "i = pr_id r"; cases "get_run_row d i") (simp_all add: db_simps dispatched_row_def)
  have "good (upd_run (pr_id r) requeue ?d0)" using good0 by (rule good_runs)
  moreover have "idle_ids (upd_run (pr_id r) requeue ?d0) = {}" using assms(3) by simp
  ultimately show thesis using that [OF run _ _ rows] by blast
qed


lemma dispatch_all_queue:
  assumes "good d" "distinct (map pr_id rs)" "\<forall>r \<in> set rs. queued_in d (pr_id r)"
  shows "\<exists>ws d'. dispatch_all_with assign c rs d =
        (d', map2 (\<lambda>r w. ExecuteRun (pr_id r) w (stage_names r)) (take (card (idle_ids d)) rs) ws)
      \<and> length ws = min (length rs) (card (idle_ids d)) \<and> distinct ws \<and> set ws \<subseteq> idle_ids d
      \<and> idle_ids d' = idle_ids d - set ws \<and> good d'
      \<and> (\<forall>i. get_run_row d' i = map_option (dispatched_row c
            (map pr_id (take (card (idle_ids d)) rs)) (map pr_id (drop (card (idle_ids d)) rs)) i) (get_run_row d i))"
  using assms
proof (induction rs arbitrary: d)
  case Nil
  have "map_option (dispatched_row c [] [] i) (get_run_row d i) = get_run_row d i" for i
    by (cases "get_run_row d i") (simp_all add: dispatched_row_def)
  then show ?case using Nil by simp
next
  case (Cons r rs)
  have fin: "finite (idle_ids d)" by (simp add: idle_ids_def)
  have q: "queued_in d (pr_id r)" using Cons.prems by simp
  have others: "queued_in d1 (pr_id s)" if "s \<in> set rs"
    "\<And>i. get_run_row d1 i = map_option (dispatched_row c gone left i) (get_run_row d i)"
    "set gone \<union> set left = {pr_id r}" for s d1 gone left
  proof -
    have "pr_id s \<noteq> pr_id r" using Cons.prems(2) that(1) by (auto simp: rev_image_eqI)
    then have "pr_id s \<notin> set gone \<and> pr_id s \<notin> set left" using that(3) by blast
    then show ?thesis using Cons.prems(3) that(1,2) by (auto simp: queued_in_def dispatched_row_def)
  qed
  have nr: "pr_id r \<notin> pr_id ` set rs" using Cons.prems(2) by simp
  show ?case
  proof (cases "idle_ids d = {}")
    case False
    obtain d1 w where d1: "dispatch_run_with assign c r d = (d1, [ExecuteRun (pr_id r) w (stage_names r)])"
      "good d1" "w \<in> idle_ids d" "idle_ids d1 = idle_ids d - {w}"
      and rows: "\<And>i. get_run_row d1 i = map_option (dispatched_row c [pr_id r] [] i) (get_run_row d i)"
      using dispatch_run_idle [OF Cons.prems(1) q False] by metis
    have card: "card (idle_ids d) = Suc (card (idle_ids d1))"
      using card.remove [OF fin d1(3)] d1(4) by simp
    let ?k = "card (idle_ids d1)"
    have "\<forall>s \<in> set rs. queued_in d1 (pr_id s)" using others [OF _ rows] by simp
    then obtain ws d' where IH: "dispatch_all_with assign c rs d1 =
          (d', map2 (\<lambda>r w. ExecuteRun (pr_id r) w (stage_names r)) (take ?k rs) ws)"
      "length ws = min (length rs) ?k" "distinct ws" "set ws \<subseteq> idle_ids d1" "idle_ids d' = idle_ids d1 - set ws" "good d'"
      and rows': "\<forall>i. get_run_row d' i = map_option (dispatched_row c (map pr_id (take ?k rs)) (map pr_id (drop ?k rs)) i)
        (get_run_row d1 i)"
      using Cons.IH [OF d1(2)] Cons.prems(2) by auto
    have "get_run_row d' i = map_option (dispatched_row c (map pr_id (r # take ?k rs)) (map pr_id (drop ?k rs)) i)
        (get_run_row d i)" for i
    proof -
      have "pr_id r \<notin> pr_id ` set (take ?k rs)" "pr_id r \<notin> pr_id ` set (drop ?k rs)"
        using nr by (auto dest: in_set_takeD in_set_dropD)
      then show ?thesis by (cases "get_run_row d i") (auto simp: rows' rows dispatched_row_def)
    qed
    then have "\<forall>i. get_run_row d' i = map_option (dispatched_row c (map pr_id (take (Suc ?k) (r # rs)))
        (map pr_id (drop (Suc ?k) (r # rs))) i) (get_run_row d i)" by simp
    moreover have "dispatch_all_with assign c (r # rs) d =
        (d', map2 (\<lambda>r w. ExecuteRun (pr_id r) w (stage_names r)) (take (Suc ?k) (r # rs)) (w # ws))"
      using IH(1) d1(1) by simp
    moreover have "length (w # ws) = min (length (r # rs)) (Suc ?k)" using IH(2) by simp
    moreover have "distinct (w # ws)" "set (w # ws) \<subseteq> idle_ids d" "idle_ids d' = idle_ids d - set (w # ws)"
      using IH(3-5) d1(3,4) by auto
    ultimately show ?thesis using IH(6) unfolding card by blast
  next
    case True
    obtain d1 where d1: "dispatch_run_with assign c r d = (d1, [])" "good d1" "idle_ids d1 = {}"
      and rows: "\<And>i. get_run_row d1 i = map_option (dispatched_row c [] [pr_id r] i) (get_run_row d i)"
      using dispatch_run_full [OF Cons.prems(1) q True] by metis
    have "\<forall>s \<in> set rs. queued_in d1 (pr_id s)" using others [OF _ rows] by simp
    then obtain d' where IH: "dispatch_all_with assign c rs d1 = (d', [])" "idle_ids d' = {}" "good d'"
      and rows': "\<forall>i. get_run_row d' i = map_option (dispatched_row c [] (map pr_id rs) i) (get_run_row d1 i)"
      using Cons.IH [OF d1(2)] Cons.prems(2) d1(3) by auto
    have "get_run_row d' i = map_option (dispatched_row c [] (map pr_id (r # rs)) i) (get_run_row d i)" for i
      using nr by (cases "get_run_row d i") (auto simp: rows' rows dispatched_row_def)
    then show ?thesis using IH d1(1) True by simp
  qed
qed

end

section \<open>What recovery changes\<close>

lemma recovery_simps [simp]:
  "wa_id (timeout_assignment why t a) = wa_id a" "wa_run_id (timeout_assignment why t a) = wa_run_id a"
  "wa_worker_id (timeout_assignment why t a) = wa_worker_id a" "wa_completed_at (timeout_assignment why t a) = Some t"
  "w_id (reset_worker t w) = w_id w" "w_status (reset_worker t w) = WS_IDLE"
  "w_id (give_up t w) = w_id w" "w_status (give_up t w) = WS_IDLE"
  by (simp_all add: timeout_assignment_def reset_worker_def give_up_def)

text \<open>
  A recovery step puts runs in progress back into the queue, makes busy workers
  idle, and nothing else happens to runs and workers.
\<close>

definition run_recovers :: "pipeline_run option \<Rightarrow> pipeline_run option \<Rightarrow> bool" where
  "run_recovers x y \<longleftrightarrow> y = x \<or> (\<exists>r. x = Some r \<and> pr_status r = RS_IN_PROGRESS \<and> y = Some (requeue r))"

definition worker_recovers :: "worker option \<Rightarrow> worker option \<Rightarrow> bool" where
  "worker_recovers x y \<longleftrightarrow> y = x \<or>
     (\<exists>w w'. x = Some w \<and> w_status w \<noteq> WS_OFFLINE \<and> y = Some w' \<and> w_status w' = WS_IDLE)"

definition recovers :: "db \<Rightarrow> db \<Rightarrow> bool" where
  "recovers d d' \<longleftrightarrow> (\<forall>i. run_recovers (get_run_row d i) (get_run_row d' i)
     \<and> worker_recovers (get_worker d i) (get_worker d' i))"

lemma run_recovers_trans: "run_recovers x y \<Longrightarrow> run_recovers y z \<Longrightarrow> run_recovers x z"
  by (auto simp: run_recovers_def)

lemma worker_recovers_trans: "worker_recovers x y \<Longrightarrow> worker_recovers y z \<Longrightarrow> worker_recovers x z"
  by (auto simp: worker_recovers_def)

lemma recovers_refl [simp]: "recovers d d" "run_recovers x x" "worker_recovers y y"
  by (simp_all add: recovers_def run_recovers_def worker_recovers_def)

lemma recovers_trans: "recovers d d1 \<Longrightarrow> recovers d1 d2 \<Longrightarrow> recovers d d2"
  unfolding recovers_def by (blast intro: run_recovers_trans worker_recovers_trans)

lemma recovers_upd_run:
  assumes "\<And>r. pr_id (f r) = pr_id r" "\<And>r. get_run_row d i = Some r \<Longrightarrow> run_recovers (Some r) (Some (f r))"
  shows "recovers d (upd_run i f d)"
  using assms by (cases "get_run_row d i") (simp_all add: recovers_def db_simps)

lemma recovers_upd_worker:
  assumes "\<And>r. w_id (f r) = w_id r" "\<And>r. get_worker d i = Some r \<Longrightarrow> worker_recovers (Some r) (Some (f r))"
  shows "recovers d (upd_worker i f d)"
  using assms by (cases "get_worker d i") (simp_all add: recovers_def db_simps)

lemma recovers_upd_assign [simp]: "recovers d (upd_assign i f d') = recovers d d'"
  by (simp add: recovers_def db_simps)

lemma recovers_expire: "recovers d (expire_assignment why now a d)"
  unfolding expire_assignment_def recovers_upd_assign
  by (rule recovers_upd_run) (simp_all add: run_recovers_def)

lemma fold_recovers:
  assumes "\<And>x d. P d \<Longrightarrow> x \<in> set xs \<Longrightarrow> recovers d (f x d) \<and> P (f x d)" "P d"
  shows "recovers d (fold f xs d) \<and> P (fold f xs d)"
  using assms
proof (induction xs arbitrary: d)
  case (Cons x xs)
  have step: "recovers d (f x d)" "P (f x d)" using Cons.prems by simp_all
  have "recovers (f x d) (fold f xs (f x d)) \<and> P (fold f xs (f x d))"
    using Cons.IH [OF _ step(2)] Cons.prems(1) by simp
  then show ?case using step recovers_trans by auto
qed simp

lemma expire_workers: "get_worker (fold (expire_assignment why now) xs d) = get_worker d"
  by (induction xs arbitrary: d) (simp_all add: expire_assignment_def db_simps)

lemma recovers_worker:
  assumes "\<And>x. get_worker d (w_id w) = Some x \<Longrightarrow> w_status x \<noteq> WS_OFFLINE"
  shows "recovers d (recover_worker why now w d)"
proof -
  let ?d = "fold (expire_assignment why now) (open_of_worker d (w_id w)) d"
  have 1: "recovers d ?d"
    using fold_recovers [where P = "\<lambda>_. True" and f = "expire_assignment why now" and d = d] recovers_expire by blast
  have "recovers ?d (upd_worker (w_id w) (reset_worker now) ?d)"
    using assms by (intro recovers_upd_worker) (simp_all add: expire_workers worker_recovers_def)
  then show ?thesis unfolding recover_worker_def by (rule recovers_trans [OF 1])
qed

lemma recovers_abandon:
  "recovers (fst s) (fst (abandon_assignment now a s)) \<and> runs_t (fst (abandon_assignment now a s)) = runs_t (fst s)"
proof (cases s)
  case (Pair d n)
  have "recovers d (upd_worker (wa_worker_id a) (give_up now) d)"
    if "get_worker d (wa_worker_id a) = Some w" "w_status w = WS_BUSY" for w
    using that by (intro recovers_upd_worker) (auto simp: worker_recovers_def)
  then show ?thesis using Pair
    by (auto simp: abandon_assignment_def Let_def db_simps split: option.split)
qed

lemma recovers_abandon_all:
  "recovers (fst s) (fst (fold (abandon_assignment now) as s))
   \<and> runs_t (fst (fold (abandon_assignment now) as s)) = runs_t (fst s)"
proof (induction as arbitrary: s)
  case (Cons a as)
  show ?case using Cons.IH [of "abandon_assignment now a s"] recovers_abandon [of s now a]
    by (auto intro: recovers_trans)
qed simp

lemma recover_run_eq:
  "recover_run now r s = (let s1 = fold (abandon_assignment now) (open_assignments (fst s) (pr_id r)) s
     in (upd_run (pr_id r) requeue (fst s1), snd s1))"
  by (cases s) (simp add: recover_run_def case_prod_unfold Let_def)

lemma recovers_run:
  assumes "\<And>x. get_run_row (fst s) (pr_id r) = Some x \<Longrightarrow> run_recovers (Some x) (Some (requeue x))"
  shows "recovers (fst s) (fst (recover_run now r s))"
proof -
  let ?s = "fold (abandon_assignment now) (open_assignments (fst s) (pr_id r)) s"
  note f = recovers_abandon_all [of s now "open_assignments (fst s) (pr_id r)"]
  have "recovers (fst ?s) (upd_run (pr_id r) requeue (fst ?s))"
  proof (rule recovers_upd_run)
    fix x assume "get_run_row (fst ?s) (pr_id r) = Some x"
    then have "get_run_row (fst s) (pr_id r) = Some x" using f get_run_row_cong by metis
    then show "run_recovers (Some x) (Some (requeue x))" by (rule assms)
  qed simp
  then show ?thesis using f by (auto simp: recover_run_eq Let_def intro: recovers_trans)
qed

text \<open>The invariants of the database and of the workers survive.\<close>

lemma expire_ok:
  assumes "db_ok d"
  shows "db_ok (expire_assignment why now a d)" "workers_t (expire_assignment why now a d) = workers_t d"
  using assms unfolding expire_assignment_def
  by (intro db_ok_intros; simp) (simp add: db_simps)

lemma expire_all_ok:
  "db_ok d \<Longrightarrow> db_ok (fold (expire_assignment why now) as d) \<and> workers_t (fold (expire_assignment why now) as d) = workers_t d"
  by (induction as arbitrary: d) (simp_all add: expire_ok)

lemma db_ok_recover_worker: "db_ok d \<Longrightarrow> db_ok (recover_worker why now w d)"
  using expire_all_ok [of d why now] unfolding recover_worker_def by (intro db_ok_upd_worker) simp_all

lemma db_ok_abandon: "db_ok (fst s) \<Longrightarrow> db_ok (fst (abandon_assignment now a s))"
  by (cases s) (auto simp: abandon_assignment_def Let_def intro!: db_ok_intros)

lemma db_ok_recover_run: "db_ok (fst s) \<Longrightarrow> db_ok (fst (recover_run now r s))"
proof -
  have f: "db_ok (fst s) \<Longrightarrow> db_ok (fst (fold (abandon_assignment now) as s))" for as s
    by (induction as arbitrary: s) (simp_all add: db_ok_abandon)
  show "db_ok (fst s) \<Longrightarrow> ?thesis"
    using f [of s "open_assignments (fst s) (pr_id r)"] by (auto simp: recover_run_eq Let_def intro!: db_ok_upd_run)
qed

lemma requeue_idem [simp]: "requeue (requeue r) = requeue r"
  by (simp add: requeue_def)

lemma recover_workers_ok:
  assumes "db_ok d" "\<forall>w \<in> set ws. \<exists>x. get_worker d (w_id w) = Some x \<and> w_status x \<noteq> WS_OFFLINE"
  shows "recovers d (fold (recover_worker why now) ws d) \<and> db_ok (fold (recover_worker why now) ws d)"
proof -
  have "recovers c (recover_worker why now w c) \<and> (recovers d (recover_worker why now w c) \<and> db_ok (recover_worker why now w c))"
    if "recovers d c \<and> db_ok c" "w \<in> set ws" for w c
  proof -
    have "recovers c (recover_worker why now w c)"
    proof (rule recovers_worker)
      fix x assume x: "get_worker c (w_id w) = Some x"
      have "worker_recovers (get_worker d (w_id w)) (get_worker c (w_id w))"
        using that(1) by (simp add: recovers_def)
      then show "w_status x \<noteq> WS_OFFLINE" using assms(2) that(2) x by (auto simp: worker_recovers_def)
    qed
    then show ?thesis using that(1) by (auto intro: recovers_trans db_ok_recover_worker)
  qed
  then show ?thesis
    using fold_recovers [where P = "\<lambda>c. recovers d c \<and> db_ok c" and f = "recover_worker why now" and xs = ws and d = d]
      assms(1) by simp
qed

lemma recover_runs_ok:
  assumes "db_ok d" "\<forall>r \<in> set rs. get_run_row d (pr_id r) = Some r \<and> pr_status r = RS_IN_PROGRESS"
  shows "recovers d (fst (fold (recover_run now) rs (d, n))) \<and> db_ok (fst (fold (recover_run now) rs (d, n)))"
proof -
  have "recovers d (fst (fold (recover_run now) rs s)) \<and> db_ok (fst (fold (recover_run now) rs s))"
    if "recovers d (fst s)" "db_ok (fst s)" "\<forall>r \<in> set rs. get_run_row d (pr_id r) = Some r \<and> pr_status r = RS_IN_PROGRESS" for s
    using that
  proof (induction rs arbitrary: s)
    case (Cons r rs)
    have "run_recovers (get_run_row d (pr_id r)) (get_run_row (fst s) (pr_id r))"
      using Cons.prems(1) by (simp add: recovers_def)
    then have "run_recovers (Some x) (Some (requeue x))" if "get_run_row (fst s) (pr_id r) = Some x" for x
      using Cons.prems(3) that by (auto simp: run_recovers_def)
    then have "recovers (fst s) (fst (recover_run now r s))" by (rule recovers_run)
    then have "recovers d (fst (recover_run now r s))" using Cons.prems(1) recovers_trans by blast
    then show ?case using Cons.IH [of "recover_run now r s"] Cons.prems db_ok_recover_run by simp
  qed simp
  then show ?thesis using assms by simp
qed

lemma recover_phases:
  fixes st :: settings and now :: time
  assumes "db_ok d"
  defines "d1 \<equiv> fold (recover_worker ''TIMEOUT'' now) (filter (stale (recovery_cutoff st now)) (workers_t d)) d"
  shows "recovers d d1" "db_ok d1" "recovers d1 (fst (recover_stale_workers st d now))"
    "db_ok (fst (recover_stale_workers st d now))"
proof -
  have "\<forall>w \<in> set (filter (stale (recovery_cutoff st now)) (workers_t d)).
      \<exists>x. get_worker d (w_id w) = Some x \<and> w_status x \<noteq> WS_OFFLINE"
    using worker_tbl.get_mem [OF db_ok_keys(3) [OF assms(1)]] by (auto simp: stale_def)
  then show d1: "recovers d d1" "db_ok d1" using recover_workers_ok [OF assms(1)] by (simp_all add: d1_def)
  have "\<forall>r \<in> set (filter (orphaned (recovery_cutoff st now)) (runs_t d1)).
      get_run_row d1 (pr_id r) = Some r \<and> pr_status r = RS_IN_PROGRESS"
    using run_tbl.get_mem [OF db_ok_keys(1) [OF d1(2)]] by (auto simp: orphaned_def)
  from recover_runs_ok [OF d1(2) this] show "recovers d1 (fst (recover_stale_workers st d now))"
    "db_ok (fst (recover_stale_workers st d now))"
    by (simp_all add: recover_stale_workers_def Let_def d1_def)
qed

lemma recover_worker_idle:
  assumes "get_worker d (w_id w) \<noteq> None"
  shows "\<exists>x. get_worker (recover_worker why now w d) (w_id w) = Some x \<and> w_status x = WS_IDLE"
proof -
  obtain y where "get_worker d (w_id w) = Some y" using assms by blast
  then show ?thesis by (simp add: recover_worker_def db_simps expire_workers)
qed

text \<open>Every assignment of another worker is kept as it is.\<close>

lemma upd_assign_other:
  assumes "db_ok d" "a \<in> set (assigns_t d)" "b \<in> set (assigns_t d)" "a \<noteq> b"
  shows "a \<in> set (assigns_t (upd_assign (wa_id b) f d))"
proof -
  have "wa_id a \<noteq> wa_id b"
    using assign_tbl.get_mem [OF db_ok_keys(4) [OF assms(1)] assms(2)]
      assign_tbl.get_mem [OF db_ok_keys(4) [OF assms(1)] assms(3)] assms(4) by auto
  then show ?thesis using assms(2) by (force simp: assign_tbl.rows_upd set_upd_row)
qed

lemma expire_all_keeps:
  assumes "db_ok d" "a \<in> set (assigns_t d)" "a \<notin> set as" "set as \<subseteq> set (assigns_t d)" "distinct as"
  shows "a \<in> set (assigns_t (fold (expire_assignment why now) as d))"
  using assms
proof (induction as arbitrary: d)
  case (Cons b as)
  have keep: "x \<in> set (assigns_t (expire_assignment why now b d))" if "x \<in> set (assigns_t d)" "x \<noteq> b" for x
  proof -
    have "db_ok (upd_run i (\<lambda>r. if pr_status r = RS_IN_PROGRESS then requeue r else r) d)" for i
      using Cons.prems(1) by (intro db_ok_intros) simp_all
    then show ?thesis unfolding expire_assignment_def
      using that Cons.prems(4) by (intro upd_assign_other) (simp_all add: db_simps)
  qed
  have "set as \<subseteq> set (assigns_t (expire_assignment why now b d))" using keep Cons.prems(4,5) by auto
  then show ?case using Cons.IH [of "expire_assignment why now b d"] Cons.prems keep expire_ok(1) by simp
qed simp

lemma distinct_assigns: "db_ok d \<Longrightarrow> distinct (assigns_t d)"
  using db_ok_keys(4) [of d] by (auto simp: keys_ok_def distinct_map)

lemma recover_worker_keeps:
  assumes "db_ok d" "a \<in> set (assigns_t d)" "wa_worker_id a \<noteq> w_id w"
  shows "a \<in> set (assigns_t (recover_worker why now w d))"
  using assms unfolding recover_worker_def upd_worker_frame
  by (intro expire_all_keeps) (auto simp: open_of_worker_def open_on_def distinct_assigns)

lemma expire_all_requeues:
  assumes "a \<in> set as" "get_run_row d (wa_run_id a) = Some r" "pr_status r = RS_IN_PROGRESS"
  shows "get_run_row (fold (expire_assignment why now) as d) (wa_run_id a) = Some (requeue r)"
  using assms
proof (induction as arbitrary: d)
  case (Cons b as)
  have keepq: "get_run_row (fold (expire_assignment why now) xs c) i = Some (requeue r)"
    if "get_run_row c i = Some (requeue r)" for xs c i
  proof -
    have "get_run_row (expire_assignment why now x c) i = Some (requeue r)"
      if "get_run_row c i = Some (requeue r)" for x c
      using that by (cases "i = wa_run_id x") (auto simp: expire_assignment_def db_simps)
    then show ?thesis using that by (induction xs arbitrary: c) simp_all
  qed
  show ?case
  proof (cases "wa_run_id b = wa_run_id a")
    case True
    then have "get_run_row (expire_assignment why now b d) (wa_run_id a) = Some (requeue r)"
      using Cons.prems(2,3) by (simp add: expire_assignment_def db_simps)
    then show ?thesis by (simp add: keepq)
  next
    case False
    then have "a \<in> set as" using Cons.prems(1) by auto
    moreover have "get_run_row (expire_assignment why now b d) (wa_run_id a) = Some r"
      using False Cons.prems(2) by (simp add: expire_assignment_def db_simps)
    ultimately show ?thesis using Cons.IH [of "expire_assignment why now b d"] Cons.prems(3) by simp
  qed
qed simp

text \<open>The recovery of one stale worker, seen inside the whole phase.\<close>

lemma stale_phase_split:
  fixes now :: time
  assumes "db_ok d" "w \<in> set (workers_t d)" "stale cutoff w"
  obtains c ys where "recovers d c" "db_ok c" "get_worker c (w_id w) \<noteq> None"
    "\<And>a. a \<in> set (assigns_t d) \<Longrightarrow> wa_worker_id a = w_id w \<Longrightarrow> a \<in> set (assigns_t c)"
    "fold (recover_worker ''TIMEOUT'' now) (filter (stale cutoff) (workers_t d)) d = fold (recover_worker ''TIMEOUT'' now) ys (recover_worker ''TIMEOUT'' now w c)"
    "recovers (recover_worker ''TIMEOUT'' now w c) (fold (recover_worker ''TIMEOUT'' now) ys (recover_worker ''TIMEOUT'' now w c))"
proof -
  let ?ws = "filter (stale cutoff) (workers_t d)"
  have "w \<in> set ?ws" using assms by simp
  then obtain xs ys where ws: "?ws = xs @ w # ys" by (meson split_list)
  have sub: "\<forall>v \<in> set (xs @ w # ys). get_worker d (w_id v) = Some v \<and> w_status v \<noteq> WS_OFFLINE"
    unfolding ws [symmetric] using worker_tbl.get_mem [OF db_ok_keys(3) [OF assms(1)]] by (auto simp: stale_def)
  have "distinct (map w_id ?ws)"
    using keys_ok_filter [OF db_ok_keys(3) [OF assms(1)]] by (simp add: keys_ok_def)
  then have ids: "w_id w \<notin> w_id ` set xs" unfolding ws by auto
  let ?c = "fold (recover_worker ''TIMEOUT'' now) xs d"
  have c: "recovers d ?c" "db_ok ?c" using recover_workers_ok [OF assms(1), of xs _ now] sub by auto
  have keep: "a \<in> set (assigns_t (fold (recover_worker ''TIMEOUT'' now) us e)) \<and> db_ok (fold (recover_worker ''TIMEOUT'' now) us e)"
    if "db_ok e" "a \<in> set (assigns_t e)" "wa_worker_id a \<notin> w_id ` set us" for a us e
    using that by (induction us arbitrary: e) (auto simp: db_ok_recover_worker recover_worker_keeps)
  have "worker_recovers (get_worker d (w_id w)) (get_worker ?c (w_id w))" using c(1) by (simp add: recovers_def)
  then have "worker_recovers (Some w) (get_worker ?c (w_id w))" using sub by simp
  then have getc: "get_worker ?c (w_id w) = Some w \<or> (\<exists>x. get_worker ?c (w_id w) = Some x \<and> w_status x = WS_IDLE)"
    by (auto simp: worker_recovers_def)
  have "recovers ?c (recover_worker ''TIMEOUT'' now w ?c)"
    by (rule recovers_worker) (use getc sub in auto)
  then have d2: "recovers d (recover_worker ''TIMEOUT'' now w ?c)" "db_ok (recover_worker ''TIMEOUT'' now w ?c)"
    using c recovers_trans db_ok_recover_worker by blast+
  have "\<forall>v \<in> set ys. \<exists>x. get_worker (recover_worker ''TIMEOUT'' now w ?c) (w_id v) = Some x \<and> w_status x \<noteq> WS_OFFLINE"
  proof
    fix v assume "v \<in> set ys"
    then have "get_worker d (w_id v) = Some v" "w_status v \<noteq> WS_OFFLINE" using sub by auto
    moreover have "worker_recovers (get_worker d (w_id v)) (get_worker (recover_worker ''TIMEOUT'' now w ?c) (w_id v))"
      using d2(1) by (simp add: recovers_def)
    ultimately show "\<exists>x. get_worker (recover_worker ''TIMEOUT'' now w ?c) (w_id v) = Some x \<and> w_status x \<noteq> WS_OFFLINE"
      by (auto simp: worker_recovers_def)
  qed
  then have "recovers (recover_worker ''TIMEOUT'' now w ?c) (fold (recover_worker ''TIMEOUT'' now) ys (recover_worker ''TIMEOUT'' now w ?c))"
    using recover_workers_ok [OF d2(2)] by blast
  then show thesis using that [OF c(1,2), of ys] getc keep [OF assms(1)] ids ws by auto
qed

lemma abandon_all_rows:
  "get_run_row (fst (fold (abandon_assignment now) as s)) = get_run_row (fst s)"
  using recovers_abandon_all [of s now as] by (simp add: fun_eq_iff get_run_row_def)

lemma orphan_requeued:
  assumes "db_ok d" "r \<in> set rs" "\<forall>r \<in> set rs. get_run_row d (pr_id r) = Some r \<and> pr_status r = RS_IN_PROGRESS"
  shows "get_run_row (fst (fold (recover_run now) rs (d, n))) (pr_id r) = Some (requeue r)"
proof -
  obtain xs ys where rs: "rs = xs @ r # ys" using assms(2) by (meson split_list)
  let ?s = "fold (recover_run now) xs (d, n)" and ?t = "fold (recover_run now) rs (d, n)"
  have r: "get_run_row d (pr_id r) = Some r" using assms(2,3) by simp
  have "recovers d (fst ?s)" using recover_runs_ok [OF assms(1), of xs now n] assms(3) rs by simp
  then have "run_recovers (get_run_row d (pr_id r)) (get_run_row (fst ?s) (pr_id r))"
    by (simp add: recovers_def)
  then have s: "get_run_row (fst ?s) (pr_id r) = Some r \<or> get_run_row (fst ?s) (pr_id r) = Some (requeue r)"
    using r by (auto simp: run_recovers_def)
  have step: "get_run_row (fst (recover_run now r ?s)) (pr_id r) = Some (requeue r)"
    using s by (auto simp: recover_run_eq Let_def db_simps abandon_all_rows)
  have keep: "get_run_row (fst (recover_run now q c)) i = Some (requeue r)"
    if "get_run_row (fst c) i = Some (requeue r)" for q c i
    using that by (auto simp: recover_run_eq Let_def db_simps abandon_all_rows)
  have "get_run_row (fst (fold (recover_run now) us c)) (pr_id r) = Some (requeue r)"
    if "get_run_row (fst c) (pr_id r) = Some (requeue r)" for us c
    using that by (induction us arbitrary: c) (simp_all add: keep)
  then show ?thesis using step by (simp add: rs)
qed

section \<open>The order of dispatch\<close>

definition dispatch_key :: "string \<Rightarrow> pipeline_run \<Rightarrow> int \<times> time" where
  "dispatch_key mode r = (if mode = ''Priority'' then run_priority r else 0, pr_queued_at r)"

lemma queue_order_key: "queue_order mode rs = sort_key (dispatch_key mode) rs"
proof (cases "mode = ''Priority''")
  case True
  then have "dispatch_key mode = (\<lambda>r. (run_priority r, pr_queued_at r))" by (simp add: dispatch_key_def fun_eq_iff)
  then show ?thesis using True by (simp add: queue_order_def)
next
  case False
  have "insort_key pr_queued_at x ys = insort_key (dispatch_key mode) x ys" for x :: pipeline_run and ys
    using False by (induction ys) (auto simp: dispatch_key_def)
  then have "sort_key pr_queued_at rs = sort_key (dispatch_key mode) rs"
    by (induction rs) simp_all
  then show ?thesis using False by (simp add: queue_order_def)
qed

lemma sorted_queue: "sorted (map (dispatch_key mode) (queue_order mode rs))"
  by (simp add: queue_order_key)

lemma set_queue_order [simp]: "set (queue_order mode rs) = set rs"
  by (simp add: queue_order_key)

lemma length_queue_order [simp]: "length (queue_order mode rs) = length rs"
  by (simp add: queue_order_key)

lemma distinct_queue: "db_ok d \<Longrightarrow> distinct (map pr_id (queued_runs st mode d))"
proof -
  assume "db_ok d"
  then have "distinct (map pr_id (filter waiting (runs_t d)))"
    using keys_ok_filter [OF db_ok_keys(1)] by (simp add: keys_ok_def)
  then have "inj_on pr_id (set (queue_order mode (filter waiting (runs_t d))))
      \<and> distinct (queue_order mode (filter waiting (runs_t d)))"
    by (simp add: distinct_map queue_order_key)
  then show ?thesis unfolding queued_runs_def by (meson distinct_map distinct_take inj_on_subset set_take_subset)
qed

lemma queued_runs_waiting: "r \<in> set (queued_runs st mode d) \<Longrightarrow> r \<in> set (runs_t d) \<and> waiting r"
  unfolding queued_runs_def by (auto dest: in_set_takeD)

text \<open>An item of a sorted list that is smaller than one of a prefix lies in the prefix.\<close>

lemma sorted_prefix_closed:
  assumes "sorted (map f xs)" "x \<in> set (take k xs)" "y \<in> set xs" "f y < f x"
  shows "y \<in> set (take k xs)"
proof (rule ccontr)
  assume n: "y \<notin> set (take k xs)"
  have "set xs = set (take k xs) \<union> set (drop k xs)" by (metis append_take_drop_id set_append)
  then have "y \<in> set (drop k xs)" using assms(3) n by blast
  moreover have "sorted (map f (take k xs @ drop k xs))" using assms(1) by simp
  ultimately have "f x \<le> f y" using assms(2) unfolding map_append sorted_append by auto
  then show False using assms(4) by simp
qed

text \<open>The dispatch loop of a tick after recovery, in one fact.\<close>

lemma tick_dispatch:
  assumes "db_ok d"
  defines "k \<equiv> card (idle_ids d)"
  shows "\<exists>ws d'. dispatch_all c (queued_runs st mode d) d =
        (d', map2 (\<lambda>r w. ExecuteRun (pr_id r) w (stage_names r)) (take k (queued_runs st mode d)) ws)
      \<and> length ws = min (length (queued_runs st mode d)) k \<and> distinct ws \<and> set ws \<subseteq> idle_ids d
      \<and> idle_ids d' = idle_ids d - set ws
      \<and> (\<forall>i. get_run_row d' i = map_option (dispatched_row c
            (map pr_id (take k (queued_runs st mode d))) (map pr_id (drop k (queued_runs st mode d))) i)
            (get_run_row d i))"
proof -
  have "\<forall>r \<in> set (queued_runs st mode d). queued_in d (pr_id r)"
    using queued_runs_waiting run_tbl.get_mem [OF db_ok_keys(1) [OF assms(1)]]
    by (auto simp: queued_in_def waiting_def)
  then show ?thesis
    using pool.dispatch_all_queue [of d "queued_runs st mode d" c] distinct_queue [OF assms(1), of st mode]
      db_ok_keys(3) [OF assms(1)]
    unfolding k_def worker_keys_ok_def by blast
qed

abbreviation after_recovery :: "settings \<Rightarrow> db \<Rightarrow> tick_clock \<Rightarrow> db" where
  "after_recovery st d c \<equiv> fst (recover_stale_workers st d (tc_recover c))"

lemma scheduler_tick_effects:
  assumes "use_celery \<or> threads < MAX_CONCURRENT_EXECUTIONS st"
  shows "fst (snd (scheduler_tick st mode use_celery threads d c)) =
    snd (dispatch_all c (queued_runs st mode (after_recovery st d c)) (after_recovery st d c))"
  using assms by (auto simp: scheduler_tick_def Let_def case_prod_unfold split: sum.split)

section \<open>Properties of recovery\<close>

lemma recovery_leaves_no_stale:
  assumes "db_ok d" "w \<in> set (workers_t (fst (recover_stale_workers st d now)))"
  shows "\<not> stale (recovery_cutoff st now) w"
proof
  let ?d' = "fst (recover_stale_workers st d now)" and ?cut = "recovery_cutoff st now"
  let ?d1 = "fold (recover_worker ''TIMEOUT'' now) (filter (stale ?cut) (workers_t d)) d"
  assume st: "stale ?cut w"
  note ph = recover_phases [OF assms(1), where st = st and now = now]
  have g': "get_worker ?d' (w_id w) = Some w"
    using worker_tbl.get_mem [OF db_ok_keys(3) [OF ph(4)] assms(2)] .
  have busy: "w_status w = WS_BUSY" using st by (simp add: stale_def)
  have "worker_recovers (get_worker ?d1 (w_id w)) (get_worker ?d' (w_id w))"
    "worker_recovers (get_worker d (w_id w)) (get_worker ?d1 (w_id w))"
    using ph(1,3) by (simp_all add: recovers_def)
  then have g: "get_worker ?d1 (w_id w) = Some w" "get_worker d (w_id w) = Some w"
    using g' busy by (auto simp: worker_recovers_def)
  then have "w \<in> set (workers_t d)" using worker_tbl.get_SomeD by blast
  then obtain c ys where "get_worker c (w_id w) \<noteq> None" "?d1 = fold (recover_worker ''TIMEOUT'' now) ys (recover_worker ''TIMEOUT'' now w c)"
    "recovers (recover_worker ''TIMEOUT'' now w c) (fold (recover_worker ''TIMEOUT'' now) ys (recover_worker ''TIMEOUT'' now w c))"
    using stale_phase_split [OF assms(1) _ st, of now] by metis
  then have "worker_recovers (get_worker (recover_worker ''TIMEOUT'' now w c) (w_id w)) (get_worker ?d1 (w_id w))"
    "\<exists>x. get_worker (recover_worker ''TIMEOUT'' now w c) (w_id w) = Some x \<and> w_status x = WS_IDLE"
    using recover_worker_idle [of c w "''TIMEOUT''" now] by (simp_all add: recovers_def)
  then have "worker_recovers (get_worker (recover_worker ''TIMEOUT'' now w c) (w_id w)) (Some w)"
    "\<exists>x. get_worker (recover_worker ''TIMEOUT'' now w c) (w_id w) = Some x \<and> w_status x = WS_IDLE"
    unfolding g(1) by simp_all
  then show False using busy by (auto simp: worker_recovers_def)
qed

lemma recovery_leaves_no_orphan:
  assumes "db_ok d" "r \<in> set (runs_t (fst (recover_stale_workers st d now)))"
  shows "\<not> orphaned (recovery_cutoff st now) r"
proof
  let ?d' = "fst (recover_stale_workers st d now)" and ?cut = "recovery_cutoff st now"
  let ?d1 = "fold (recover_worker ''TIMEOUT'' now) (filter (stale ?cut) (workers_t d)) d"
  let ?rs = "filter (orphaned ?cut) (runs_t ?d1)"
  assume o: "orphaned ?cut r"
  note ph = recover_phases [OF assms(1), where st = st and now = now]
  have g': "get_run_row ?d' (pr_id r) = Some r"
    using run_tbl.get_mem [OF db_ok_keys(1) [OF ph(4)] assms(2)] .
  have "run_recovers (get_run_row ?d1 (pr_id r)) (get_run_row ?d' (pr_id r))"
    using ph(3) by (simp add: recovers_def)
  then have "get_run_row ?d1 (pr_id r) = Some r"
    using g' o by (auto simp: run_recovers_def orphaned_def)
  then have "r \<in> set ?rs" using o run_tbl.get_SomeD [of ?d1] by simp
  moreover have "\<forall>r \<in> set ?rs. get_run_row ?d1 (pr_id r) = Some r \<and> pr_status r = RS_IN_PROGRESS"
    using run_tbl.get_mem [OF db_ok_keys(1) [OF ph(2)]] by (auto simp: orphaned_def)
  ultimately have "get_run_row ?d' (pr_id r) = Some (requeue r)"
    using orphan_requeued [OF ph(2)] by (simp add: recover_stale_workers_def Let_def)
  then show False using g' o by (simp add: orphaned_def) (metis requeue_simps(2) run_status.distinct(1))
qed



section \<open>Properties of dispatch\<close>

text \<open>
  C6: a tick that is not skipped starts exactly the first \<open>k\<close> runs of the queue,
  in its order, where \<open>k\<close> is the number of idle workers, each on a different
  worker that was idle; the started runs are in progress, the rest of the queue
  is queued as before, all other runs are untouched.
\<close>

theorem tick_starts_queue_prefix:
  fixes st :: settings and c :: tick_clock and mode :: string
  assumes "db_ok d" "use_celery \<or> threads < MAX_CONCURRENT_EXECUTIONS st"
  defines "d1 \<equiv> after_recovery st d c"
  defines "q \<equiv> queued_runs st mode d1" and "k \<equiv> card (idle_ids d1)"
  shows "\<exists>ws. fst (snd (scheduler_tick st mode use_celery threads d c)) =
        map2 (\<lambda>r w. ExecuteRun (pr_id r) w (stage_names r)) (take k q) ws
      \<and> length ws = min (length q) k \<and> distinct ws \<and> set ws \<subseteq> idle_ids d1
      \<and> (\<forall>i. get_run_row (fst (dispatch_all c q d1)) i =
           map_option (dispatched_row c (map pr_id (take k q)) (map pr_id (drop k q)) i) (get_run_row d1 i))"
proof -
  have "db_ok d1" unfolding d1_def using recover_phases(4) [OF assms(1)] .
  from tick_dispatch [OF this, of c st mode] show ?thesis
    unfolding q_def k_def scheduler_tick_effects [OF assms(2)] d1_def by auto
qed

lemma idle_one_db: "idle_ids example_db = {1, 2}"
proof -
  have "idle_ids example_db = set (map w_id (filter (\<lambda>w. w_status w = WS_IDLE) (workers_t example_db)))"
    by (auto simp: idle_ids_def)
  then show ?thesis by (simp add: example_db_def example_worker_def new_worker_def)
qed

definition quiet_clock :: tick_clock where
  "quiet_clock = \<lparr>tc_recover = 10, tc_claim = (\<lambda>i. 11), tc_assign = (\<lambda>i. 12), tc_retry = 13\<rparr>"

definition queue_db :: db where
  "queue_db = example_db\<lparr>
     runs_t := [(new_run ''https://x/a/b'' ''feature/x'' None None ''api'' ''j'' [''Build''] (mk_priority 5 ''p'') 5)\<lparr>pr_id := 1\<rparr>,
                (new_run ''https://x/a/b'' ''main'' None None ''api'' ''j'' [''Build''] (mk_priority 2 ''p'') 7)\<lparr>pr_id := 2\<rparr>,
                (new_run ''https://x/a/b'' ''z'' None None ''api'' ''j'' [''Build''] (mk_priority 6 ''p'') 1)\<lparr>pr_id := 3\<rparr>],
     next_run := 4\<rparr>"

lemma queue_db_ok: "db_ok queue_db"
  by (simp add: queue_db_def example_db_def example_worker_def new_worker_def db_ok_def tables_ok_def
      refs_ok_def keys_ok_def empty_db_def new_run_def get_run_row_def get_worker_def get_row_def)

theorem tick_starts_queue_prefix_witness:
  "\<exists>ws. fst (snd (scheduler_tick default_settings ''Priority'' True 0 queue_db quiet_clock)) =
      map2 (\<lambda>r w. ExecuteRun (pr_id r) w (stage_names r))
        (take (card (idle_ids (after_recovery default_settings queue_db quiet_clock)))
          (queued_runs default_settings ''Priority'' (after_recovery default_settings queue_db quiet_clock))) ws
    \<and> distinct ws"
  using tick_starts_queue_prefix [OF queue_db_ok, where use_celery = True and threads = 0
      and st = default_settings and c = quiet_clock and mode = "''Priority''"] by auto

text \<open>
  C5: nothing overtakes: when a tick starts a run, every run of the real queue
  that comes strictly before it (smaller priority value, then earlier queued; in
  FIFO mode earlier queued) is started by the same tick, and at most the
  configured number of runs is started.
\<close>

theorem tick_no_overtaking:
  fixes st :: settings and c :: tick_clock and mode :: string
  assumes "db_ok d" "use_celery \<or> threads < MAX_CONCURRENT_EXECUTIONS st"
  defines "d1 \<equiv> after_recovery st d c"
    and "es \<equiv> fst (snd (scheduler_tick st mode use_celery threads d c))"
  assumes "ExecuteRun i w ss \<in> set es" "get_run_row d1 i = Some r"
    and "r' \<in> set (runs_t d1)" "waiting r'" "dispatch_key mode r' < dispatch_key mode r"
  shows "(\<exists>w'. ExecuteRun (pr_id r') w' (stage_names r') \<in> set es) \<and> length es \<le> MAX_CONCURRENT_EXECUTIONS st"
proof -
  let ?q = "queue_order mode (filter waiting (runs_t d1))"
  let ?n = "MAX_CONCURRENT_EXECUTIONS st" and ?k = "card (idle_ids d1)"
  have ok: "db_ok d1" unfolding d1_def using recover_phases(4) [OF assms(1)] .
  obtain ws where es: "es = map2 (\<lambda>r w. ExecuteRun (pr_id r) w (stage_names r)) (take ?k (queued_runs st mode d1)) ws"
      and len: "length ws = min (length (queued_runs st mode d1)) ?k"
    using tick_dispatch [OF ok, of c st mode] unfolding es_def d1_def scheduler_tick_effects [OF assms(2)] by auto
  let ?l = "take ?k (queued_runs st mode d1)"
  have l: "?l = take (min ?k ?n) ?q" by (simp add: queued_runs_def)
  have lw: "length ws = length ?l" using len by simp
  from assms(5) obtain x where x: "x \<in> set ?l" "pr_id x = i"
    unfolding es by (auto dest: set_zip_leftD)
  have "x \<in> set (runs_t d1)"
    using x(1) queued_runs_waiting by (metis in_set_takeD)
  then have "r = x" using run_tbl.get_mem [OF db_ok_keys(1) [OF ok]] x(2) assms(6) by fastforce
  moreover have "r' \<in> set ?q" using assms(7,8) by simp
  ultimately have "r' \<in> set ?l" using x(1) sorted_prefix_closed [OF sorted_queue] assms(9) unfolding l by metis
  then obtain j where j: "j < length ?l" "?l ! j = r'" by (meson in_set_conv_nth)
  have "length es = length ?l" "es ! j = ExecuteRun (pr_id r') (ws ! j) (stage_names r')"
    unfolding es using j lw by simp_all
  then have "ExecuteRun (pr_id r') (ws ! j) (stage_names r') \<in> set es" using j(1) by (metis nth_mem)
  moreover have "length ?l \<le> ?n" unfolding l by simp
  ultimately show ?thesis using \<open>length es = length ?l\<close> by auto
qed

lemma queue_db_recovery: "after_recovery default_settings queue_db quiet_clock = queue_db"
  by (simp add: recover_stale_workers_def queue_db_def example_db_def example_worker_def new_worker_def stale_def
      orphaned_def new_run_def recovery_cutoff_def default_settings_def seconds_def quiet_clock_def)

lemma queue_db_queue: "map pr_id (queued_runs default_settings ''Priority'' queue_db) = [2, 1, 3]"
  by code_simp

lemma queue_db_stages: "list_all (\<lambda>r. stage_names r = [''Build'']) (runs_t queue_db)"
  by code_simp

lemma second_of_map2:
  assumes "length ws = min (length q) 2" "2 \<le> length q"
  shows "f (q ! 1) (ws ! 1) \<in> set (map2 f (take 2 q) ws)"
proof -
  obtain a b q' where q: "q = a # b # q'" using assms(2) by (cases q; cases "tl q") auto
  obtain v w where "ws = [v, w]" using assms by (cases ws; cases "tl ws") (auto simp: q min_def split: if_splits)
  then show ?thesis by (simp add: q)
qed

lemma queue_db_tick:
  "\<exists>w. ExecuteRun 1 w [''Build''] \<in>
     set (fst (snd (scheduler_tick default_settings ''Priority'' True 0 queue_db quiet_clock)))"
proof -
  let ?q = "queued_runs default_settings ''Priority'' queue_db"
  have card: "card (idle_ids queue_db) = 2"
    using idle_one_db by (simp add: queue_db_def idle_ids_def)
  obtain ws where ws: "fst (snd (scheduler_tick default_settings ''Priority'' True 0 queue_db quiet_clock)) =
        map2 (\<lambda>r w. ExecuteRun (pr_id r) w (stage_names r)) (take 2 ?q) ws" "length ws = min (length ?q) 2"
    using tick_dispatch [OF queue_db_ok, of quiet_clock default_settings "''Priority''"] card
      scheduler_tick_effects [of True 0 default_settings "''Priority''" queue_db quiet_clock]
    by (auto simp: queue_db_recovery)
  have q: "length ?q = 3" "pr_id (?q ! 1) = 1"
    using queue_db_queue by (auto simp: map_eq_Cons_conv)
  have mem: "?q ! 1 \<in> set (runs_t queue_db)" using queued_runs_waiting q(1) by (metis nth_mem one_less_numeral_iff semiring_norm(77))
  have st: "stage_names (?q ! 1) = [''Build'']" by (rule bspec [OF queue_db_stages [unfolded list_all_iff] mem])
  have "2 \<le> length ?q" unfolding q(1) by simp
  from second_of_map2 [OF ws(2) this, of "\<lambda>r w. ExecuteRun (pr_id r) w (stage_names r)"]
  have "ExecuteRun 1 (ws ! 1) [''Build''] \<in> set (map2 (\<lambda>r w. ExecuteRun (pr_id r) w (stage_names r)) (take 2 ?q) ws)"
    unfolding q(2) st .
  then show ?thesis unfolding ws(1) by blast
qed

theorem tick_no_overtaking_witness:
  "\<exists>w. ExecuteRun 2 w [''Build''] \<in>
     set (fst (snd (scheduler_tick default_settings ''Priority'' True 0 queue_db quiet_clock)))"
proof -
  let ?r = "runs_t queue_db ! 0" and ?s = "runs_t queue_db ! 1"
  obtain w where w: "ExecuteRun 1 w [''Build''] \<in>
     set (fst (snd (scheduler_tick default_settings ''Priority'' True 0 queue_db quiet_clock)))"
    using queue_db_tick by blast
  have a: "get_run_row queue_db 1 = Some ?r" "?s \<in> set (runs_t queue_db)"
    "dispatch_key ''Priority'' ?s < dispatch_key ''Priority'' ?r"
    by (simp_all add: queue_db_def get_run_row_def get_row_def dispatch_key_def run_priority_def
        branch_priority_expr_def new_run_def)
  have b: "waiting ?s" by code_simp
  have s: "pr_id ?s = 2" "stage_names ?s = [''Build'']" by code_simp+
  from tick_no_overtaking [OF queue_db_ok disjI1 [OF TrueI] w, unfolded queue_db_recovery, OF a(1,2) b a(3)]
  show ?thesis unfolding s by blast
qed

section \<open>Properties of automatic retries\<close>

text \<open>The phase as a total function on rows, and when it raises.\<close>

definition backoff_delay :: "settings \<Rightarrow> pipeline_run \<Rightarrow> time" where
  "backoff_delay st r = seconds (PIPELINE_RETRY_BACKOFF_SECONDS st
     ! min (nat (pr_retry_count r)) (length (PIPELINE_RETRY_BACKOFF_SECONDS st) - 1))"

definition retry_row :: "settings \<Rightarrow> time \<Rightarrow> pipeline_run \<Rightarrow> pipeline_run" where
  "retry_row st now r =
     (if \<not> retry_eligible r then r
      else case pr_retry_after r of
          None \<Rightarrow> r\<lparr>pr_retry_after := Some (now + backoff_delay st r)\<rparr>
        | Some t \<Rightarrow> if t \<le> now then retried r else r)"

lemma mapM_res_total: "list_all (\<lambda>x. f x = Inr (g x)) xs \<Longrightarrow> mapM_res f xs = Inr (map g xs)"
  by (induction xs) auto

lemma mapM_res_raises: "x \<in> set xs \<Longrightarrow> f x = Inl e \<Longrightarrow> \<exists>e'. mapM_res f xs = Inl e'"
proof (induction xs)
  case (Cons y ys)
  show ?case
  proof (cases "f y")
    case (Inr z)
    then have "x \<in> set ys" using Cons.prems by auto
    then show ?thesis using Cons Inr by auto
  qed auto
qed simp

lemma auto_retry_total:
  assumes "PIPELINE_RETRY_BACKOFF_SECONDS st \<noteq> []" "0 \<le> pr_retry_count r" "retry_eligible r"
  shows "auto_retry (PIPELINE_RETRY_BACKOFF_SECONDS st) now r = Inr (retry_row st now r)"
proof -
  let ?b = "PIPELINE_RETRY_BACKOFF_SECONDS st"
  let ?i = "min (pr_retry_count r) (int (length ?b) - 1)"
  have "1 \<le> int (length ?b)" using assms(1) by (cases ?b) simp_all
  then have "0 \<le> ?i" "?i < int (length ?b)" "nat ?i = min (nat (pr_retry_count r)) (length ?b - 1)"
    using assms(2) by (auto simp: min_def nat_diff_distrib)
  then have "py_index ?b ?i = Inr (?b ! min (nat (pr_retry_count r)) (length ?b - 1))"
    by (simp only: py_index_in)
  then show ?thesis using assms(3) by (simp add: auto_retry_def retry_row_def backoff_delay_def split: option.split)
qed

definition counts_ok :: "db \<Rightarrow> bool" where
  "counts_ok d \<longleftrightarrow> list_all (\<lambda>r. 0 \<le> pr_retry_count r) (runs_t d)"

lemma retry_phase_total:
  assumes "PIPELINE_RETRY_BACKOFF_SECONDS st \<noteq> []" "counts_ok d"
  shows "retry_phase st now d = Inr (d\<lparr>runs_t := map (retry_row st now) (runs_t d)\<rparr>)"
proof -
  have "list_all (\<lambda>r. (if retry_eligible r then auto_retry (PIPELINE_RETRY_BACKOFF_SECONDS st) now r else Inr r)
      = Inr (retry_row st now r)) (runs_t d)"
    using assms auto_retry_total by (auto simp: list_all_iff counts_ok_def retry_row_def)
  then show ?thesis by (simp add: retry_phase_def mapM_res_total)
qed

lemma retried_simps [simp]:
  "pr_id (retried r) = pr_id r" "pr_status (retried r) = RS_QUEUED" "pr_retry_count (retried r) = pr_retry_count r + 1"
  "pr_max_retries (retried r) = pr_max_retries r" "pr_started_at (retried r) = None" "pr_completed_at (retried r) = None"
  "pr_retry_after (retried r) = None" "pr_jenkins_build_url (retried r) = pr_jenkins_build_url r"
  "pr_jenkins_build_number (retried r) = pr_jenkins_build_number r"
  "pr_repo_url (retried r) = pr_repo_url r" "pr_triggered_by (retried r) = pr_triggered_by r"
  by (simp_all add: retried_def)

lemma retry_row_keys [simp]:
  "pr_id (retry_row st now r) = pr_id r" "pr_max_retries (retry_row st now r) = pr_max_retries r"
  by (auto simp: retry_row_def split: option.split)

lemma retry_row_bounds:
  "pr_retry_count r \<le> pr_max_retries r \<Longrightarrow> pr_retry_count (retry_row st now r) \<le> pr_max_retries r"
  "pr_retry_count r \<le> pr_retry_count (retry_row st now r)"
  by (auto simp: retry_row_def retry_eligible_def split: option.split)

lemma get_run_map_runs:
  assumes "\<And>r. pr_id (f r) = pr_id r"
  shows "get_run_row (d\<lparr>runs_t := map f (runs_t d)\<rparr>) i = map_option f (get_run_row d i)"
proof -
  have "get_row pr_id i (map f rs) = map_option f (get_row pr_id i rs)" for rs
    by (induction rs) (auto simp: get_row_def assms)
  then show ?thesis by (simp add: get_run_row_def)
qed

text \<open>
  C9: a failed real run with retries left is put back into the queue by the
  second of two retry phases that are at least its backoff delay apart, with its
  count raised by one and its times cleared, whatever made it fail, and still
  with the build number and URL of the failed build.
\<close>

theorem failed_run_is_retried:
  assumes "PIPELINE_RETRY_BACKOFF_SECONDS st \<noteq> []" "counts_ok d"
    and "get_run_row d i = Some r" "retry_eligible r" "pr_retry_after r = None"
    and "t1 + backoff_delay st r \<le> t2"
  shows "\<exists>d' d''. retry_phase st t1 d = Inr d' \<and> retry_phase st t2 d' = Inr d''
    \<and> (\<exists>r'. get_run_row d'' i = Some r' \<and> pr_status r' = RS_QUEUED \<and> pr_retry_count r' = pr_retry_count r + 1
         \<and> pr_started_at r' = None \<and> pr_completed_at r' = None
         \<and> pr_jenkins_build_number r' = pr_jenkins_build_number r
         \<and> pr_jenkins_build_url r' = pr_jenkins_build_url r)"
proof -
  let ?d' = "d\<lparr>runs_t := map (retry_row st t1) (runs_t d)\<rparr>"
  let ?d'' = "?d'\<lparr>runs_t := map (retry_row st t2) (runs_t ?d')\<rparr>"
  have "0 \<le> pr_retry_count x \<Longrightarrow> 0 \<le> pr_retry_count (retry_row st t1 x)" for x
    using retry_row_bounds(2) [of x st t1] by linarith
  then have "counts_ok ?d'" using assms(2) by (simp add: counts_ok_def list_all_iff)
  then have phases: "retry_phase st t1 d = Inr ?d'" "retry_phase st t2 ?d' = Inr ?d''"
    using retry_phase_total [OF assms(1)] assms(2) by blast+
  let ?r1 = "r\<lparr>pr_retry_after := Some (t1 + backoff_delay st r)\<rparr>"
  have r1: "retry_row st t1 r = ?r1" using assms(4,5) by (simp add: retry_row_def)
  have "retry_eligible ?r1"
    using assms(4) real_pipeline_run_cong [of r ?r1] by (simp add: retry_eligible_def)
  then have "retry_row st t2 ?r1 = retried ?r1" using assms(6) by (simp add: retry_row_def)
  moreover have "get_run_row ?d'' i = Some (retry_row st t2 (retry_row st t1 r))"
    using assms(3) by (simp only: get_run_map_runs retry_row_keys option.map)
  ultimately have "get_run_row ?d'' i = Some (retried ?r1)" using r1 by simp
  then show ?thesis using phases by fastforce
qed

definition failed_db :: db where
  "failed_db = queue_db\<lparr>runs_t := map (\<lambda>r. r\<lparr>pr_status := RS_FAILED, pr_jenkins_build_number := Some 4\<rparr>) (runs_t queue_db)\<rparr>"

theorem failed_run_is_retried_witness:
  "\<exists>d' d''. retry_phase default_settings 0 failed_db = Inr d' \<and> retry_phase default_settings (seconds 60) d' = Inr d''
    \<and> (\<exists>r'. get_run_row d'' 2 = Some r' \<and> pr_status r' = RS_QUEUED \<and> pr_retry_count r' = 1
         \<and> pr_jenkins_build_number r' = Some 4)"
proof -
  let ?r = "runs_t failed_db ! 1"
  have h: "PIPELINE_RETRY_BACKOFF_SECONDS default_settings \<noteq> []" "counts_ok failed_db"
    "get_run_row failed_db 2 = Some ?r" "pr_retry_after ?r = None" "0 + backoff_delay default_settings ?r \<le> seconds 60"
    "pr_retry_count ?r = 0" "pr_jenkins_build_number ?r = Some 4"
    by (simp_all add: default_settings_def counts_ok_def failed_db_def queue_db_def new_run_def get_run_row_def
        get_row_def backoff_delay_def)
  have "retry_eligible ?r" by code_simp
  from failed_run_is_retried [OF h(1-3) this h(4,5)] show ?thesis unfolding h(6,7) by auto
qed

text \<open>
  C32: Retries are bounded: a phase that commits keeps \<open>retry_count \<le> max_retries\<close>
  and never lowers a count, and a run that used up its retries is not changed.
\<close>

theorem retries_bounded:
  assumes "PIPELINE_RETRY_BACKOFF_SECONDS st \<noteq> []" "counts_ok d" "retry_phase st now d = Inr d'"
    and "get_run_row d i = Some r" "pr_retry_count r \<le> pr_max_retries r"
  shows "\<exists>r'. get_run_row d' i = Some r' \<and> pr_retry_count r \<le> pr_retry_count r'
    \<and> pr_retry_count r' \<le> pr_max_retries r' \<and> (pr_retry_count r = pr_max_retries r \<longrightarrow> r' = r)"
proof -
  have "d' = d\<lparr>runs_t := map (retry_row st now) (runs_t d)\<rparr>"
    using retry_phase_total [OF assms(1,2), of now] assms(3) by simp
  then have "get_run_row d' i = Some (retry_row st now r)"
    using assms(4) by (simp only: get_run_map_runs retry_row_keys option.map)
  moreover have "retry_row st now r = r" if "pr_retry_count r = pr_max_retries r"
    using that by (simp add: retry_row_def retry_eligible_def)
  ultimately show ?thesis using retry_row_bounds [of r st now] assms(5) by auto
qed

theorem retries_bounded_witness:
  "\<exists>d' r'. retry_phase default_settings 0 failed_db = Inr d' \<and> get_run_row d' 2 = Some r' \<and> pr_retry_count r' \<le> 2"
proof -
  let ?r = "runs_t failed_db ! 1"
  have h: "PIPELINE_RETRY_BACKOFF_SECONDS default_settings \<noteq> []" "counts_ok failed_db"
    "get_run_row failed_db 2 = Some ?r" "pr_retry_count ?r \<le> pr_max_retries ?r" "pr_max_retries ?r = 2"
    by (simp_all add: default_settings_def counts_ok_def failed_db_def queue_db_def new_run_def get_run_row_def
        get_row_def)
  let ?d' = "failed_db\<lparr>runs_t := map (retry_row default_settings 0) (runs_t failed_db)\<rparr>"
  have p: "retry_phase default_settings 0 failed_db = Inr ?d'" by (rule retry_phase_total [OF h(1,2)])
  have "get_run_row ?d' 2 = Some (retry_row default_settings 0 ?r)"
    unfolding get_run_map_runs [OF retry_row_keys(1)] h(3) by simp
  then have "pr_max_retries (retry_row default_settings 0 ?r) = 2" using h(5) by simp
  moreover obtain r' where "get_run_row ?d' 2 = Some r'" "pr_retry_count r' \<le> pr_max_retries r'"
    using retries_bounded [OF h(1,2) p h(3,4)] by blast
  ultimately show ?thesis using p \<open>get_run_row ?d' 2 = Some (retry_row default_settings 0 ?r)\<close> by auto
qed

text \<open>
  With an empty list of backoff delays the phase raises for every database
  that has a newly failed run with retries left: no retry of any run happens
  then, the tick ends with the error.
\<close>

theorem empty_backoff_raises:
  assumes "PIPELINE_RETRY_BACKOFF_SECONDS st = []" "r \<in> set (runs_t d)" "retry_eligible r" "pr_retry_after r = None"
  shows "\<exists>e. retry_phase st now d = Inl e"
proof -
  let ?f = "\<lambda>r. if retry_eligible r then auto_retry (PIPELINE_RETRY_BACKOFF_SECONDS st) now r else Inr r"
  have "?f r = Inl IndexError" using assms by (simp add: auto_retry_def)
  then show ?thesis using mapM_res_raises [of r "runs_t d" ?f] assms(2) by (auto simp: retry_phase_def)
qed

theorem empty_backoff_raises_witness:
  "\<exists>e. retry_phase (default_settings\<lparr>PIPELINE_RETRY_BACKOFF_SECONDS := []\<rparr>) 0 failed_db = Inl e"
proof -
  let ?r = "runs_t failed_db ! 1"
  have "?r \<in> set (runs_t failed_db)" "pr_retry_after ?r = None"
    by (simp_all add: failed_db_def queue_db_def new_run_def)
  moreover have "retry_eligible ?r" by code_simp
  ultimately show ?thesis using empty_backoff_raises [where r = ?r] by simp
qed

end
