(* ===== verification/Serialise.thy ===== *)
theory Serialise
  imports Worker_Pool Json
begin

text \<open>
  The JSON documents the endpoints answer with: \<open>datetime.isoformat\<close> of UTC
  times, \<open>serialise_worker\<close> (\<open>app/services/worker_pool.py\<close>), \<open>serialise_run\<close> and
  \<open>_serialise_stage\<close> (\<open>app/services/job_scheduler.py\<close>).  The calendar is the
  proleptic Gregorian one of \<open>datetime\<close>; the lemmas show that a date is written
  with fields in range and that no two days share a date.
\<close>

section \<open>Calendar\<close>

text \<open>
  The date of a day counted from 1970-01-01: eras of 400 years that start on the
  first of March, in them centuries, groups of four years and years (the last
  century and the last year of a group have one day more).
\<close>

definition civil_of_days :: "int \<Rightarrow> int \<times> int \<times> int" where
  "civil_of_days days =
     (let z = days + 719468; era = z div 146097; doe = z mod 146097;
          c = min (doe div 36524) 3; doc = doe - c * 36524;
          q = doc div 1461; doq = doc mod 1461; y = min (doq div 365) 3; doy = doq - 365 * y;
          mp = (5 * doy + 2) div 153;
          d = doy - (153 * mp + 2) div 5 + 1;
          m = (if mp < 10 then mp + 3 else mp - 9)
      in (400 * era + 100 * c + 4 * q + y + (if m \<le> 2 then 1 else 0), m, d))"

text \<open>The inverse count.\<close>

definition days_of_civil :: "int \<times> int \<times> int \<Rightarrow> int" where
  "days_of_civil ymd =
     (let (y, m, d) = ymd; y' = (if m \<le> 2 then y - 1 else y); era = y' div 400; yoe = y' mod 400;
          mp = (if 2 < m then m - 3 else m + 9);
          doy = (153 * mp + 2) div 5 + d - 1
      in era * 146097 + (yoe * 365 + yoe div 4 - yoe div 100 + doy) - 719468)"

definition pad_int :: "nat \<Rightarrow> int \<Rightarrow> string" where
  "pad_int k i = (let s = str_int i in replicate (k - length s) CHR ''0'' @ s)"

definition isoformat :: "time \<Rightarrow> string" where
  "isoformat t =
     (let (y, m, d) = civil_of_days (t div 86400000000);
          us = t mod 86400000000; secs = us div 1000000; frac = us mod 1000000
      in pad_int 4 y @ ''-'' @ pad_int 2 m @ ''-'' @ pad_int 2 d @ ''T''
         @ pad_int 2 (secs div 3600) @ '':'' @ pad_int 2 (secs div 60 mod 60) @ '':'' @ pad_int 2 (secs mod 60)
         @ (if frac = 0 then [] else ''.'' @ pad_int 6 frac) @ ''+00:00'')"

section \<open>Documents\<close>

fun j_opt :: "('a \<Rightarrow> json) \<Rightarrow> 'a option \<Rightarrow> json" where
  "j_opt f None = JNull"
| "j_opt f (Some x) = f x"

abbreviation j_time :: "time option \<Rightarrow> json" where
  "j_time \<equiv> j_opt (\<lambda>t. JStr (isoformat t))"

text \<open>\<open>round(x, 2)\<close>: to the nearest hundredth, ties to the even one.\<close>

definition round_half_even :: "rat \<Rightarrow> int" where
  "round_half_even x =
     (let f = \<lfloor>x\<rfloor>; r = x - of_int f in
      if r < 1/2 then f else if 1/2 < r then f + 1 else if even f then f else f + 1)"

definition round2 :: "rat \<Rightarrow> rat" where
  "round2 x = of_int (round_half_even (x * 100)) / 100"

definition serialise_worker :: "worker \<Rightarrow> json" where
  "serialise_worker w = JObj
     [(''id'', JInt (w_id w)), (''name'', JStr (w_name w)),
      (''language'', JStr (worker_language_value (w_language w))),
      (''status'', JStr (worker_status_value (w_status w))),
      (''load'', JFloat (round2 (w_load w))), (''jobs_run'', JInt (w_jobs_run w)),
      (''current_job'', j_opt JStr (w_current_job w)), (''last_heartbeat'', j_time (w_last_heartbeat w)),
      (''capabilities'', j_opt JStr (w_capabilities w))]"

definition serialise_stage :: "stage_execution \<Rightarrow> json" where
  "serialise_stage s = JObj
     [(''id'', JInt (se_id s)), (''order'', JInt (int (se_order s))), (''name'', JStr (se_name s)),
      (''status'', JStr (stage_status_value (se_status s))), (''started_at'', j_time (se_started_at s)),
      (''completed_at'', j_time (se_completed_at s)), (''duration_s'', j_opt JInt (se_duration_s s)),
      (''log_excerpt'', j_opt JStr (se_log_excerpt s))]"

definition run_priority_label :: "pipeline_run \<Rightarrow> string" where
  "run_priority_label r =
     ''P'' @ str_int (pr_scheduling_priority r)
       @ (case pr_priority_reason r of Some p \<Rightarrow> if p \<noteq> [] then '' - '' @ p else [] | None \<Rightarrow> [])"

definition serialise_run :: "pipeline_run \<Rightarrow> stage_execution list \<Rightarrow> json" where
  "serialise_run r stages = JObj
     [(''id'', JInt (pr_id r)), (''repo_url'', JStr (pr_repo_url r)), (''branch'', JStr (pr_branch r)),
      (''commit_sha'', j_opt JStr (pr_commit_sha r)), (''author'', j_opt JStr (pr_author r)),
      (''triggered_by'', JStr (pr_triggered_by r)), (''jenkins_job_name'', j_opt JStr (pr_jenkins_job_name r)),
      (''jenkins_build_number'', j_opt JInt (pr_jenkins_build_number r)),
      (''jenkins_build_url'', j_opt JStr (pr_jenkins_build_url r)),
      (''status'', JStr (run_status_value (pr_status r))), (''result'', j_opt JStr (pr_result r)),
      (''queued_at'', JStr (isoformat (pr_queued_at r))), (''started_at'', j_time (pr_started_at r)),
      (''completed_at'', j_time (pr_completed_at r)), (''duration_s'', j_opt JInt (pr_duration_s r)),
      (''scheduling_priority'', JInt (pr_scheduling_priority r)),
      (''priority_label'', JStr (run_priority_label r)),
      (''priority_reason'', j_opt JStr (pr_priority_reason r)),
      (''stages'', JArr (map serialise_stage stages))]"

section \<open>Days and dates\<close>

lemma century_split:
  fixes doe :: int
  assumes "0 \<le> doe" "doe < 146097"
  defines "c \<equiv> min (doe div 36524) 3"
  shows "0 \<le> c" "c \<le> 3" "0 \<le> doe - c * 36524" "doe - c * 36524 \<le> 36524"
  using assms unfolding c_def min_def by (auto split: if_splits)

lemma group_split:
  fixes doc :: int
  assumes "0 \<le> doc" "doc \<le> 36524"
  shows "0 \<le> doc div 1461" "doc div 1461 \<le> 24" "0 \<le> doc mod 1461" "doc mod 1461 \<le> 1460"
  using assms by (simp_all add: pos_imp_zdiv_nonneg_iff)

lemma year_split:
  fixes doq :: int
  assumes "0 \<le> doq" "doq \<le> 1460"
  defines "y \<equiv> min (doq div 365) 3"
  shows "0 \<le> y" "y \<le> 3" "0 \<le> doq - 365 * y" "doq - 365 * y \<le> 365"
  using assms unfolding y_def min_def by (auto split: if_splits)

lemma month_split:
  fixes doy :: int
  assumes "0 \<le> doy" "doy \<le> 365"
  defines "mp \<equiv> (5 * doy + 2) div 153"
  shows "0 \<le> mp" "mp \<le> 11" "1 \<le> doy - (153 * mp + 2) div 5 + 1" "doy - (153 * mp + 2) div 5 + 1 \<le> 31"
proof -
  define k where "k = (153 * mp + 2) div 5"
  have b: "5 * (x div 5) \<le> x" "x < 5 * (x div 5) + 5" "153 * (x div 153) \<le> x" "x < 153 * (x div 153) + 153" for x :: int
    by simp_all
  note m = b(3,4) [of "5 * doy + 2", folded mp_def] and k = b(1,2) [of "153 * mp + 2", folded k_def]
  show "0 \<le> mp" using m assms(1) by linarith
  show "mp \<le> 11" using m assms(2) by linarith
  show "1 \<le> doy - (153 * mp + 2) div 5 + 1" using m k unfolding k_def [symmetric] by linarith
  show "doy - (153 * mp + 2) div 5 + 1 \<le> 31" using m k unfolding k_def [symmetric] by linarith
qed

lemma era_split:
  fixes r :: int
  assumes "0 \<le> r" "r < 400"
  shows "(400 * e + r) div 400 = e" "(400 * e + r) mod 400 = r"
  using assms by simp_all

lemma days_of_civil_of_days: "days_of_civil (civil_of_days n) = n"
proof -
  define z where "z = n + 719468"
  define era where "era = z div 146097"
  define doe where "doe = z mod 146097"
  define c where "c = min (doe div 36524) 3"
  define doc where "doc = doe - c * 36524"
  define q where "q = doc div 1461"
  define doq where "doq = doc mod 1461"
  define y where "y = min (doq div 365) 3"
  define doy where "doy = doq - 365 * y"
  define mp where "mp = (5 * doy + 2) div 153"
  have doe: "0 \<le> doe" "doe < 146097" by (simp_all add: doe_def)
  note c = century_split [OF doe, folded c_def, folded doc_def]
  note q = group_split [OF c(3,4), folded q_def doq_def]
  note y = year_split [OF q(3,4), folded y_def, folded doy_def]
  note mp = month_split [OF y(3,4), folded mp_def]
  let ?yoe = "100 * c + 4 * q + y"
  have yoe: "0 \<le> ?yoe" "?yoe < 400" using c q y by simp_all
  then have era_y: "(400 * era + 100 * c + 4 * q + y) div 400 = era" "(400 * era + 100 * c + 4 * q + y) mod 400 = ?yoe"
    using era_split [OF yoe, of era] by (simp_all only: add.assoc)
  have "(y + 4 * (25 * c + q)) div 4 = 25 * c + q + y div 4" "(4 * q + y + 100 * c) div 100 = c + (4 * q + y) div 100"
    by (simp_all add: div_mult_self2)
  moreover have "y div 4 = 0" "(4 * q + y) div 100 = 0" using q y by (simp_all add: div_pos_pos_trivial)
  moreover have "?yoe = y + 4 * (25 * c + q)" "?yoe = 4 * q + y + 100 * c" by simp_all
  ultimately have yq: "?yoe div 4 = 25 * c + q" "?yoe div 100 = c" by simp_all
  have "doc = 1461 * q + doq" by (simp add: q_def doq_def)
  then have doe_eq: "?yoe * 365 + ?yoe div 4 - ?yoe div 100 + doy = doe"
    unfolding yq doy_def using doc_def by (simp add: algebra_simps)
  have z: "era * 146097 + doe = z" by (simp add: era_def doe_def)
  have civil: "civil_of_days n = (400 * era + 100 * c + 4 * q + y + (if (if mp < 10 then mp + 3 else mp - 9) \<le> 2 then 1 else 0),
      (if mp < 10 then mp + 3 else mp - 9), doy - (153 * mp + 2) div 5 + 1)"
    by (simp only: civil_of_days_def Let_def z_def [symmetric] era_def [symmetric] doe_def [symmetric] c_def [symmetric]
        doc_def [symmetric] q_def [symmetric] doq_def [symmetric] y_def [symmetric] doy_def [symmetric] mp_def [symmetric])
  show ?thesis
  proof (cases "mp < 10")
    case True
    then show ?thesis using mp(1) era_y doe_eq z by (simp add: civil days_of_civil_def z_def Let_def)
  next
    case False
    then show ?thesis using mp(2) era_y doe_eq z by (simp add: civil days_of_civil_def z_def Let_def)
  qed
qed

end
