(* ===== verification/Workers_Router.thy ===== *)
theory Workers_Router
  imports Scheduler Serialise "HOL-Library.Multiset"
begin

text \<open>
  \<open>app/routers/workers.py\<close>: the endpoints of the worker pool.  An endpoint
  returns the committed database and the response document, or the exception it
  raises; a raised exception leaves the database as it was.
\<close>

section \<open>Endpoints\<close>

definition worker_not_found :: "int \<Rightarrow> pyerr" where
  "worker_not_found i = HTTPException 404 (''Worker '' @ str_int i @ '' not found'')"

definition count_status :: "worker_status \<Rightarrow> worker list \<Rightarrow> nat" where
  "count_status s ws = length (filter (\<lambda>w. w_status w = s) ws)"

definition list_workers :: "db \<Rightarrow> json" where
  "list_workers d =
     (let workers = sort_key w_id (workers_t d) in
      JObj [(''workers'', JArr (map serialise_worker workers)),
            (''summary'', JObj
              [(''total'', JInt (int (length workers))),
               (''idle'', JInt (int (count_status WS_IDLE workers))),
               (''busy'', JInt (int (count_status WS_BUSY workers))),
               (''offline'', JInt (int (count_status WS_OFFLINE workers)))])])"

fun assignment_status_value :: "assignment_status \<Rightarrow> string" where
  "assignment_status_value AS_ASSIGNED = ''ASSIGNED''"
| "assignment_status_value AS_RUNNING = ''RUNNING''"
| "assignment_status_value AS_DONE = ''DONE''"
| "assignment_status_value AS_FAILED = ''FAILED''"

definition serialise_assignment :: "worker_assignment \<Rightarrow> json" where
  "serialise_assignment a = JObj
     [(''run_id'', JInt (wa_run_id a)), (''status'', JStr (assignment_status_value (wa_status a))),
      (''assigned_at'', JStr (isoformat (wa_assigned_at a))), (''completed_at'', j_time (wa_completed_at a)),
      (''duration_s'', j_opt JInt (wa_duration_s a)), (''result'', j_opt JStr (wa_result a))]"

definition recent_assignments :: "db \<Rightarrow> int \<Rightarrow> worker_assignment list" where
  "recent_assignments d i =
     take 10 (sort_key (\<lambda>a. - wa_assigned_at a) (filter (\<lambda>a. wa_worker_id a = i) (assigns_t d)))"

text \<open>\<open>{**serialise_worker(worker), "recent_assignments": ...}\<close>.\<close>

definition worker_detail :: "db \<Rightarrow> int \<Rightarrow> json res" where
  "worker_detail d i =
     (case get_worker d i of
        None \<Rightarrow> Inl (worker_not_found i)
      | Some w \<Rightarrow> Inr (case serialise_worker w of
            JObj kvs \<Rightarrow> JObj (kvs @ [(''recent_assignments'', JArr (map serialise_assignment (recent_assignments d i)))])
          | j \<Rightarrow> j))"

definition set_offline :: "db \<Rightarrow> int \<Rightarrow> (db \<times> json) res" where
  "set_offline d i =
     (case get_worker d i of
        None \<Rightarrow> Inl (worker_not_found i)
      | Some _ \<Rightarrow> Inr (upd_worker i (\<lambda>w. w\<lparr>w_status := WS_OFFLINE\<rparr>) d,
          JObj [(''worker_id'', JInt i), (''status'', JStr ''OFFLINE'')]))"

definition set_online :: "db \<Rightarrow> int \<Rightarrow> (db \<times> json) res" where
  "set_online d i =
     (case get_worker d i of
        None \<Rightarrow> Inl (worker_not_found i)
      | Some _ \<Rightarrow> Inr (upd_worker i (\<lambda>w. w\<lparr>w_status := WS_IDLE, w_load := 0\<rparr>) d,
          JObj [(''worker_id'', JInt i), (''status'', JStr ''IDLE'')]))"

text \<open>The loop over the open assignments, with the ids of the runs it reverts.\<close>

fun reset_assignments :: "time \<Rightarrow> worker_assignment list \<Rightarrow> db \<Rightarrow> db \<times> int list" where
  "reset_assignments now [] d = (d, [])"
| "reset_assignments now (a # as) d =
     (let held = (case get_run_row d (wa_run_id a) of None \<Rightarrow> False | Some r \<Rightarrow> pr_status r = RS_IN_PROGRESS);
          (d', ids) = reset_assignments now as (expire_assignment ''MANUAL_RESET'' now a d)
      in (d', if held then wa_run_id a # ids else ids))"

definition reset_worker_endpoint :: "db \<Rightarrow> int \<Rightarrow> time \<Rightarrow> (db \<times> json) res" where
  "reset_worker_endpoint d i now =
     (case get_worker d i of
        None \<Rightarrow> Inl (worker_not_found i)
      | Some w \<Rightarrow>
          let (d1, reverted) = reset_assignments now (open_of_worker d i) d
          in Inr (upd_worker i (reset_worker now) d1,
            JObj [(''worker_id'', JInt i), (''previous_status'', JStr (worker_status_value (w_status w))),
                  (''status'', JStr ''IDLE''), (''reverted_runs'', JArr (map JInt reverted))]))"

definition recover_all_workers :: "settings \<Rightarrow> db \<Rightarrow> time \<Rightarrow> db \<times> json" where
  "recover_all_workers st d now =
     (let (d', n) = recover_stale_workers st d now in (d', JObj [(''recovered'', JInt (int n))]))"

definition seed :: "settings \<Rightarrow> db \<Rightarrow> time \<Rightarrow> (db \<times> json) res" where
  "seed st d now =
     (if AUTO_SEED_WORKERS st then Inr (seed_workers d now, JObj [(''seeded'', JBool True)])
      else Inl (HTTPException 403
        ''Default worker seeding is disabled so dashboards only show configured workers.''))"

section \<open>Lemmas\<close>

lemma reset_assignments_fold:
  "fst (reset_assignments now as d) = fold (expire_assignment ''MANUAL_RESET'' now) as d"
  by (induction as arbitrary: d) (simp_all add: case_prod_unfold Let_def)

lemma reset_endpoint_db:
  assumes "get_worker d i = Some w" "reset_worker_endpoint d i now = Inr (d', j)"
  shows "d' = recover_worker ''MANUAL_RESET'' now w d"
  using assms worker_tbl.get_SomeD [OF assms(1)] reset_assignments_fold [of now "open_of_worker d i" d]
  by (auto simp: reset_worker_endpoint_def recover_worker_def case_prod_unfold Let_def)

lemma count_status_total:
  "count_status WS_IDLE ws + count_status WS_BUSY ws + count_status WS_OFFLINE ws = length ws"
proof (induction ws)
  case (Cons w ws)
  then show ?case by (cases "w_status w") (simp_all add: count_status_def)
qed (simp add: count_status_def)

text \<open>A closed assignment stays closed through the rest of the loop.\<close>

lemma expire_all_closes:
  assumes "b \<in> set (assigns_t (fold (expire_assignment why now) as d))"
  shows "wa_completed_at b = Some now \<or> b \<in> set (assigns_t d) \<and> b \<notin> set as"
  using assms
proof (induction as arbitrary: d)
  case (Cons a as)
  have step: "wa_completed_at c = Some now \<or> c \<in> set (assigns_t d) \<and> c \<noteq> a"
    if "c \<in> set (assigns_t (expire_assignment why now a d))" for c
    using that by (auto simp: expire_assignment_def db_simps assign_tbl.rows_upd elim!: upd_row_memE)
  show ?case using Cons.IH [of "expire_assignment why now a d"] Cons.prems step by auto
qed simp

section \<open>Properties\<close>

text \<open>
  The summary of the worker list counts every worker in exactly one of its
  three states, and the workers are listed by increasing id.
\<close>

theorem list_workers_summary:
  "\<exists>ws. list_workers d = JObj [(''workers'', JArr (map serialise_worker ws)), (''summary'', JObj
        [(''total'', JInt (int (length ws))), (''idle'', JInt (int (count_status WS_IDLE ws))),
         (''busy'', JInt (int (count_status WS_BUSY ws))), (''offline'', JInt (int (count_status WS_OFFLINE ws)))])]
     \<and> mset ws = mset (workers_t d) \<and> sorted (map w_id ws)
     \<and> count_status WS_IDLE ws + count_status WS_BUSY ws + count_status WS_OFFLINE ws = length (workers_t d)"
  using count_status_total [of "sort_key w_id (workers_t d)"]
  by (intro exI [of _ "sort_key w_id (workers_t d)"]) (simp add: list_workers_def Let_def)

text \<open>
  A forced reset leaves the worker idle with load 0 and without a job; none of
  its assignments is open afterwards; every run that was in progress through one
  of them is queued again, and no other run or worker changed.
\<close>

theorem reset_worker_effect:
  assumes "db_ok d" "get_worker d i = Some w" "w_status w \<noteq> WS_OFFLINE"
  shows "\<exists>d' j. reset_worker_endpoint d i now = Inr (d', j)
    \<and> get_worker d' i = Some (reset_worker now w)
    \<and> open_of_worker d' i = []
    \<and> (\<forall>a r. a \<in> set (open_of_worker d i) \<longrightarrow> get_run_row d (wa_run_id a) = Some r \<longrightarrow> pr_status r = RS_IN_PROGRESS
         \<longrightarrow> get_run_row d' (wa_run_id a) = Some (requeue r))
    \<and> (\<forall>k. k \<noteq> i \<longrightarrow> get_worker d' k = get_worker d k) \<and> recovers d d' \<and> db_ok d'"
proof -
  obtain d' j where e: "reset_worker_endpoint d i now = Inr (d', j)"
    using assms(2) by (simp add: reset_worker_endpoint_def case_prod_unfold Let_def)
  have wid: "w_id w = i" using worker_tbl.get_SomeD [OF assms(2)] by simp
  have d': "d' = recover_worker ''MANUAL_RESET'' now w d" by (rule reset_endpoint_db [OF assms(2) e])
  let ?f = "fold (expire_assignment ''MANUAL_RESET'' now) (open_of_worker d i) d"
  have w: "get_worker d' k = (if k = i then Some (reset_worker now w) else get_worker d k)" for k
    using assms(2) by (simp add: d' recover_worker_def wid db_simps expire_workers)
  have "b \<notin> set (open_of_worker d' i)" for b
    using expire_all_closes [of b "''MANUAL_RESET''" now "open_of_worker d i" d]
    by (auto simp: open_of_worker_def open_on_def d' recover_worker_def wid db_simps)
  then have "open_of_worker d' i = []" by (metis last_in_set)
  moreover have "get_run_row d' (wa_run_id a) = Some (requeue r)"
    if "a \<in> set (open_of_worker d i)" "get_run_row d (wa_run_id a) = Some r" "pr_status r = RS_IN_PROGRESS" for a r
    using expire_all_requeues [OF that] by (simp add: d' recover_worker_def wid db_simps)
  moreover have "recovers d d'" unfolding d' using assms(2,3) wid by (intro recovers_worker) simp
  moreover have "db_ok d'" unfolding d' using assms(1) by (rule db_ok_recover_worker)
  ultimately show ?thesis using e w by auto
qed

theorem reset_worker_effect_witness:
  "\<exists>d' j. reset_worker_endpoint running_db 3 9 = Inr (d', j) \<and> open_of_worker d' 3 = []"
proof -
  have "get_worker running_db 3 = Some (example_worker 3 L_GENERIC WS_BUSY)"
    by (simp add: running_db_def example_db_def example_worker_def new_worker_def get_worker_def get_row_def)
  from reset_worker_effect [OF running_db_ok this, of 9] show ?thesis
    by (auto simp: example_worker_def new_worker_def)
qed

text \<open>
  Taking a busy worker offline does not survive the end of its build: the
  release sets it idle, so the scheduler can use it again.
\<close>

theorem offline_lost_on_release:
  assumes "set_offline d i = Inr (d', j)"
  shows "\<exists>w. get_worker (release_worker d' i r success now) i = Some w \<and> w_status w = WS_IDLE"
proof -
  obtain w where w: "get_worker d i = Some w" and d': "d' = upd_worker i (\<lambda>w. w\<lparr>w_status := WS_OFFLINE\<rparr>) d"
    using assms by (auto simp: set_offline_def split: option.splits)
  have "get_worker d' i = Some (w\<lparr>w_status := WS_OFFLINE\<rparr>)" using w by (simp add: d' db_simps)
  then show ?thesis by (auto simp: release_worker_def Let_def db_simps split: option.split)
qed

theorem offline_lost_on_release_witness:
  "\<exists>d' j w. set_offline running_db 3 = Inr (d', j) \<and> get_worker (release_worker d' 3 1 True 9) 3 = Some w
     \<and> w_status w = WS_IDLE"
proof -
  have "get_worker running_db 3 = Some (example_worker 3 L_GENERIC WS_BUSY)"
    by (simp add: running_db_def example_db_def example_worker_def new_worker_def get_worker_def get_row_def)
  then obtain d' j where e: "set_offline running_db 3 = Inr (d', j)" by (simp add: set_offline_def)
  from offline_lost_on_release [OF e, of 1 True 9] e show ?thesis by blast
qed

end
