(* ===== verification/Jobs_Router.thy ===== *)
theory Jobs_Router
  imports Scheduler Serialise
begin

text \<open>
  \<open>app/routers/jobs.py\<close>: triggering a run by hand, the dashboard, the detail of
  a run, the manual retry and the stage events.  An endpoint returns the
  committed database with the response document (and the work it starts), or the
  exception it raises.
\<close>

section \<open>Endpoints\<close>

text \<open>\<open>TriggerRequest\<close>: \<open>changed_files\<close> is always a list here.\<close>

record trigger_request =
  tr_repo_url :: string
  tr_branch :: string
  tr_commit_sha :: "string option"
  tr_author :: "string option"
  tr_triggered_by :: string
  tr_git_token :: "string option"
  tr_changed_files :: "string list"

record stage_event_request =
  ser_stage_name :: string
  ser_event :: string
  ser_log_excerpt :: "string option"

definition request_of_trigger :: "trigger_request \<Rightarrow> schedule_request" where
  "request_of_trigger b =
     \<lparr>sr_repo_url = tr_repo_url b, sr_branch = tr_branch b, sr_commit_sha = tr_commit_sha b,
      sr_author = tr_author b, sr_triggered_by = tr_triggered_by b, sr_git_token = tr_git_token b,
      sr_changed_files = Some (tr_changed_files b)\<rparr>"

text \<open>A \<open>ValueError\<close> becomes a 400, any other exception passes.\<close>

definition trigger_pipeline ::
    "settings \<Rightarrow> (string \<Rightarrow> (string \<times> string) list \<Rightarrow> http_result) \<Rightarrow> db \<Rightarrow> trigger_request \<Rightarrow> time
     \<Rightarrow> (db \<times> json \<times> effect list) res" where
  "trigger_pipeline st http_get d b now =
     (case schedule_pipeline st http_get d (request_of_trigger b) now of
        Inl (ValueError msg) \<Rightarrow> Inl (HTTPException 400 msg)
      | Inl e \<Rightarrow> Inl e
      | Inr (d', run, effs) \<Rightarrow> Inr (d', JObj
          [(''run_id'', JInt (pr_id run)), (''status'', JStr (run_status_value (pr_status run))),
           (''jenkins_job_name'', j_opt JStr (pr_jenkins_job_name run)),
           (''stages'', JArr (map JStr (stage_names run))),
           (''scheduling_priority'', JInt (pr_scheduling_priority run)),
           (''priority_reason'', j_opt JStr (pr_priority_reason run)),
           (''message'', JStr ''Pipeline queued successfully'')], effs))"

definition dashboard :: "db \<Rightarrow> json" where
  "dashboard d = JObj (map (\<lambda>(s, rs). (run_status_value s,
     JArr (map (\<lambda>r. serialise_run r (run_stages d (pr_id r))) rs))) (get_dashboard_snapshot d 200))"

definition run_not_found :: "int \<Rightarrow> pyerr" where
  "run_not_found i = HTTPException 404 (''PipelineRun '' @ str_int i @ '' not found'')"

definition run_detail :: "db \<Rightarrow> int \<Rightarrow> json res" where
  "run_detail d i =
     (case get_run d i of
        None \<Rightarrow> Inl (run_not_found i)
      | Some r \<Rightarrow> Inr (serialise_run r (run_stages d i)))"

definition retry_run :: "db \<Rightarrow> int \<Rightarrow> (db \<times> json) res" where
  "retry_run d i =
     (case get_run_row d i of
        None \<Rightarrow> Inl (run_not_found i)
      | Some r \<Rightarrow>
          if pr_status r \<noteq> RS_FAILED
          then Inl (HTTPException 400 (''Run '' @ str_int i @ '' is not in FAILED status (current: ''
            @ run_status_value (pr_status r) @ '')''))
          else if pr_max_retries r \<le> pr_retry_count r
          then Inl (HTTPException 409 (''Run '' @ str_int i @ '' has exhausted max retries (''
            @ str_int (pr_max_retries r) @ '')''))
          else Inr (upd_run i retried d, JObj
            [(''retried'', JInt i), (''status'', JStr ''QUEUED''), (''retry_count'', JInt (pr_retry_count r + 1)),
             (''max_retries'', JInt (pr_max_retries r))]))"

text \<open>\<open>repr\<close> of a string: quotes, backslashes and unprintable characters are escaped.\<close>

definition repr_char :: "char \<Rightarrow> char \<Rightarrow> string" where
  "repr_char q c =
     (let n = cp c; bs = CHR 0x5C in
      if c = q \<or> c = bs then [bs, c]
      else if n = 9 then [bs, CHR ''t''] else if n = 10 then [bs, CHR ''n''] else if n = 13 then [bs, CHR ''r'']
      else if n < 32 \<or> 127 \<le> n \<and> n \<le> 160 \<or> n = 173
      then [bs, CHR ''x'', hex_digit (n div 16), hex_digit (n mod 16)]
      else [c])"

definition py_repr :: "string \<Rightarrow> string" where
  "py_repr s =
     (let q = (if CHR 0x27 \<in> set s \<and> CHR 0x22 \<notin> set s then CHR 0x22 else CHR 0x27)
      in q # concat (map (repr_char q) s) @ [q])"

definition stage_event :: "db \<Rightarrow> int \<Rightarrow> stage_event_request \<Rightarrow> time \<Rightarrow> (db \<times> json) res" where
  "stage_event d i b now =
     (case get_run d i of
        None \<Rightarrow> Inl (run_not_found i)
      | Some _ \<Rightarrow>
          rbind
            (if ser_event b = ''started'' then on_stage_started d i (ser_stage_name b) now
             else if ser_event b = ''completed'' \<or> ser_event b = ''failed''
             then on_stage_completed d i (ser_stage_name b) (ser_event b = ''completed'') (ser_log_excerpt b) now
             else Inl (HTTPException 400 (''Unknown event: '' @ py_repr (ser_event b))))
            (\<lambda>d'. Inr (d', JObj [(''acknowledged'', JBool True)])))"

section \<open>Stage events and the names of the stages\<close>

lemma stage_event_keeps_names:
  assumes "stage_names_distinct d" "stage_event d i b now = Inr (d', j)"
  shows "stage_names_distinct d'"
  using assms names_distinct_stage [OF assms(1)] by (auto simp: stage_event_def rbind_eq_Inr split: option.splits if_splits)

section \<open>Properties\<close>

text \<open>
  A stage event is acknowledged exactly when the run exists and the event is
  one of the three known ones; with distinct stage names the lookup never fails,
  and the stage names stay distinct.
\<close>

theorem stage_event_total:
  assumes "stage_names_distinct d"
  shows "(\<exists>d' j. stage_event d i b now = Inr (d', j) \<and> stage_names_distinct d')
    \<longleftrightarrow> get_run d i \<noteq> None \<and> ser_event b \<in> {''started'', ''completed'', ''failed''}"
proof
  assume "\<exists>d' j. stage_event d i b now = Inr (d', j) \<and> stage_names_distinct d'"
  then show "get_run d i \<noteq> None \<and> ser_event b \<in> {''started'', ''completed'', ''failed''}"
    by (auto simp: stage_event_def split: option.splits if_splits)
next
  assume h: "get_run d i \<noteq> None \<and> ser_event b \<in> {''started'', ''completed'', ''failed''}"
  obtain x where "find_stage d i (ser_stage_name b) = Inr x" using find_stage_total [OF assms] by blast
  then have "\<exists>d' j. stage_event d i b now = Inr (d', j)"
    using h by (auto simp: stage_event_def on_stage_started_def on_stage_completed_def)
  then show "\<exists>d' j. stage_event d i b now = Inr (d', j) \<and> stage_names_distinct d'"
    using stage_event_keeps_names [OF assms] by blast
qed

definition stage_event_example :: stage_event_request where
  "stage_event_example = \<lparr>ser_stage_name = ''Build'', ser_event = ''completed'', ser_log_excerpt = None\<rparr>"

theorem stage_event_total_witness:
  "\<exists>d' j. stage_event running_db 1 stage_event_example 9 = Inr (d', j) \<and> stage_names_distinct d'"
proof -
  have "stage_names_distinct running_db" by (simp add: stage_names_distinct_def running_db_def)
  from stage_event_total [OF this, of 1 stage_event_example 9] show ?thesis
    using running_db_run by (simp add: stage_event_example_def)
qed

text \<open>
  A manual retry succeeds exactly for a failed run with retries left; it then
  queues the run again with its count raised by one and within its maximum, and
  touches no other run; otherwise the answer is 404, 400 or 409.
\<close>

theorem retry_run_result:
  "case retry_run d i of
     Inr (d', j) \<Rightarrow> (\<exists>r. get_run d i = Some r \<and> pr_status r = RS_FAILED \<and> pr_retry_count r < pr_max_retries r
        \<and> get_run d' i = Some (retried r)) \<and> (\<forall>k. k \<noteq> i \<longrightarrow> get_run d' k = get_run d k)
   | Inl e \<Rightarrow> (\<exists>msg. e = HTTPException 404 msg \<and> get_run d i = None
        \<or> e = HTTPException 400 msg \<and> (\<exists>r. get_run d i = Some r \<and> pr_status r \<noteq> RS_FAILED)
        \<or> e = HTTPException 409 msg \<and> (\<exists>r. get_run d i = Some r \<and> pr_max_retries r \<le> pr_retry_count r))"
  by (auto simp: retry_run_def run_not_found_def get_run_def db_simps split: option.split)

theorem retry_run_result_witness:
  "(\<exists>d' j. retry_run failed_db 2 = Inr (d', j)) \<and>
   (case retry_run failed_db 2 of
     Inr (d', j) \<Rightarrow> (\<exists>r. get_run failed_db 2 = Some r \<and> pr_status r = RS_FAILED \<and> pr_retry_count r < pr_max_retries r
        \<and> get_run d' 2 = Some (retried r))
   | Inl e \<Rightarrow> False)"
proof -
  have "\<exists>d' j. retry_run failed_db 2 = Inr (d', j)"
    by (simp add: retry_run_def failed_db_def queue_db_def new_run_def get_run_row_def get_row_def)
  then show ?thesis using retry_run_result [of failed_db 2] by (auto split: sum.splits)
qed

end
