(* ===== verification/Metrics.thy ===== *)
theory Metrics
  imports Job_Scheduler
begin

text \<open>
  The chaos figure of \<open>app/utils.py\<close> and the collection of system metrics of
  \<open>app/scheduler.py\<close> with its retention of 1000 rows.  What \<open>psutil\<close> measures is
  an argument.
\<close>

section \<open>Definitions\<close>

definition chaos_level :: "int \<Rightarrow> string" where
  "chaos_level intensity =
     (if 75 \<le> intensity then ''Critical''
      else if 45 \<le> intensity then ''High Volatility''
      else if 20 \<le> intensity then ''Elevated''
      else ''Normal'')"

definition compute_chaos :: "(run_status \<times> pipeline_run list) list \<Rightarrow> nat \<Rightarrow> int \<times> string" where
  "compute_chaos snapshot busy_workers =
     (let active_queue = length (bucket snapshot RS_QUEUED) + length (bucket snapshot RS_IN_PROGRESS);
          failed_capped = min (length (bucket snapshot RS_FAILED)) 5;
          queue_pressure = active_queue + busy_workers * 2 + failed_capped;
          intensity = max 0 (min 100 (int (queue_pressure * 2)))
      in (intensity, chaos_level intensity))"

record process_stats =
  ps_uptime_seconds :: int
  ps_memory_rss :: int
  ps_memory_total :: int
  ps_cpu_percent :: rat

definition busy_count :: "db \<Rightarrow> nat" where
  "busy_count d = length (filter (\<lambda>w. w_status w = WS_BUSY) (workers_t d))"

definition new_metric :: "db \<Rightarrow> process_stats \<Rightarrow> time \<Rightarrow> system_metrics" where
  "new_metric d ps now =
     (let snapshot = get_dashboard_snapshot d 200; chaos = compute_chaos snapshot (busy_count d) in
      \<lparr>sm_id = 0, sm_timestamp = now, sm_uptime_seconds = ps_uptime_seconds ps,
       sm_memory_used_bytes = ps_memory_rss ps, sm_memory_total_bytes = ps_memory_total ps,
       sm_cpu_percent = ps_cpu_percent ps,
       sm_queue_total = sum_list (map (\<lambda>(s, rs). length rs) snapshot),
       sm_busy_workers = busy_count d, sm_worker_total = length (workers_t d),
       sm_chaos_intensity = fst chaos, sm_chaos_level = snd chaos\<rparr>)"

definition add_metric :: "system_metrics \<Rightarrow> db \<Rightarrow> db" where
  "add_metric m d = d\<lparr>metrics_t := metrics_t d @ [m\<lparr>sm_id := next_metric d\<rparr>],
     next_metric := next_metric d + 1\<rparr>"

text \<open>The ids of the rows beyond the newest 1000, and their bulk \<open>DELETE\<close>.\<close>

definition old_metric_ids :: "system_metrics list \<Rightarrow> int list" where
  "old_metric_ids ms = map sm_id (take (length ms - 1000) (sort_key sm_timestamp ms))"

definition drop_old_metrics :: "db \<Rightarrow> db" where
  "drop_old_metrics d =
     (if 1000 < length (metrics_t d)
      then d\<lparr>metrics_t := filter (\<lambda>m. sm_id m \<notin> set (old_metric_ids (metrics_t d))) (metrics_t d)\<rparr>
      else d)"

definition collect_metrics :: "db \<Rightarrow> process_stats \<Rightarrow> time \<Rightarrow> db" where
  "collect_metrics d ps now = drop_old_metrics (add_metric (new_metric d ps now) d)"

section \<open>Lemmas\<close>

lemma intensity_range: "0 \<le> fst (compute_chaos s b) \<and> fst (compute_chaos s b) \<le> 100"
  by (simp add: compute_chaos_def Let_def)

lemma level_of_intensity: "snd (compute_chaos s b) = chaos_level (fst (compute_chaos s b))"
  by (simp add: compute_chaos_def Let_def)

definition level_rank :: "string \<Rightarrow> nat" where
  "level_rank l = (if l = ''Normal'' then 0 else if l = ''Elevated'' then 1
     else if l = ''High Volatility'' then 2 else 3)"

lemma level_rank_mono: "i \<le> j \<Longrightarrow> level_rank (chaos_level i) \<le> level_rank (chaos_level j)"
  by (simp add: level_rank_def chaos_level_def)

lemma chaos_mono:
  assumes "length (bucket s RS_QUEUED) \<le> length (bucket s' RS_QUEUED)"
    "length (bucket s RS_IN_PROGRESS) \<le> length (bucket s' RS_IN_PROGRESS)"
    "length (bucket s RS_FAILED) \<le> length (bucket s' RS_FAILED)" "b \<le> b'"
  shows "fst (compute_chaos s b) \<le> fst (compute_chaos s' b')"
proof -
  let ?p = "\<lambda>s b. length (bucket s RS_QUEUED) + length (bucket s RS_IN_PROGRESS) + b * 2
      + min (length (bucket s RS_FAILED)) 5"
  have "?p s b \<le> ?p s' b'" using assms by (intro add_mono min.mono) simp_all
  then have "min 100 (int (?p s b * 2)) \<le> min 100 (int (?p s' b' * 2))"
    by (intro min.mono order_refl zle_int [THEN iffD2] mult_le_mono1)
  then show ?thesis unfolding compute_chaos_def Let_def fst_conv by (intro max.mono order_refl)
qed

text \<open>Deleting by key what a sorted prefix holds leaves the sorted rest.\<close>

lemma kept_metrics:
  assumes "distinct (map sm_id ms)"
  shows "set (filter (\<lambda>m. sm_id m \<notin> set (old_metric_ids ms)) ms) =
      set (drop (length ms - 1000) (sort_key sm_timestamp ms))"
    and "length (filter (\<lambda>m. sm_id m \<notin> set (old_metric_ids ms)) ms) = length ms - (length ms - 1000)"
proof -
  let ?s = "sort_key sm_timestamp ms" and ?k = "length ms - 1000"
  have inj: "inj_on sm_id (set ms)" "distinct ms" using assms by (simp_all add: distinct_map)
  have ds: "distinct ?s" using inj(2) by simp
  have split: "set ?s = set (take ?k ?s) \<union> set (drop ?k ?s)" by (metis append_take_drop_id set_append)
  have disj: "set (take ?k ?s) \<inter> set (drop ?k ?s) = {}" using ds by (meson set_take_disj_set_drop_if_distinct order_refl)
  have sub: "set (take ?k ?s) \<subseteq> set ms" using set_take_subset [of ?k ?s] by simp
  have mem: "sm_id m \<in> set (old_metric_ids ms) \<longleftrightarrow> m \<in> set (take ?k ?s)" if "m \<in> set ms" for m
    using that sub inj(1) by (auto simp: old_metric_ids_def dest: inj_onD)
  show eq: "set (filter (\<lambda>m. sm_id m \<notin> set (old_metric_ids ms)) ms) = set (drop ?k ?s)"
    using mem split disj by auto
  have "length (filter (\<lambda>m. sm_id m \<notin> set (old_metric_ids ms)) ms) = card (set (drop ?k ?s))"
    unfolding eq [symmetric] using inj(2) by (simp only: distinct_card distinct_filter)
  then show "length (filter (\<lambda>m. sm_id m \<notin> set (old_metric_ids ms)) ms) = length ms - ?k"
    using ds by (simp add: distinct_card)
qed

section \<open>Properties\<close>

text \<open>
  The chaos figure lies between 0 and 100, its level follows the thresholds
  20, 45 and 75, and more queued or running or failed runs or busy workers never
  lower the figure or the level.
\<close>

theorem chaos_bounded_monotone:
  assumes "length (bucket s RS_QUEUED) \<le> length (bucket s' RS_QUEUED)"
    "length (bucket s RS_IN_PROGRESS) \<le> length (bucket s' RS_IN_PROGRESS)"
    "length (bucket s RS_FAILED) \<le> length (bucket s' RS_FAILED)" "b \<le> b'"
  shows "0 \<le> fst (compute_chaos s b) \<and> fst (compute_chaos s b) \<le> fst (compute_chaos s' b')
    \<and> fst (compute_chaos s' b') \<le> 100
    \<and> level_rank (snd (compute_chaos s b)) \<le> level_rank (snd (compute_chaos s' b'))"
  using chaos_mono [OF assms] intensity_range level_rank_mono by (simp add: level_of_intensity)

theorem chaos_bounded_monotone_witness:
  "0 \<le> fst (compute_chaos [] 3) \<and> fst (compute_chaos [] 3) \<le> fst (compute_chaos [] 4)
   \<and> level_rank (snd (compute_chaos [] 3)) \<le> level_rank (snd (compute_chaos [] 4))"
  using chaos_bounded_monotone [of "[]" "[]" 3 4] by simp

text \<open>
  C26: a collection adds one row and keeps at most 1000 of them, the newest: no
  kept row is older than a dropped one, and the new row stays when no row is
  newer than it.
\<close>

theorem metrics_retention:
  fixes ps :: process_stats and now :: time
  assumes "keys_ok sm_id (metrics_t d) (next_metric d)"
  defines "all_rows \<equiv> metrics_t (add_metric (new_metric d ps now) d)"
    and "kept \<equiv> metrics_t (collect_metrics d ps now)"
  shows "length kept = min 1000 (length (metrics_t d) + 1) \<and> set kept \<subseteq> set all_rows
    \<and> (\<forall>m \<in> set kept. \<forall>m' \<in> set all_rows - set kept. sm_timestamp m' \<le> sm_timestamp m)"
proof -
  let ?s = "sort_key sm_timestamp all_rows" and ?k = "length all_rows - 1000"
  have len: "length all_rows = length (metrics_t d) + 1" by (simp add: all_rows_def add_metric_def)
  have dist: "distinct (map sm_id all_rows)"
    using assms(1) by (auto simp: all_rows_def add_metric_def keys_ok_def)
  show ?thesis
  proof (cases "1000 < length all_rows")
    case False
    then have "kept = all_rows" by (simp add: kept_def collect_metrics_def drop_old_metrics_def all_rows_def)
    then show ?thesis using False len by simp
  next
    case True
    then have kept: "kept = filter (\<lambda>m. sm_id m \<notin> set (old_metric_ids all_rows)) all_rows"
      by (simp add: kept_def collect_metrics_def drop_old_metrics_def all_rows_def)
    have sk: "set kept = set (drop ?k ?s)" and lk: "length kept = 1000"
      using kept_metrics [OF dist] True by (simp_all add: kept)
    have "sorted (map sm_timestamp (take ?k ?s @ drop ?k ?s))" by simp
    then have le: "\<forall>x \<in> set (take ?k ?s). \<forall>y \<in> set (drop ?k ?s). sm_timestamp x \<le> sm_timestamp y"
      unfolding map_append sorted_append by auto
    have "set all_rows = set (take ?k ?s) \<union> set (drop ?k ?s)" by (metis append_take_drop_id set_append set_sort)
    then have "\<forall>m \<in> set kept. \<forall>m' \<in> set all_rows - set kept. sm_timestamp m' \<le> sm_timestamp m"
      using le sk by blast
    moreover have "set kept \<subseteq> set all_rows" by (auto simp: kept)
    ultimately show ?thesis using lk len True by simp
  qed
qed

theorem metrics_retention_witness:
  "length (metrics_t (collect_metrics empty_db \<lparr>ps_uptime_seconds = 1, ps_memory_rss = 2, ps_memory_total = 3,
     ps_cpu_percent = 4\<rparr> 5)) = 1"
proof -
  have "keys_ok sm_id (metrics_t empty_db) (next_metric empty_db)" by (simp add: empty_db_def)
  from metrics_retention [OF this] show ?thesis by (simp add: empty_db_def)
qed

end
