(* ===== verification/Jenkins_Urls.thy ===== *)
theory Jenkins_Urls
  imports Config
begin

text \<open>
  URLs of Jenkins jobs: \<open>urllib.parse.quote\<close> with no safe characters, the job
  path of \<open>app/services/log_fetcher.py\<close> and the trigger URL candidates of
  \<open>app/pipeline_tasks.py\<close>.  \<open>unquote\<close> is the reference the encoding is compared
  with: it reads back every segment.
\<close>

section \<open>Percent encoding\<close>

definition hex_upper :: "nat \<Rightarrow> char" where
  "hex_upper n = (if n < 10 then char_of (48 + n) else char_of (55 + n))"

definition hex_value :: "char \<Rightarrow> nat" where
  "hex_value c = (if cp c < 58 then cp c - 48 else cp c - 55)"

definition percent_byte :: "nat \<Rightarrow> string" where
  "percent_byte b = [CHR ''%'', hex_upper (b div 16), hex_upper (b mod 16)]"

text \<open>UTF-8 of a code point below 256.\<close>

definition utf8_bytes :: "char \<Rightarrow> nat list" where
  "utf8_bytes c = (let n = cp c in if n < 128 then [n] else [192 + n div 64, 128 + n mod 64])"

definition unreserved :: "char \<Rightarrow> bool" where
  "unreserved c \<longleftrightarrow> is_ascii_letter c \<or> is_digit c \<or> c \<in> {CHR ''_'', CHR ''.'', CHR ''-'', CHR ''~''}"

definition quote_char :: "char \<Rightarrow> string" where
  "quote_char c = (if unreserved c then [c] else concat (map percent_byte (utf8_bytes c)))"

definition quote :: "string \<Rightarrow> string" where
  "quote s = concat (map quote_char s)"

section \<open>Job paths and trigger candidates\<close>

definition is_slash :: "char \<Rightarrow> bool" where
  "is_slash c \<longleftrightarrow> c = CHR ''/''"

definition job_segment :: "string \<Rightarrow> string" where
  "job_segment seg = ''job/'' @ quote seg"

definition nonempty_parts :: "string \<Rightarrow> string list" where
  "nonempty_parts s = filter (\<lambda>p. p \<noteq> []) (py_split CHR ''/'' s)"

definition jenkins_job_path :: "string \<Rightarrow> string" where
  "jenkins_job_path job = py_join ''/'' (map job_segment (nonempty_parts job))"

definition encode_jenkins_path :: "string list \<Rightarrow> string" where
  "encode_jenkins_path segments =
     (let cleaned = map (strip_by is_slash) (filter (\<lambda>s. s \<noteq> [] \<and> strip_by is_slash s \<noteq> []) segments)
      in py_join ''/'' (map job_segment cleaned))"

definition job_base :: "string \<Rightarrow> string \<Rightarrow> string" where
  "job_base normalized branch_clean =
     (if branch_clean \<noteq> [] \<and> endswith normalized (''/'' @ branch_clean)
      then take (length normalized - (length branch_clean + 1)) normalized else normalized)"

definition url_candidates :: "settings \<Rightarrow> string \<Rightarrow> string \<Rightarrow> string list" where
  "url_candidates st job_name branch =
     (let normalized = strip_by is_slash job_name;
          branch_clean = strip_by is_slash branch;
          base_parts = nonempty_parts (job_base normalized branch_clean);
          normalized_parts = nonempty_parts normalized;
          url = (\<lambda>segs. JENKINS_URL st @ ''/'' @ encode_jenkins_path segs)
      in (if base_parts \<noteq> [] \<and> branch_clean \<noteq> [] then [url (base_parts @ [branch_clean])] else [])
         @ (if 2 \<le> length base_parts \<and> branch_clean \<noteq> [] then [url [last base_parts, branch_clean]] else [])
         @ (if base_parts \<noteq> [] then [url base_parts] else [])
         @ (if normalized_parts \<noteq> [] then [url normalized_parts] else []))"

definition build_trigger_url_candidates :: "settings \<Rightarrow> string \<Rightarrow> string \<Rightarrow> string list" where
  "build_trigger_url_candidates st job_name branch = dedup_seen [] (url_candidates st job_name branch)"

section \<open>Reading an encoded segment back\<close>

fun unquote_bytes :: "string \<Rightarrow> nat list" where
  "unquote_bytes [] = []"
| "unquote_bytes [c] = [cp c]"
| "unquote_bytes [c, x] = [cp c, cp x]"
| "unquote_bytes (c # x # y # s) =
     (if c = CHR ''%'' then (16 * hex_value x + hex_value y) # unquote_bytes s
      else cp c # unquote_bytes (x # y # s))"

fun utf8_decode :: "nat list \<Rightarrow> string" where
  "utf8_decode [] = []"
| "utf8_decode [b] = [char_of b]"
| "utf8_decode (b # b' # bs) =
     (if b < 128 then char_of b # utf8_decode (b' # bs)
      else char_of ((b - 192) * 64 + (b' - 128)) # utf8_decode bs)"

definition unquote :: "string \<Rightarrow> string" where
  "unquote s = utf8_decode (unquote_bytes s)"

lemma hex_round: "n < 16 \<Longrightarrow> hex_value (hex_upper n) = n"
  by (auto simp: hex_value_def hex_upper_def cp_char_of)

lemma unquote_percent: "b < 256 \<Longrightarrow> unquote_bytes (percent_byte b @ s) = b # unquote_bytes s"
proof -
  assume "b < 256"
  then have "b div 16 < 16" by simp
  then show ?thesis by (simp add: percent_byte_def hex_round)
qed

lemma unquote_plain: "c \<noteq> CHR ''%'' \<Longrightarrow> unquote_bytes (c # s) = cp c # unquote_bytes s"
  by (cases s; cases "tl s") auto

lemma unreserved_ascii: "unreserved c \<Longrightarrow> cp c < 128 \<and> c \<noteq> CHR ''%''"
  by (auto simp: unreserved_def char_class_defs)

lemma unquote_bytes_char: "unquote_bytes (quote_char c @ s) = utf8_bytes c @ unquote_bytes s"
proof (cases "unreserved c")
  case True
  then show ?thesis using unreserved_ascii [OF True]
    by (simp add: quote_char_def utf8_bytes_def unquote_plain)
next
  case False
  have "cp c div 64 < 4" using cp_bound [of c] by simp
  then have "192 + cp c div 64 < 256" "128 + cp c mod 64 < 256" by simp_all
  then show ?thesis using False cp_bound [of c]
    by (simp add: quote_char_def utf8_bytes_def Let_def unquote_percent)
qed

lemma unquote_bytes_quote: "unquote_bytes (quote s) = concat (map utf8_bytes s)"
proof (induction s)
  case (Cons c s)
  then show ?case by (simp add: quote_def unquote_bytes_char)
qed (simp add: quote_def)

lemma char_of_cp [simp]: "char_of (cp c) = c"
  by (simp add: cp_def)

lemma utf8_decode_char: "utf8_decode (utf8_bytes c @ bs) = c # utf8_decode bs"
proof (cases "cp c < 128")
  case True
  then show ?thesis by (cases bs) (simp_all add: utf8_bytes_def)
next
  case False
  have "(cp c div 64) * 64 + cp c mod 64 = cp c" by simp
  then show ?thesis using False by (simp add: utf8_bytes_def Let_def)
qed

lemma unquote_quote: "unquote (quote s) = s"
proof -
  have "utf8_decode (concat (map utf8_bytes s)) = s"
    by (induction s) (simp_all add: utf8_decode_char)
  then show ?thesis by (simp add: unquote_def unquote_bytes_quote)
qed

lemma quote_inj: "quote s = quote t \<longleftrightarrow> s = t"
  by (metis unquote_quote)

lemma hex_not_slash: "n < 16 \<Longrightarrow> hex_upper n \<noteq> CHR ''/''"
proof -
  assume "n < 16"
  then have "cp (hex_upper n) \<noteq> 47" by (simp add: hex_upper_def cp_char_of)
  then show "hex_upper n \<noteq> CHR ''/''" by (auto simp: cp_def)
qed

lemma percent_byte_no_slash:
  assumes "b < 256"
  shows "CHR ''/'' \<notin> set (percent_byte b)"
proof -
  have "b div 16 < 16" "b mod 16 < 16" using assms by simp_all
  from this [THEN hex_not_slash] show ?thesis unfolding percent_byte_def by auto
qed

lemma utf8_bytes_bound: "b \<in> set (utf8_bytes c) \<Longrightarrow> b < 256"
proof -
  have "cp c div 64 < 4" "cp c mod 64 < 64" using cp_bound [of c] by simp_all
  then show "b \<in> set (utf8_bytes c) \<Longrightarrow> b < 256" by (auto simp: utf8_bytes_def Let_def split: if_splits)
qed

lemma quote_no_slash: "CHR ''/'' \<notin> set (quote s)"
proof -
  have "CHR ''/'' \<notin> set (quote_char c)" for c
  proof (cases "unreserved c")
    case True
    then show ?thesis by (auto simp: quote_char_def unreserved_def char_class_defs)
  next
    case False
    then show ?thesis using percent_byte_no_slash utf8_bytes_bound by (auto simp: quote_char_def)
  qed
  then show ?thesis by (auto simp: quote_def)
qed

lemma quote_not_Nil: "s \<noteq> [] \<Longrightarrow> quote s \<noteq> []"
  by (metis unquote_quote unquote_bytes.simps(1) utf8_decode.simps(1) unquote_def)

section \<open>Facts about the candidates\<close>

lemma job_segments_split:
  assumes "segs \<noteq> []"
  shows "py_split CHR ''/'' (py_join ''/'' (map job_segment segs)) = concat (map (\<lambda>s. [''job'', quote s]) segs)"
  using assms
proof (induction segs)
  case (Cons s segs)
  have ns: "CHR ''/'' \<notin> set ''job''" by simp
  show ?case
  proof (cases segs)
    case Nil
    have "py_split CHR ''/'' (''job'' @ CHR ''/'' # quote s) = [''job'', quote s]"
      using py_split_append [OF ns] py_split_no_sep [OF quote_no_slash] by metis
    then show ?thesis using Nil by (simp add: job_segment_def)
  next
    case (Cons v vs)
    have "py_join ''/'' (map job_segment (s # segs)) =
        ''job'' @ CHR ''/'' # quote s @ CHR ''/'' # py_join ''/'' (map job_segment segs)"
      using Cons by (simp add: job_segment_def)
    moreover have "py_split CHR ''/'' (''job'' @ CHR ''/'' # quote s @ CHR ''/'' # u) = ''job'' # quote s # py_split CHR ''/'' u" for u
      using py_split_append [OF ns] py_split_append [OF quote_no_slash] by metis
    ultimately show ?thesis using Cons.IH Cons by simp
  qed
qed simp

text \<open>The segments of a path can be read back from it.\<close>

fun every_second :: "'a list \<Rightarrow> 'a list" where
  "every_second (x # y # zs) = y # every_second zs"
| "every_second _ = []"

definition read_job_path :: "string \<Rightarrow> string list" where
  "read_job_path p = (if p = [] then [] else map unquote (every_second (py_split CHR ''/'' p)))"

lemma read_job_path_segments: "read_job_path (py_join ''/'' (map job_segment segs)) = segs"
proof (cases "segs = []")
  case True
  then show ?thesis by (simp add: read_job_path_def)
next
  case False
  have "map unquote (every_second (concat (map (\<lambda>s. [''job'', quote s]) segs))) = segs"
    by (induction segs) (simp_all add: unquote_quote)
  moreover have "py_join ''/'' (map job_segment segs) \<noteq> []"
    using False by (cases segs; cases "tl segs") (auto simp: job_segment_def)
  ultimately show ?thesis using job_segments_split [OF False] by (simp add: read_job_path_def)
qed

section \<open>Properties\<close>

text \<open>
  C25: the URL path of a job determines the non-empty parts of its name, for every
  name, whatever characters it contains: each is one percent-encoded segment
  after a \<open>job\<close> segment, and decoding the path gives the parts back.
\<close>

theorem job_path_roundtrip:
  "read_job_path (jenkins_job_path job) = nonempty_parts job"
  by (simp add: jenkins_job_path_def read_job_path_segments)

text \<open>
  The trigger candidates are pairwise different, at most four, and keep the
  order from the most specific path to the fallback.
\<close>

theorem trigger_candidates:
  "distinct (build_trigger_url_candidates st job branch) \<and> length (build_trigger_url_candidates st job branch) \<le> 4
   \<and> set (build_trigger_url_candidates st job branch) = set (url_candidates st job branch)
   \<and> subseq (build_trigger_url_candidates st job branch) (url_candidates st job branch)"
proof -
  have "length (url_candidates st job branch) \<le> 4" by (simp add: url_candidates_def Let_def)
  moreover have "length (dedup_seen [] xs) \<le> length xs" for xs :: "string list"
    using subseq_dedup_seen list_emb_length by blast
  ultimately have "length (build_trigger_url_candidates st job branch) \<le> 4"
    unfolding build_trigger_url_candidates_def by (meson le_trans)
  then show ?thesis
    by (simp add: build_trigger_url_candidates_def distinct_dedup_seen set_dedup_seen subseq_dedup_seen)
qed

text \<open>
  For a job named by the convention \<open>org/repo/branch\<close> with parts free of
  slashes, the candidates are the multibranch job, the same without the
  organisation, and the repository job, in this order (the last candidate
  repeats the first).
\<close>

theorem trigger_candidates_conventional:
  assumes "list_all (\<lambda>s. s \<noteq> [] \<and> CHR ''/'' \<notin> set s) [org, repo, br]"
  shows "url_candidates st (org @ ''/'' @ repo @ ''/'' @ br) br =
    [JENKINS_URL st @ ''/job/'' @ quote org @ ''/job/'' @ quote repo @ ''/job/'' @ quote br,
     JENKINS_URL st @ ''/job/'' @ quote repo @ ''/job/'' @ quote br,
     JENKINS_URL st @ ''/job/'' @ quote org @ ''/job/'' @ quote repo,
     JENKINS_URL st @ ''/job/'' @ quote org @ ''/job/'' @ quote repo @ ''/job/'' @ quote br]"
proof -
  have ns: "org \<noteq> []" "repo \<noteq> []" "br \<noteq> []" "CHR ''/'' \<notin> set org" "CHR ''/'' \<notin> set repo" "CHR ''/'' \<notin> set br"
    using assms by simp_all
  have strip: "strip_by is_slash s = s" if "s \<noteq> []" "CHR ''/'' \<noteq> hd s" "CHR ''/'' \<noteq> last s" for s
    using that by (intro strip_by_none) (auto simp: is_slash_def)
  have part: "strip_by is_slash s = s" if "s \<noteq> []" "CHR ''/'' \<notin> set s" for s
    using that by (intro strip) (auto dest: hd_in_set last_in_set)
  let ?n = "org @ CHR ''/'' # repo @ CHR ''/'' # br"
  have n: "strip_by is_slash ?n = ?n"
    using ns by (intro strip) (auto simp: hd_append dest: hd_in_set last_in_set)
  have base: "job_base ?n br = org @ CHR ''/'' # repo" using ns by (simp add: job_base_def endswith_def)
  have sp: "py_split CHR ''/'' (w @ CHR ''/'' # s) = w # py_split CHR ''/'' s" if "CHR ''/'' \<notin> set w" for w s
    by (rule py_split_append [OF that])
  have parts: "nonempty_parts (org @ CHR ''/'' # repo) = [org, repo]" "nonempty_parts ?n = [org, repo, br]"
    using ns by (simp_all add: nonempty_parts_def sp py_split_no_sep)
  show ?thesis using ns
    by (simp add: url_candidates_def Let_def n part base parts encode_jenkins_path_def job_segment_def)
qed

theorem trigger_candidates_conventional_witness:
  "list_all (\<lambda>s. s \<noteq> [] \<and> CHR ''/'' \<notin> set s) [''acme'', ''app'', ''main''] \<and>
   hd (url_candidates default_settings ''acme/app/main'' ''main'') =
     ''http://localhost:8080/job/'' @ quote ''acme'' @ ''/job/'' @ quote ''app'' @ ''/job/'' @ quote ''main''"
proof -
  have h: "list_all (\<lambda>s. s \<noteq> [] \<and> CHR ''/'' \<notin> set s) [''acme'', ''app'', ''main'']" by simp
  show ?thesis using h trigger_candidates_conventional [OF h, of default_settings]
    by (simp add: default_settings_def)
qed

end
