(* ===== verification/Pipeline_Tasks.thy ===== *)
theory Pipeline_Tasks
  imports Job_Scheduler Jenkins_Urls
begin

text \<open>
  \<open>app/pipeline_tasks.py\<close>: triggering a Jenkins build and following its stages,
  as the two Celery tasks and the functions they share with the scheduler.
  Jenkins is a parameter: what it answers to each request of one call.  A task
  returns the committed database, the threads it starts and how it ends.
\<close>

section \<open>Triggering\<close>

text \<open>
  \<open>post url params\<close> is the answer to one trigger request.  The loop keeps the
  queue URL and the last error; \<open>accepted\<close> records the requests Jenkins accepted
  (each of them queues a build).
\<close>

type_synonym post_fun = "string \<Rightarrow> (string \<times> string) list option \<Rightarrow> http_result"

record trigger_state =
  ts_queue_url :: string
  ts_last_error :: string
  ts_accepted :: "string list"

definition trigger_params :: "string \<Rightarrow> string option \<Rightarrow> (string \<times> string) list" where
  "trigger_params branch commit_sha =
     (if truthy commit_sha then [(''GIT_COMMIT'', the commit_sha)] else []) @ [(''BRANCH'', branch)]"

definition error_of_response :: "http_response \<Rightarrow> string" where
  "error_of_response r = str_nat (status_code r) @ '': '' @ take 200 (response_text r)"

text \<open>The inner loop over the endpoints of one URL.\<close>

fun try_endpoints ::
    "post_fun \<Rightarrow> (string \<times> string) list \<Rightarrow> string \<Rightarrow> string list \<Rightarrow> trigger_state \<Rightarrow> trigger_state res" where
  "try_endpoints post params url [] s = Inr s"
| "try_endpoints post params url (e # es) s =
     (case post (url @ ''/'' @ e) (if e = ''buildWithParameters'' then Some params else None) of
        Inl err \<Rightarrow> Inl (OtherError err)
      | Inr r \<Rightarrow>
          if status_code r \<in> {200, 201, 202}
          then Inr (s\<lparr>ts_queue_url := location r, ts_accepted := ts_accepted s @ [url @ ''/'' @ e]\<rparr>)
          else try_endpoints post params url es (s\<lparr>ts_last_error := error_of_response r\<rparr>))"

fun try_urls :: "post_fun \<Rightarrow> (string \<times> string) list \<Rightarrow> string list \<Rightarrow> trigger_state \<Rightarrow> trigger_state res" where
  "try_urls post params [] s = Inr s"
| "try_urls post params (url # urls) s =
     rbind (try_endpoints post params url [''buildWithParameters'', ''build''] s) (\<lambda>s'.
       if ts_queue_url s' \<noteq> [] then Inr s' else try_urls post params urls s')"

definition start_trigger :: trigger_state where
  "start_trigger = \<lparr>ts_queue_url = [], ts_last_error = [], ts_accepted = []\<rparr>"

definition request_build :: "settings \<Rightarrow> post_fun \<Rightarrow> string \<Rightarrow> string \<Rightarrow> string option \<Rightarrow> trigger_state res" where
  "request_build st post job_name branch commit_sha =
     rbind (try_urls post (trigger_params branch commit_sha) (build_trigger_url_candidates st job_name branch)
         start_trigger)
       (\<lambda>s. if ts_queue_url s = [] \<and> ts_last_error s \<noteq> []
            then Inl (RuntimeError (''Jenkins trigger failed for '' @ CHR 0x27 # job_name @ CHR 0x27 # '' (''
              @ ts_last_error s @ '')''))
            else Inr s)"

text \<open>
  Resolution of a queue item: \<open>polls\<close> are the answers received before the
  deadline.  Jenkins documents \<open>executable\<close> as an object with an integer number
  and a URL; anything else of that name raises.
\<close>

definition executable_of :: "json \<Rightarrow> (int \<times> string) res" where
  "executable_of exe =
     (case exe of
        JObj kvs \<Rightarrow>
          (case (map_of (rev kvs) ''number'', map_of (rev kvs) ''url'') of
             (Some (JInt n), Some (JStr u)) \<Rightarrow> Inr (n, u)
           | (Some _, Some _) \<Rightarrow> Inl TypeError
           | _ \<Rightarrow> Inl KeyError)
      | _ \<Rightarrow> Inl TypeError)"

fun resolve_polls :: "settings \<Rightarrow> http_result list \<Rightarrow> (int \<times> string) res" where
  "resolve_polls st [] = Inr (0, JENKINS_URL st @ ''/'')"
| "resolve_polls st (Inl err # polls) = Inl (OtherError err)"
| "resolve_polls st (Inr r # polls) =
     (if status_code r = 200
      then (case response_json r of
          None \<Rightarrow> Inl (ValueError ''json'')
        | Some data \<Rightarrow> rbind (jget0 data ''executable'') (\<lambda>exe.
            if jtruthy exe then executable_of exe else resolve_polls st polls))
      else resolve_polls st polls)"

definition resolve_queue_item :: "settings \<Rightarrow> string \<Rightarrow> http_result list \<Rightarrow> (int \<times> string) res" where
  "resolve_queue_item st queue_url polls =
     (if queue_url = [] then Inr (0, JENKINS_URL st @ ''/'') else resolve_polls st polls)"

definition trigger_jenkins ::
    "settings \<Rightarrow> post_fun \<Rightarrow> (string \<Rightarrow> http_result list) \<Rightarrow> string \<Rightarrow> string \<Rightarrow> string option \<Rightarrow> (int \<times> string) res" where
  "trigger_jenkins st post polls job_name branch commit_sha =
     rbind (request_build st post job_name branch commit_sha) (\<lambda>s.
       resolve_queue_item st (ts_queue_url s)
         (polls (rstrip_by is_slash (ts_queue_url s) @ ''/api/json'')))"

section \<open>Following the stages of a build\<close>

definition build_root :: "settings \<Rightarrow> string \<Rightarrow> int \<Rightarrow> string option \<Rightarrow> string" where
  "build_root st job_name build_number build_url =
     (if truthy build_url then rstrip_by is_slash (the build_url)
      else JENKINS_URL st @ ''/job/'' @ replace_char CHR ''/'' ''/job/'' job_name @ ''/'' @ str_int build_number)"

text \<open>An identifier in a formatted string (Jenkins documents node ids as strings).\<close>

fun format_id :: "json \<Rightarrow> string" where
  "format_id (JStr s) = s"
| "format_id (JInt i) = str_int i"
| "format_id (JBool b) = (if b then ''True'' else ''False'')"
| "format_id _ = ''None''"

text \<open>Any failure to get the log text leaves no excerpt.\<close>

definition stage_log_excerpt :: "(string \<Rightarrow> http_result) \<Rightarrow> string \<Rightarrow> json \<Rightarrow> string option" where
  "stage_log_excerpt get base_url js =
     (case jget js ''id'' (JStr []) of
        Inl _ \<Rightarrow> None
      | Inr i \<Rightarrow>
          (case get (base_url @ ''/execution/node/'' @ format_id i @ ''/wfapi/log'') of
             Inl _ \<Rightarrow> None
           | Inr r \<Rightarrow>
               if status_code r = 200
               then (case Option.bind (response_json r) (\<lambda>d. case jget d ''text'' (JStr []) of
                         Inr (JStr t) \<Rightarrow> Some t | _ \<Rightarrow> None) of
                       None \<Rightarrow> None | Some t \<Rightarrow> Some (take_last 1000 t))
               else None))"

text \<open>
  One stage of the answer.  A status or name that is no string equals none of
  the strings and no stored name.
\<close>

definition stage_done_statuses :: "string list" where
  "stage_done_statuses = [''SUCCESS'', ''FAILED'', ''UNSTABLE'']"

definition sync_stage ::
    "(string \<Rightarrow> http_result) \<Rightarrow> string \<Rightarrow> int \<Rightarrow> time \<Rightarrow> json \<Rightarrow> db \<Rightarrow> db res" where
  "sync_stage get base_url run_id now js d =
     rbind (jget js ''name'' (JStr [])) (\<lambda>name.
     rbind (jget js ''status'' (JStr [])) (\<lambda>status.
       case (str_opt name, str_opt status) of
         (Some n, Some s) \<Rightarrow>
           if s = ''IN_PROGRESS'' then on_stage_started d run_id n now
           else if s \<in> set stage_done_statuses
           then on_stage_completed d run_id n (s = ''SUCCESS'') (stage_log_excerpt get base_url js) now
           else Inr d
       | _ \<Rightarrow> Inr d))"

text \<open>The loop commits after every stage: an exception keeps what came before.\<close>

fun sync_all ::
    "(string \<Rightarrow> http_result) \<Rightarrow> string \<Rightarrow> int \<Rightarrow> time \<Rightarrow> json list \<Rightarrow> db \<Rightarrow> db \<times> unit res" where
  "sync_all get base_url run_id now [] d = (d, Inr ())"
| "sync_all get base_url run_id now (js # rest) d =
     (case sync_stage get base_url run_id now js d of
        Inl e \<Rightarrow> (d, Inl e)
      | Inr d' \<Rightarrow> sync_all get base_url run_id now rest d')"

definition terminal_results :: "string list" where
  "terminal_results = [''SUCCESS'', ''FAILURE'', ''ABORTED'', ''UNSTABLE'']"

text \<open>The build status and the stages of the answer.\<close>

definition describe_fields :: "json \<Rightarrow> (json \<times> json list) res" where
  "describe_fields data =
     rbind (jget data ''status'' (JStr [])) (\<lambda>s.
     rbind (jget data ''stages'' (JArr [])) (\<lambda>x. rbind (json_items x) (\<lambda>xs. Inr (s, xs))))"

definition sync_stages ::
    "settings \<Rightarrow> (string \<Rightarrow> http_result) \<Rightarrow> db \<Rightarrow> int \<Rightarrow> string \<Rightarrow> int \<Rightarrow> string option \<Rightarrow> time
     \<Rightarrow> db \<times> effect list \<times> bool res" where
  "sync_stages st get d run_id job_name build_number build_url now =
     (let base_url = build_root st job_name build_number build_url in
      case get (base_url @ ''/wfapi/describe'') of
        Inl _ \<Rightarrow> (d, [], Inr False)
      | Inr r \<Rightarrow>
          if status_code r \<noteq> 200 then (d, [], Inr False)
          else (case response_json r of
              None \<Rightarrow> (d, [], Inl (ValueError ''json''))
            | Some data \<Rightarrow>
                (case describe_fields data of
                   Inl e \<Rightarrow> (d, [], Inl e)
                 | Inr (build_status, stages) \<Rightarrow>
                     (case sync_all get base_url run_id now stages d of
                        (d1, Inl e) \<Rightarrow> (d1, [], Inl e)
                      | (d1, Inr _) \<Rightarrow>
                          (case str_opt build_status of
                             Some res \<Rightarrow>
                               if res \<in> set terminal_results
                               then (let (d2, effs) = on_build_completed st d1 run_id res now in (d2, effs, Inr True))
                               else (d1, [], Inr False)
                           | None \<Rightarrow> (d1, [], Inr False))))))"

section \<open>The Celery tasks\<close>

definition finalize_exhausted_poll :: "settings \<Rightarrow> db \<Rightarrow> int \<Rightarrow> string \<Rightarrow> time \<Rightarrow> db \<times> effect list" where
  "finalize_exhausted_poll st d run_id fallback_result now =
     (case get_run d run_id of
        None \<Rightarrow> (d, [])
      | Some r \<Rightarrow>
          if pr_status r \<in> {RS_COMPLETED, RS_FAILED, RS_ABORTED} then (d, [])
          else on_build_completed st d run_id fallback_result now)"

text \<open>
  How a task ends: with a value, with a request to be run again (which Celery
  grants while retries are left and turns into \<open>MaxRetriesExceededError\<close> or the
  given exception otherwise), or finalised as a failure.  \<open>Triggered\<close> starts
  polling the build.
\<close>

datatype task_end =
    Triggered int string
  | Polled
  | FinalizedAs string
  | RetryLater

definition trigger_max_retries :: nat where "trigger_max_retries = 3"
definition poll_max_retries :: nat where "poll_max_retries = 60"

definition trigger_jenkins_build ::
    "settings \<Rightarrow> post_fun \<Rightarrow> (string \<Rightarrow> http_result list) \<Rightarrow> nat \<Rightarrow> db \<Rightarrow> int \<Rightarrow> string \<Rightarrow> string \<Rightarrow> string option
     \<Rightarrow> time \<Rightarrow> db \<times> effect list \<times> task_end" where
  "trigger_jenkins_build st post polls retries d run_id job_name branch commit_sha now =
     (case trigger_jenkins st post polls job_name branch commit_sha of
        Inr (n, u) \<Rightarrow> (on_build_started d run_id n u now, [], Triggered n u)
      | Inl e \<Rightarrow>
          if trigger_max_retries \<le> retries
          then (let (d', effs) = finalize_exhausted_poll st d run_id ''ABORTED'' now
                in (d', effs, FinalizedAs ''ABORTED''))
          else (d, [], RetryLater))"

definition poll_pipeline_stages ::
    "settings \<Rightarrow> (string \<Rightarrow> http_result) \<Rightarrow> nat \<Rightarrow> db \<Rightarrow> int \<Rightarrow> string \<Rightarrow> int \<Rightarrow> string option \<Rightarrow> time
     \<Rightarrow> db \<times> effect list \<times> task_end" where
  "poll_pipeline_stages st get retries d run_id job_name build_number build_url now =
     (case sync_stages st get d run_id job_name build_number build_url now of
        (d1, effs, Inl e) \<Rightarrow>
          if poll_max_retries \<le> retries
          then (let fallback = (if build_number = 0 then ''ABORTED'' else ''FAILURE'');
                    (d2, effs2) = finalize_exhausted_poll st d1 run_id fallback now
                in (d2, effs @ effs2, FinalizedAs fallback))
          else (d1, effs, RetryLater)
      | (d1, effs, Inr done_flag) \<Rightarrow> (d1, effs, if done_flag then Polled else RetryLater))"

section \<open>What the stage loop keeps\<close>

lemma on_stage_runs:
  "on_stage_started d r n now = Inr d' \<Longrightarrow> runs_t d' = runs_t d \<and> workers_t d' = workers_t d \<and> assigns_t d' = assigns_t d"
  "on_stage_completed d r n ok ex now = Inr d' \<Longrightarrow> runs_t d' = runs_t d \<and> workers_t d' = workers_t d \<and> assigns_t d' = assigns_t d"
  by (auto simp: on_stage_started_def on_stage_completed_def db_simps split: option.splits)

lemma sync_stage_cases:
  assumes "sync_stage get u r now js d = Inr d'"
  obtains "d' = d" | n where "on_stage_started d r n now = Inr d'"
    | n ok ex where "on_stage_completed d r n ok ex now = Inr d'"
proof -
  obtain x y where xy: "jget js ''name'' (JStr []) = Inr x" "jget js ''status'' (JStr []) = Inr y"
    using assms unfolding sync_stage_def rbind_eq_Inr by blast
  show thesis
  proof (cases "str_opt x = None \<or> str_opt y = None")
    case True
    then have "d' = d" using assms xy by (auto simp: sync_stage_def split: option.splits)
    then show thesis by (rule that(1))
  next
    case False
    then obtain n s where ns: "str_opt x = Some n" "str_opt y = Some s" by auto
    have e: "(if s = ''IN_PROGRESS'' then on_stage_started d r n now
        else if s \<in> set stage_done_statuses
        then on_stage_completed d r n (s = ''SUCCESS'') (stage_log_excerpt get u js) now
        else Inr d) = Inr d'"
      using assms by (simp only: sync_stage_def xy rbind.simps ns option.case prod.case)
    show thesis
    proof (cases "s = ''IN_PROGRESS''")
      case True
      then show thesis using e that(2) by (simp only: if_True refl)
    next
      case False
      show thesis
      proof (cases "s \<in> set stage_done_statuses")
        case True
        then show thesis using e False that(3) by (simp only: if_True if_False)
      next
        case f: False
        then have "d = d'" using e False by (simp only: if_False sum.inject)
        then show thesis using that(1) by simp
      qed
    qed
  qed
qed

lemma sync_stage_keeps:
  assumes "sync_stage get u r now js d = Inr d'"
  shows "runs_t d' = runs_t d \<and> workers_t d' = workers_t d \<and> assigns_t d' = assigns_t d \<and> (db_ok d \<longrightarrow> db_ok d')"
  using assms
proof (cases rule: sync_stage_cases)
  case 1
  then show ?thesis by simp
next
  case 2
  then show ?thesis using on_stage_runs(1) [OF 2] db_ok_stage_started [OF _ 2] by simp
next
  case 3
  then show ?thesis using on_stage_runs(2) [OF 3] db_ok_stage_completed [OF _ 3] by simp
qed

lemma sync_all_keeps:
  "runs_t (fst (sync_all get u r now js d)) = runs_t d \<and> workers_t (fst (sync_all get u r now js d)) = workers_t d
   \<and> assigns_t (fst (sync_all get u r now js d)) = assigns_t d
   \<and> (db_ok d \<longrightarrow> db_ok (fst (sync_all get u r now js d)))"
proof (induction js arbitrary: d)
  case (Cons j js)
  show ?case
  proof (cases "sync_stage get u r now j d")
    case (Inr d1)
    then show ?thesis using Cons.IH [of d1] sync_stage_keeps [OF Inr] by auto
  qed simp
qed simp

lemma get_run_sync: "get_run (fst (sync_all get u r now js d)) i = get_run d i"
  using sync_all_keeps [of get u r now js d] by (simp add: get_run_def get_run_row_def)

text \<open>A call of \<open>sync_stages\<close> either leaves the runs alone or finishes its run.\<close>

lemma sync_stages_cases:
  obtains (open_build) d1 res where "sync_stages st get d r job n u now = (d1, [], res)" "res \<noteq> Inr True"
      "runs_t d1 = runs_t d" "workers_t d1 = workers_t d" "assigns_t d1 = assigns_t d" "db_ok d \<Longrightarrow> db_ok d1"
      "d1 = d \<or> (\<exists>v xs. d1 = fst (sync_all get v r now xs d))"
  | (finished) d1 res where "sync_stages st get d r job n u now =
        (fst (on_build_completed st d1 r res now), snd (on_build_completed st d1 r res now), Inr True)"
      "res \<in> set terminal_results" "runs_t d1 = runs_t d" "workers_t d1 = workers_t d" "assigns_t d1 = assigns_t d"
      "db_ok d \<Longrightarrow> db_ok d1" "d1 = d \<or> (\<exists>v xs. d1 = fst (sync_all get v r now xs d))"
proof (cases "get (build_root st job n u @ ''/wfapi/describe'')")
  case (Inl e)
  then show ?thesis using open_build [of d "Inr False"] by (simp add: sync_stages_def Let_def)
next
  case (Inr a)
  let ?u = "build_root st job n u"
  show ?thesis
  proof (cases "status_code a = 200")
    case False
    then show ?thesis using Inr open_build [of d "Inr False"] by (simp add: sync_stages_def Let_def)
  next
    case ok: True
    show ?thesis
    proof (cases "response_json a")
      case None
      then show ?thesis using Inr ok open_build [of d "Inl (ValueError ''json'')"] by (simp add: sync_stages_def Let_def)
    next
      case data: (Some data)
      show ?thesis
      proof (cases "describe_fields data")
        case (Inl e)
        then show ?thesis using Inr ok data \<open>get _ = Inr a\<close> open_build [of d "Inl e"] by (simp add: sync_stages_def Let_def)
      next
        case sx: (Inr sx)
        obtain s xs where sx': "sx = (s, xs)" by (cases sx)
        let ?s = "sync_all get ?u r now xs d"
        note keeps = sync_all_keeps [of get ?u r now xs d]
        obtain d1 y where y: "?s = (d1, y)" by (cases ?s)
        have k: "runs_t d1 = runs_t d" "workers_t d1 = workers_t d" "assigns_t d1 = assigns_t d" "db_ok d \<Longrightarrow> db_ok d1"
          "d1 = d \<or> (\<exists>v xs. d1 = fst (sync_all get v r now xs d))"
          using keeps y by (auto intro!: exI [of _ ?u] exI [of _ xs])
        have eq: "sync_stages st get d r job n u now =
          (case y of Inl e \<Rightarrow> (d1, [], Inl e) | Inr _ \<Rightarrow> (case str_opt s of
              Some res \<Rightarrow> if res \<in> set terminal_results
                then (let (d2, effs) = on_build_completed st d1 r res now in (d2, effs, Inr True)) else (d1, [], Inr False)
            | None \<Rightarrow> (d1, [], Inr False)))"
          using \<open>get _ = Inr a\<close> ok data sx sx' y by (simp add: sync_stages_def Let_def)
        show ?thesis
        proof (cases "\<exists>res v. y = Inr v \<and> str_opt s = Some res \<and> res \<in> set terminal_results")
          case True
          then obtain res v where "y = Inr v" "str_opt s = Some res" "res \<in> set terminal_results" by blast
          then show ?thesis using eq k finished [of d1 res] by (simp add: case_prod_unfold Let_def)
        next
          case False
          then obtain x where "sync_stages st get d r job n u now = (d1, [], x)" "x \<noteq> Inr True"
            using eq by (cases y) (auto split: option.splits)
          then show ?thesis using open_build k by blast
        qed
      qed
    qed
  qed
qed

section \<open>Triggering: how often a build is started\<close>

text \<open>The requests of a trigger in the order they may be sent, with their parameters.\<close>

definition trigger_requests :: "(string \<times> string) list \<Rightarrow> string list \<Rightarrow> (string \<times> (string \<times> string) list option) list" where
  "trigger_requests params urls =
     concat (map (\<lambda>u. [(u @ ''/buildWithParameters'', Some params), (u @ ''/build'', None)]) urls)"

definition accepted_response :: "http_response \<Rightarrow> bool" where
  "accepted_response r \<longleftrightarrow> status_code r \<in> {200, 201, 202}"

definition refused :: "post_fun \<Rightarrow> string \<times> (string \<times> string) list option \<Rightarrow> bool" where
  "refused post q = (case post (fst q) (snd q) of Inl _ \<Rightarrow> False | Inr r \<Rightarrow> \<not> accepted_response r)"

text \<open>Every accepted request is answered with the location of its queue item.\<close>

definition always_located :: "post_fun \<Rightarrow> bool" where
  "always_located post \<longleftrightarrow> (\<forall>url ps r. post url ps = Inr r \<and> accepted_response r \<longrightarrow> location r \<noteq> [])"

lemma try_endpoints_two:
  "try_endpoints post params u [''buildWithParameters'', ''build''] s =
     (case post (u @ ''/buildWithParameters'') (Some params) of
        Inl err \<Rightarrow> Inl (OtherError err)
      | Inr r \<Rightarrow>
          if accepted_response r
          then Inr (s\<lparr>ts_queue_url := location r, ts_accepted := ts_accepted s @ [u @ ''/buildWithParameters'']\<rparr>)
          else (case post (u @ ''/build'') None of
              Inl err \<Rightarrow> Inl (OtherError err)
            | Inr r' \<Rightarrow>
                if accepted_response r'
                then Inr (s\<lparr>ts_queue_url := location r', ts_last_error := error_of_response r,
                  ts_accepted := ts_accepted s @ [u @ ''/build'']\<rparr>)
                else Inr (s\<lparr>ts_last_error := error_of_response r'\<rparr>)))"
  by (simp add: accepted_response_def split: sum.split)

lemma error_of_response_nonempty: "error_of_response r \<noteq> []"
  by (simp add: error_of_response_def)

text \<open>What the loops leave, by the first request that is not refused.\<close>

definition scan_result :: "post_fun \<Rightarrow> bool \<Rightarrow> (string \<times> (string \<times> string) list option) list \<Rightarrow> trigger_state res \<Rightarrow> bool" where
  "scan_result post failed qs res =
     (case dropWhile (refused post) qs of
        [] \<Rightarrow> (\<exists>s. res = Inr s \<and> ts_queue_url s = [] \<and> ts_accepted s = [] \<and> (failed \<longrightarrow> ts_last_error s \<noteq> []))
      | (u, p) # _ \<Rightarrow> (case post u p of
            Inl err \<Rightarrow> res = Inl (OtherError err)
          | Inr r \<Rightarrow> (\<exists>s. res = Inr s \<and> ts_accepted s = [u] \<and> ts_queue_url s = location r \<and> ts_queue_url s \<noteq> [])))"

lemma scan_refused: "refused post q \<Longrightarrow> scan_result post failed (q # qs) res = scan_result post failed qs res"
  by (simp add: scan_result_def)

lemma scan_error: "post u p = Inl err \<Longrightarrow> scan_result post failed ((u, p) # qs) (Inl (OtherError err))"
  by (simp add: scan_result_def refused_def)

lemma scan_hit:
  "post u p = Inr r \<Longrightarrow> accepted_response r \<Longrightarrow> ts_accepted s = [u] \<Longrightarrow> ts_queue_url s = location r \<Longrightarrow> location r \<noteq> []
    \<Longrightarrow> scan_result post failed ((u, p) # qs) (Inr s)"
  by (simp add: scan_result_def refused_def)

lemma try_urls_requests:
  assumes "always_located post"
    and "ts_queue_url s = []" "ts_accepted s = []"
  shows "scan_result post (urls \<noteq> [] \<or> ts_last_error s \<noteq> []) (trigger_requests params urls) (try_urls post params urls s)"
  using assms(2,3)
proof (induction urls arbitrary: s)
  case Nil
  then show ?case by (simp add: trigger_requests_def scan_result_def)
next
  case (Cons u urls)
  have loc: "post url ps = Inr r \<Longrightarrow> accepted_response r \<Longrightarrow> location r \<noteq> []" for url ps r
    using assms(1) by (auto simp: always_located_def)
  let ?a = "(u @ ''/buildWithParameters'', Some params)" and ?b = "(u @ ''/build'', None)"
  have reqs: "trigger_requests params (u # urls) = ?a # ?b # trigger_requests params urls"
    by (simp add: trigger_requests_def)
  have tu: "try_urls post params (u # urls) s = rbind (try_endpoints post params u [''buildWithParameters'', ''build''] s)
      (\<lambda>s'. if ts_queue_url s' \<noteq> [] then Inr s' else try_urls post params urls s')"
    by (rule try_urls.simps)
  show ?case
  proof (cases "post (u @ ''/buildWithParameters'') (Some params)")
    case (Inl e)
    show ?thesis unfolding reqs tu try_endpoints_two Inl sum.case rbind.simps by (rule scan_error) (rule Inl)
  next
    case a: (Inr r)
    show ?thesis
    proof (cases "accepted_response r")
      case True
      then show ?thesis unfolding reqs tu try_endpoints_two a
        using Cons.prems loc [OF a] by (simp add: scan_hit a)
    next
      case ra: False
      then have fa: "refused post ?a" by (simp add: refused_def a)
      show ?thesis
      proof (cases "post (u @ ''/build'') None")
        case (Inl e)
        then show ?thesis unfolding reqs tu try_endpoints_two scan_refused [OF fa] using a ra Inl by (simp add: scan_error)
      next
        case b: (Inr r')
        show ?thesis
        proof (cases "accepted_response r'")
          case True
          then show ?thesis unfolding reqs tu try_endpoints_two scan_refused [OF fa] using a ra Cons.prems loc [OF b]
            by (simp add: b scan_hit)
        next
          case rb: False
          then have fb: "refused post ?b" by (simp add: refused_def b)
          show ?thesis unfolding reqs tu try_endpoints_two scan_refused [OF fa] scan_refused [OF fb]
            using a b ra rb Cons.prems Cons.IH [of "s\<lparr>ts_last_error := error_of_response r'\<rparr>"]
            by (simp add: error_of_response_nonempty)
        qed
      qed
    qed
  qed
qed

section \<open>Properties\<close>

text \<open>
  C15: triggering a job sends the two requests of each candidate URL in order, as
  long as Jenkins refuses them.  The first one accepted is the only one: its
  queue location is the result, exactly one build is started; a connection that
  fails stops the trigger with that error; when every request is refused the
  caller gets a \<open>RuntimeError\<close>.  Two conditions: the job has a candidate URL, and
  every answer with status 200, 201 or 202 carries the location of its queue
  item (\<open>missing_location_repeats_trigger\<close> shows what happens otherwise).
\<close>

theorem trigger_starts_one_build:
  assumes "always_located post"
    and "build_trigger_url_candidates st job branch \<noteq> []"
  shows "case dropWhile (refused post) (trigger_requests (trigger_params branch sha) (build_trigger_url_candidates st job branch)) of
      [] \<Rightarrow> (\<exists>msg. request_build st post job branch sha = Inl (RuntimeError msg))
    | (u, p) # _ \<Rightarrow> (case post u p of
          Inl err \<Rightarrow> request_build st post job branch sha = Inl (OtherError err)
        | Inr r \<Rightarrow> (\<exists>s. request_build st post job branch sha = Inr s \<and> ts_accepted s = [u] \<and> ts_queue_url s = location r))"
proof -
  let ?urls = "build_trigger_url_candidates st job branch" and ?ps = "trigger_params branch sha"
  have s: "ts_queue_url start_trigger = []" "ts_accepted start_trigger = []" by (simp_all add: start_trigger_def)
  have r: "scan_result post True (trigger_requests ?ps ?urls) (try_urls post ?ps ?urls start_trigger)"
    using try_urls_requests [OF assms(1) s, where urls = ?urls and params = ?ps] assms(2) by simp
  show ?thesis
  proof (cases "dropWhile (refused post) (trigger_requests ?ps ?urls)")
    case Nil
    show ?thesis unfolding Nil list.case using r unfolding scan_result_def Nil list.case by (auto simp: request_build_def)
  next
    case (Cons q qs)
    obtain u p where q: "q = (u, p)" by (cases q)
    show ?thesis unfolding Cons list.case q prod.case
      using r unfolding scan_result_def Cons list.case q prod.case
      by (cases "post u p") (auto simp: request_build_def)
  qed
qed

definition queue_server :: post_fun where
  "queue_server url ps = Inr \<lparr>status_code = 201, response_text = [], response_json = None,
     location = ''http://localhost:8080/queue/item/7/''\<rparr>"

text \<open>Jobs without parameters answer 400 to \<open>buildWithParameters\<close>.\<close>

definition plain_job_server :: post_fun where
  "plain_job_server url ps =
     (if ps \<noteq> None then Inr \<lparr>status_code = 400, response_text = [], response_json = None, location = []\<rparr>
      else queue_server url ps)"

theorem trigger_starts_one_build_witness:
  "\<exists>s. request_build default_settings plain_job_server ''acme/app/main'' ''main'' None = Inr s
     \<and> ts_accepted s = [''http://localhost:8080/job/acme/job/app/job/main/build'']"
proof -
  have loc: "always_located plain_job_server"
    unfolding always_located_def by (auto simp: plain_job_server_def queue_server_def accepted_response_def split: if_splits)
  have ne: "build_trigger_url_candidates default_settings ''acme/app/main'' ''main'' \<noteq> []" by code_simp
  have c: "hd (build_trigger_url_candidates default_settings ''acme/app/main'' ''main'') = ''http://localhost:8080/job/acme/job/app/job/main''"
    by code_simp
  have us: "build_trigger_url_candidates default_settings ''acme/app/main'' ''main'' = ''http://localhost:8080/job/acme/job/app/job/main''
      # tl (build_trigger_url_candidates default_settings ''acme/app/main'' ''main'')"
    unfolding c [symmetric] using ne by (rule list.collapse [symmetric])
  show ?thesis using trigger_starts_one_build [OF loc ne, of None]
    by (subst (asm) us) (auto simp: trigger_requests_def refused_def plain_job_server_def queue_server_def accepted_response_def)
qed

lemma try_urls_no_location:
  assumes "\<And>url. \<exists>r. post (url @ ''/buildWithParameters'') (Some params) = Inr r
      \<and> status_code r \<in> {200, 201, 202} \<and> location r = []"
    and "ts_queue_url s = []"
  shows "\<exists>s'. try_urls post params urls s = Inr s' \<and> ts_queue_url s' = [] \<and> ts_last_error s' = ts_last_error s
    \<and> ts_accepted s' = ts_accepted s @ map (\<lambda>u. u @ ''/buildWithParameters'') urls"
  using assms(2)
proof (induction urls arbitrary: s)
  case (Cons u urls)
  obtain r where "post (u @ ''/buildWithParameters'') (Some params) = Inr r" "status_code r \<in> {200, 201, 202}" "location r = []"
    using assms(1) by blast
  then show ?case using Cons.IH [of "s\<lparr>ts_queue_url := [], ts_accepted := ts_accepted s @ [u @ ''/buildWithParameters'']\<rparr>"]
    by auto
qed simp

text \<open>
  An accepted request without a location is not recognised as a success: the
  next candidates are triggered as well, one build each, and the caller gets
  build number 0.
\<close>

theorem missing_location_repeats_trigger:
  assumes "\<And>url. \<exists>r. post (url @ ''/buildWithParameters'') (Some (trigger_params branch sha)) = Inr r
      \<and> status_code r \<in> {200, 201, 202} \<and> location r = []"
  shows "(\<exists>s. request_build st post job branch sha = Inr s
       \<and> ts_accepted s = map (\<lambda>u. u @ ''/buildWithParameters'') (build_trigger_url_candidates st job branch))
    \<and> trigger_jenkins st post polls job branch sha = Inr (0, JENKINS_URL st @ ''/'')"
proof -
  obtain s where "try_urls post (trigger_params branch sha) (build_trigger_url_candidates st job branch) start_trigger = Inr s"
    "ts_queue_url s = []" "ts_last_error s = []"
    "ts_accepted s = map (\<lambda>u. u @ ''/buildWithParameters'') (build_trigger_url_candidates st job branch)"
    using try_urls_no_location [of post "trigger_params branch sha" start_trigger, OF assms]
    by (auto simp: start_trigger_def)
  then show ?thesis by (simp add: request_build_def trigger_jenkins_def resolve_queue_item_def)
qed

definition silent_server :: post_fun where
  "silent_server url ps = Inr \<lparr>status_code = 201, response_text = [], response_json = None, location = []\<rparr>"

theorem missing_location_repeats_trigger_witness:
  "\<exists>s. request_build default_settings silent_server ''acme/app/main'' ''main'' None = Inr s \<and> length (ts_accepted s) = 3"
proof -
  have n: "length (build_trigger_url_candidates default_settings ''acme/app/main'' ''main'') = 3" by code_simp
  have h: "\<exists>r. silent_server (url @ ''/buildWithParameters'') (Some (trigger_params ''main'' None)) = Inr r
      \<and> status_code r \<in> {200, 201, 202} \<and> location r = []" for url
    unfolding silent_server_def by (intro exI conjI) (rule refl, simp_all)
  obtain s where "request_build default_settings silent_server ''acme/app/main'' ''main'' None = Inr s"
    "ts_accepted s = map (\<lambda>u. u @ ''/buildWithParameters'')
       (build_trigger_url_candidates default_settings ''acme/app/main'' ''main'')"
    using missing_location_repeats_trigger [of silent_server "''main''" None default_settings "''acme/app/main''", OF h]
    by blast
  then show ?thesis using n by (metis length_map)
qed

text \<open>
  C16: synchronising with Jenkins reports that a build is over only when it has
  finalised the run: the run has a final status and no stage of it is pending or
  running; in every other case the runs, workers and assignments are as before.
\<close>

theorem sync_stages_result:
  assumes "db_ok d" "get_run d r \<noteq> None"
  shows "case sync_stages st get d r job n u now of
      (d', effs, Inr True) \<Rightarrow> (\<exists>run. get_run d' r = Some run \<and> pr_status run \<in> {RS_COMPLETED, RS_FAILED, RS_ABORTED})
         \<and> list_all (\<lambda>s. se_status s \<notin> {SS_PENDING, SS_RUNNING}) (run_stages d' r)
    | (d', effs, _) \<Rightarrow> runs_t d' = runs_t d \<and> workers_t d' = workers_t d \<and> assigns_t d' = assigns_t d \<and> effs = []"
proof (rule sync_stages_cases [of st get d r job n u now])
  fix d1 res
  assume e: "sync_stages st get d r job n u now = (d1, [], res)" "res \<noteq> Inr True"
    and k: "runs_t d1 = runs_t d" "workers_t d1 = workers_t d" "assigns_t d1 = assigns_t d"
  show ?thesis unfolding e(1) using e(2) k by (auto split: sum.split bool.split)
next
  fix d1 res
  assume e: "sync_stages st get d r job n u now =
      (fst (on_build_completed st d1 r res now), snd (on_build_completed st d1 r res now), Inr True)"
    and k: "runs_t d1 = runs_t d" "db_ok d \<Longrightarrow> db_ok d1"
  obtain run where run: "get_run d1 r = Some run"
    using assms(2) k(1) by (auto simp: get_run_def get_run_row_def)
  note c = completed_runs [OF k(2) [OF assms(1)] run, of st res now r]
  have "list_all (\<lambda>s. se_status s \<notin> {SS_PENDING, SS_RUNNING}) (map skip_stage xs)" for xs
    using skip_stage_done by (auto simp: list_all_iff)
  then have "list_all (\<lambda>s. se_status s \<notin> {SS_PENDING, SS_RUNNING}) (run_stages (fst (on_build_completed st d1 r res now)) r)"
    using c(2) by simp
  moreover have "status_of_result res \<in> {RS_COMPLETED, RS_FAILED, RS_ABORTED}" by (simp add: status_of_result_def)
  ultimately show ?thesis unfolding e using c(1) by simp
qed

definition jenkins_done :: "string \<Rightarrow> http_result" where
  "jenkins_done url = Inr \<lparr>status_code = 200, response_text = [],
     response_json = Some (JObj [(''status'', JStr ''SUCCESS''), (''stages'', JArr [])]), location = []\<rparr>"

theorem sync_stages_result_witness:
  "\<exists>d' effs run. sync_stages default_settings jenkins_done running_db 1 ''j'' 9 None 7 = (d', effs, Inr True)
     \<and> get_run d' 1 = Some run \<and> pr_status run \<in> {RS_COMPLETED, RS_FAILED, RS_ABORTED}"
proof -
  have "\<exists>d' effs. sync_stages default_settings jenkins_done running_db 1 ''j'' 9 None 7 = (d', effs, Inr True)"
    by (simp add: sync_stages_def jenkins_done_def describe_fields_def terminal_results_def Let_def case_prod_unfold)
  moreover have "get_run running_db 1 \<noteq> None" using running_db_run by simp
  ultimately show ?thesis using sync_stages_result [OF running_db_ok, of 1 default_settings jenkins_done "''j''" 9 None 7]
    by auto
qed

text \<open>
  The finalisation after exhausted retries never overwrites a final status,
  and otherwise leaves the run with one.
\<close>

theorem finalize_exhausted_result:
  assumes "db_ok d" "get_run d r = Some run"
  shows "if pr_status run \<in> {RS_COMPLETED, RS_FAILED, RS_ABORTED}
    then finalize_exhausted_poll st d r fallback now = (d, [])
    else (\<exists>run'. get_run (fst (finalize_exhausted_poll st d r fallback now)) r = Some run'
       \<and> pr_status run' = status_of_result fallback)"
  using assms completed_runs(1) [OF assms] by (simp add: finalize_exhausted_poll_def)

theorem finalize_exhausted_result_witness:
  "\<exists>run'. get_run (fst (finalize_exhausted_poll default_settings running_db 1 ''ABORTED'' 9)) 1 = Some run'
     \<and> pr_status run' = RS_ABORTED"
proof -
  have "pr_status (hd (runs_t running_db)) = RS_IN_PROGRESS" by (simp add: running_db_def)
  then show ?thesis using finalize_exhausted_result [OF running_db_ok running_db_run, of default_settings "''ABORTED''" 9]
    by (simp add: status_of_result_def)
qed

text \<open>
  The polling task finalises a run only after an exception: as long as Jenkins
  answers without a final status, the task asks for another retry however many
  are used up and leaves the run alone, so an exhausted task leaves it in
  progress.
\<close>

theorem poll_without_end_never_finalises:
  assumes "snd (snd (sync_stages st get d r job n u now)) = Inr False"
  shows "\<exists>d'. poll_pipeline_stages st get retries d r job n u now = (d', [], RetryLater) \<and> runs_t d' = runs_t d"
proof (rule sync_stages_cases [of st get d r job n u now])
  fix d1 res
  assume "sync_stages st get d r job n u now = (d1, [], res)" "runs_t d1 = runs_t d"
  then show ?thesis using assms by (simp add: poll_pipeline_stages_def)
qed (use assms in simp)

theorem poll_without_end_never_finalises_witness:
  "\<exists>d'. poll_pipeline_stages default_settings (\<lambda>url. Inl ''down'') 1000 running_db 1 ''j'' 9 None 7 = (d', [], RetryLater)
     \<and> runs_t d' = runs_t running_db"
  by (rule poll_without_end_never_finalises) (simp add: sync_stages_def Let_def)

end
