(* ===== verification/Execution.thy ===== *)
theory Execution
  imports Scheduler Pipeline_Tasks
begin

text \<open>
  The execution of one run on Jenkins, \<open>_run_execution\<close> of \<open>app/scheduler.py\<close>:
  trigger the build, record it, poll its stages up to 120 times, and give the run
  up as a failure.  Other tasks commit to the same database in between; what they
  do before the \<open>i\<close>-th step of the execution is a parameter, and so is what
  Jenkins answers at each poll.
\<close>

section \<open>Definitions\<close>

record surroundings =
  su_post :: post_fun
  su_queue :: "string \<Rightarrow> http_result list"
  su_get :: "nat \<Rightarrow> string \<Rightarrow> http_result"
  su_others :: "nat \<Rightarrow> db \<Rightarrow> db"
  su_clock :: "nat \<Rightarrow> time"

definition max_polls :: nat where "max_polls = 120"

text \<open>Step 5: only a run still in progress is given up.\<close>

definition give_up_run :: "settings \<Rightarrow> db \<Rightarrow> int \<Rightarrow> time \<Rightarrow> db \<times> effect list" where
  "give_up_run st d run_id now =
     (case get_run d run_id of
        None \<Rightarrow> (d, [])
      | Some r \<Rightarrow> if pr_status r = RS_IN_PROGRESS then on_build_completed st d run_id ''FAILURE'' now else (d, []))"

text \<open>
  Step 4 with \<open>k\<close> attempts left, the next one being number \<open>i\<close>.  An exception of
  the synchronisation is caught, what it has committed stays.
\<close>

fun poll_build ::
    "settings \<Rightarrow> surroundings \<Rightarrow> int \<Rightarrow> string \<Rightarrow> int \<Rightarrow> string \<Rightarrow> nat \<Rightarrow> nat \<Rightarrow> db \<Rightarrow> db \<times> effect list \<times> bool" where
  "poll_build st e run_id job n u 0 i d =
     (let (d1, effs) = give_up_run st (su_others e i d) run_id (su_clock e i) in (d1, effs, False))"
| "poll_build st e run_id job n u (Suc k) i d =
     (case sync_stages st (su_get e i) (su_others e i d) run_id job n (Some u) (su_clock e i) of
        (d1, effs, Inr True) \<Rightarrow> (d1, effs, True)
      | (d1, effs, _) \<Rightarrow>
          let (d2, effs', ok) = poll_build st e run_id job n u k (Suc i) d1 in (d2, effs @ effs', ok))"

definition fail_run :: "settings \<Rightarrow> db \<Rightarrow> int \<Rightarrow> time \<Rightarrow> db \<times> effect list \<times> bool" where
  "fail_run st d run_id now = (let (d1, effs) = on_build_completed st d run_id ''FAILURE'' now in (d1, effs, False))"

definition run_execution :: "settings \<Rightarrow> surroundings \<Rightarrow> db \<Rightarrow> int \<Rightarrow> db \<times> effect list \<times> bool" where
  "run_execution st e d run_id =
     (case get_run_row d run_id of
        None \<Rightarrow> (d, [], False)
      | Some r \<Rightarrow>
          let d0 = su_others e 0 d; branch = (if pr_branch r = [] then ''main'' else pr_branch r) in
          if \<not> truthy (pr_jenkins_job_name r) then fail_run st d0 run_id (su_clock e 0)
          else (case trigger_jenkins st (su_post e) (su_queue e) (the (pr_jenkins_job_name r)) branch (pr_commit_sha r) of
              Inl _ \<Rightarrow> fail_run st d0 run_id (su_clock e 0)
            | Inr (n, u) \<Rightarrow> poll_build st e run_id (the (pr_jenkins_job_name r)) n u max_polls 1
                (on_build_started d0 run_id n u (su_clock e 0))))"

section \<open>What Jenkins reports\<close>

definition is_object :: "json \<Rightarrow> bool" where
  "is_object j = (case j of JObj kvs \<Rightarrow> True | _ \<Rightarrow> False)"

text \<open>
  The result a poll reads off Jenkins' answer: that of an ended build, when the
  answer is a readable document whose stages are objects.
\<close>

definition reported :: "settings \<Rightarrow> (string \<Rightarrow> http_result) \<Rightarrow> string \<Rightarrow> int \<Rightarrow> string option \<Rightarrow> string option" where
  "reported st get job n u =
     (case get (build_root st job n u @ ''/wfapi/describe'') of
        Inl _ \<Rightarrow> None
      | Inr r \<Rightarrow>
          if status_code r \<noteq> 200 then None
          else (case response_json r of
              None \<Rightarrow> None
            | Some data \<Rightarrow>
                (case describe_fields data of
                   Inl _ \<Rightarrow> None
                 | Inr (s, xs) \<Rightarrow>
                     if list_all is_object xs
                     then (case str_opt s of
                         None \<Rightarrow> None
                       | Some res \<Rightarrow> if res \<in> set terminal_results then Some res else None)
                     else None)))"

fun first_some :: "('a \<Rightarrow> 'b option) \<Rightarrow> 'a list \<Rightarrow> 'b option" where
  "first_some f [] = None"
| "first_some f (x # xs) = (case f x of None \<Rightarrow> first_some f xs | Some y \<Rightarrow> Some y)"

text \<open>The run an execution works on: it is there, and the database is intact.\<close>

definition executing :: "db \<Rightarrow> int \<Rightarrow> bool" where
  "executing d i \<longleftrightarrow> db_ok d \<and> stage_names_distinct d \<and> get_run d i \<noteq> None"

lemma sync_stage_object:
  assumes "stage_names_distinct d"
  shows "is_object j \<Longrightarrow> \<exists>d'. sync_stage get u i now j d = Inr d' \<and> stage_names_distinct d'"
    "\<not> is_object j \<Longrightarrow> \<exists>e. sync_stage get u i now j d = Inl e"
proof -
  assume "is_object j"
  then obtain kvs where j: "j = JObj kvs" by (cases j) (simp_all add: is_object_def)
  have f: "\<exists>d'. on_stage_started d i n now = Inr d' \<and> stage_names_distinct d'"
    "\<exists>d'. on_stage_completed d i n ok ex now = Inr d' \<and> stage_names_distinct d'" for n ok ex
  proof -
    obtain x where x: "find_stage d i n = Inr x" using find_stage_total [OF assms, of i n] by blast
    show "\<exists>d'. on_stage_started d i n now = Inr d' \<and> stage_names_distinct d'"
      unfolding on_stage_started_def x rbind.simps sum.inject
      by (intro exI conjI, rule refl) (rule names_distinct_stage(1) [OF assms, of i n now], simp add: on_stage_started_def x)
    show "\<exists>d'. on_stage_completed d i n ok ex now = Inr d' \<and> stage_names_distinct d'"
      unfolding on_stage_completed_def x rbind.simps sum.inject
      by (intro exI conjI, rule refl) (rule names_distinct_stage(2) [OF assms, of i n ok ex now], simp add: on_stage_completed_def x)
  qed
  have g: "\<exists>d'. (if s = ''IN_PROGRESS'' then on_stage_started d i n now
        else if s \<in> set stage_done_statuses then on_stage_completed d i n (s = ''SUCCESS'') (stage_log_excerpt get u j) now
        else Inr d) = Inr d' \<and> stage_names_distinct d'" for n s
    using f [of n] assms by (cases "s = ''IN_PROGRESS''"; cases "s \<in> set stage_done_statuses") (simp_all only: if_True if_False, auto)
  have h: "\<exists>d'. (case (x, y) of (Some n, Some s) \<Rightarrow>
        if s = ''IN_PROGRESS'' then on_stage_started d i n now
        else if s \<in> set stage_done_statuses then on_stage_completed d i n (s = ''SUCCESS'') (stage_log_excerpt get u j) now
        else Inr d | _ \<Rightarrow> Inr d) = Inr d' \<and> stage_names_distinct d'" for x y
    using g assms by (cases x; cases y) (simp_all only: prod.case option.case, auto)
  show "\<exists>d'. sync_stage get u i now j d = Inr d' \<and> stage_names_distinct d'"
    using h unfolding sync_stage_def j jget.simps rbind.simps by blast
next
  assume "\<not> is_object j"
  then have "\<And>kvs. j \<noteq> JObj kvs" by (auto simp: is_object_def)
  from jget_not_obj [OF this] show "\<exists>e. sync_stage get u i now j d = Inl e" by (simp add: sync_stage_def)
qed

lemma sync_all_objects:
  "stage_names_distinct d \<Longrightarrow> stage_names_distinct (fst (sync_all get u i now xs d))
    \<and> (list_all is_object xs \<longleftrightarrow> snd (sync_all get u i now xs d) = Inr ())"
proof (induction xs arbitrary: d)
  case (Cons x xs)
  show ?case
  proof (cases "is_object x")
    case True
    then obtain d' where "sync_stage get u i now x d = Inr d'" "stage_names_distinct d'"
      using sync_stage_object(1) [OF Cons.prems] by blast
    then show ?thesis using Cons.IH [of d'] True by simp
  next
    case False
    then obtain e where "sync_stage get u i now x d = Inl e" using sync_stage_object(2) [OF Cons.prems] by blast
    then show ?thesis using Cons.prems False by simp
  qed
qed simp

lemma sync_reported:
  assumes "stage_names_distinct d"
  shows "\<exists>d1. runs_t d1 = runs_t d \<and> (db_ok d \<longrightarrow> db_ok d1) \<and> stage_names_distinct d1 \<and>
    (case reported st get job n u of
       None \<Rightarrow> fst (sync_stages st get d i job n u now) = d1 \<and> snd (snd (sync_stages st get d i job n u now)) \<noteq> Inr True
     | Some res \<Rightarrow> sync_stages st get d i job n u now =
         (fst (on_build_completed st d1 i res now), snd (on_build_completed st d1 i res now), Inr True))"
proof -
  let ?u = "build_root st job n u"
  let ?Q = "\<lambda>x y. \<exists>d1. runs_t d1 = runs_t d \<and> (db_ok d \<longrightarrow> db_ok d1) \<and> stage_names_distinct d1 \<and>
    (case x of None \<Rightarrow> fst y = d1 \<and> snd (snd y) \<noteq> Inr True
     | Some res \<Rightarrow> y = (fst (on_build_completed st d1 i res now), snd (on_build_completed st d1 i res now), Inr True))"
  have none: "?Q None (d, effs, x)" if "x \<noteq> Inr True" for effs x using assms that by auto
  have all: "?Q (if list_all is_object xs then (case str_opt s of None \<Rightarrow> None
        | Some res \<Rightarrow> if res \<in> set terminal_results then Some res else None) else None)
      (case sync_all get ?u i now xs d of (d1, Inl e) \<Rightarrow> (d1, [], Inl e) | (d1, Inr _) \<Rightarrow>
         (case str_opt s of Some res \<Rightarrow> if res \<in> set terminal_results
             then (let (d2, effs) = on_build_completed st d1 i res now in (d2, effs, Inr True)) else (d1, [], Inr False)
          | None \<Rightarrow> (d1, [], Inr False)))" for s xs
  proof -
    obtain d1 y where y: "sync_all get ?u i now xs d = (d1, y)" by (cases "sync_all get ?u i now xs d")
    have k: "runs_t d1 = runs_t d" "db_ok d \<longrightarrow> db_ok d1" "stage_names_distinct d1" "list_all is_object xs \<longleftrightarrow> y = Inr ()"
      using sync_all_keeps [of get ?u i now xs d] sync_all_objects [OF assms, of get ?u i now xs] y by simp_all
    show ?thesis
    proof (cases y)
      case (Inl e)
      then show ?thesis using y k by auto
    next
      case (Inr v)
      then have l: "list_all is_object xs" using k(4) by simp
      show ?thesis using y k Inr l by (auto simp: case_prod_unfold Let_def split: option.split)
    qed
  qed
  show ?thesis
  proof (cases "get (?u @ ''/wfapi/describe'')")
    case (Inl e)
    then show ?thesis using none [of "Inr False" "[]"] by (simp add: reported_def sync_stages_def Let_def)
  next
    case g: (Inr a)
    show ?thesis
    proof (cases "status_code a = 200")
      case False
      then show ?thesis using g none [of "Inr False" "[]"] by (simp add: reported_def sync_stages_def Let_def)
    next
      case ok: True
      show ?thesis
      proof (cases "response_json a")
        case None
        then show ?thesis using g ok none [of "Inl (ValueError ''json'')" "[]"] by (simp add: reported_def sync_stages_def Let_def)
      next
        case data: (Some data)
        show ?thesis
        proof (cases "describe_fields data")
          case (Inl e)
          then show ?thesis using g ok data none [of "Inl e" "[]"] by (simp add: reported_def sync_stages_def Let_def)
        next
          case (Inr sx)
          obtain s xs where sx: "sx = (s, xs)" by (cases sx)
          have sc: "(status_code a \<noteq> 200) = False" using ok by simp
          show ?thesis
            unfolding reported_def sync_stages_def Let_def g sum.case sc if_False data option.case Inr sx prod.case
            by (rule all [unfolded Let_def])
        qed
      qed
    qed
  qed
qed


section \<open>The polls of an execution\<close>

lemma get_run_rows: "runs_t d' = runs_t d \<Longrightarrow> get_run d' i = get_run d i"
  by (simp add: get_run_def get_run_row_def)

lemma executing_rows: "runs_t d1 = runs_t d \<Longrightarrow> (db_ok d \<longrightarrow> db_ok d1) \<Longrightarrow> stage_names_distinct d1 \<Longrightarrow> executing d i \<Longrightarrow> executing d1 i"
  using get_run_rows [of d1 d i] by (simp add: executing_def)

lemma executing_completed:
  assumes "executing d i"
  shows "executing (fst (on_build_completed st d i res now)) i"
    "get_run (fst (on_build_completed st d i res now)) i = map_option (finish_run res now) (get_run d i)"
proof -
  obtain r where r: "get_run d i = Some r" using assms by (auto simp: executing_def)
  show g: "get_run (fst (on_build_completed st d i res now)) i = map_option (finish_run res now) (get_run d i)"
    using completed_runs(1) [OF _ r, of st res now i] assms r by (simp add: executing_def)
  show "executing (fst (on_build_completed st d i res now)) i"
    using assms g by (simp add: executing_def db_ok_completed names_distinct_callbacks)
qed

lemma poll_step:
  assumes "executing d i"
  obtains d1 where "executing d1 i" "get_run d1 i = get_run d i" "reported st get job n u = None"
      "\<And>K. (case sync_stages st get d i job n u now of (d1, effs, Inr True) \<Rightarrow> (d1, effs, True) | (d1, effs, _) \<Rightarrow> K d1 effs)
         = K d1 (fst (snd (sync_stages st get d i job n u now)))"
  | res where "reported st get job n u = Some res"
      "\<And>K. (case sync_stages st get d i job n u now of (d1, effs, Inr True) \<Rightarrow> (d1, effs, True) | (d1, effs, _) \<Rightarrow> K d1 effs)
         = (fst (sync_stages st get d i job n u now), fst (snd (sync_stages st get d i job n u now)), True)"
      "executing (fst (sync_stages st get d i job n u now)) i"
      "get_run (fst (sync_stages st get d i job n u now)) i = map_option (finish_run res now) (get_run d i)"
proof -
  let ?s = "sync_stages st get d i job n u now"
  obtain d1 where d1: "runs_t d1 = runs_t d" "db_ok d \<longrightarrow> db_ok d1" "stage_names_distinct d1"
    and c: "case reported st get job n u of None \<Rightarrow> fst ?s = d1 \<and> snd (snd ?s) \<noteq> Inr True
     | Some res \<Rightarrow> ?s = (fst (on_build_completed st d1 i res now), snd (on_build_completed st d1 i res now), Inr True)"
    using sync_reported [where st = st and get = get and d = d and job = job and n = n and u = u and i = i and now = now] assms by (auto simp: executing_def)
  have e: "executing d1 i" using executing_rows [OF d1 assms] .
  show thesis
  proof (cases "reported st get job n u")
    case None
    then have "(case ?s of (d1, effs, Inr True) \<Rightarrow> (d1, effs, True) | (d1, effs, _) \<Rightarrow> K d1 effs) = K d1 (fst (snd ?s))" for K :: "db \<Rightarrow> effect list \<Rightarrow> _"
      using c by (cases ?s) (auto split: sum.split bool.split)
    then show thesis using that(1) [OF e _ None] get_run_rows [OF d1(1), of i] by simp
  next
    case (Some res)
    then have s: "?s = (fst (on_build_completed st d1 i res now), snd (on_build_completed st d1 i res now), Inr True)" using c by simp
    show thesis by (rule that(2) [OF Some]) (simp_all add: s executing_completed [OF e] get_run_rows [OF d1(1), of i])
  qed
qed

lemma final_status: "pr_status (finish_run res now r) = status_of_result res" "pr_result (finish_run res now r) = Some res"
  "pr_jenkins_build_number (finish_run res now r) = pr_jenkins_build_number r"
  by (simp_all add: finish_run_def)

definition queued :: "db \<Rightarrow> int \<Rightarrow> bool" where
  "queued d i \<longleftrightarrow> map_option pr_status (get_run d i) = Some RS_QUEUED"

text \<open>How the run stands at the end of the polls.\<close>

definition ended_as :: "db \<Rightarrow> int \<Rightarrow> string option \<Rightarrow> bool" where
  "ended_as d i outcome \<longleftrightarrow>
     (case get_run d i of
        None \<Rightarrow> False
      | Some r \<Rightarrow> (case outcome of
          Some res \<Rightarrow> pr_status r = status_of_result res \<and> pr_result r = Some res
        | None \<Rightarrow> pr_status r \<in> {RS_COMPLETED, RS_FAILED, RS_ABORTED}))"

lemma give_up_ends:
  assumes "executing d i" "\<not> queued d i"
  shows "executing (fst (give_up_run st d i now)) i \<and> ended_as (fst (give_up_run st d i now)) i None"
proof -
  obtain r where r: "get_run d i = Some r" using assms(1) by (auto simp: executing_def)
  show ?thesis
  proof (cases "pr_status r = RS_IN_PROGRESS")
    case True
    then show ?thesis using r executing_completed [OF assms(1)]
      by (simp add: give_up_run_def ended_as_def final_status status_of_result_def)
  next
    case False
    then show ?thesis using r assms by (cases "pr_status r") (simp_all add: give_up_run_def ended_as_def queued_def)
  qed
qed

lemma poll_build_ends:
  assumes "\<And>k x. executing x i \<Longrightarrow> executing (su_others e k x) i"
    and "\<And>k x. executing x i \<Longrightarrow> \<not> queued x i \<Longrightarrow> \<not> queued (su_others e k x) i"
    and "executing d i" "\<not> queued d i"
  shows "executing (fst (poll_build st e i job n u k m d)) i
    \<and> ended_as (fst (poll_build st e i job n u k m d)) i (first_some (\<lambda>m. reported st (su_get e m) job n (Some u)) [m..<m + k])"
  using assms(3,4)
proof (induction k arbitrary: m d)
  case 0
  then show ?case using give_up_ends [OF assms(1,2)] by (simp add: case_prod_unfold Let_def)
next
  case (Suc k)
  have x: "executing (su_others e m d) i" "\<not> queued (su_others e m d) i" using Suc.prems assms(1,2) by simp_all
  have up: "[m..<m + Suc k] = m # [Suc m..<Suc m + k]" by (simp add: upt_conv_Cons)
  show ?case
  proof (cases rule: poll_step [OF x(1), of st "su_get e m" job n "Some u" "su_clock e m"])
    case (1 d1)
    have "\<not> queued d1 i" using x(2) 1(2) by (simp add: queued_def)
    from Suc.IH [OF 1(1) this, of "Suc m"] show ?thesis
      unfolding poll_build.simps 1(4) up by (simp add: 1(3) case_prod_unfold Let_def)
  next
    case (2 res)
    have "get_run (su_others e m d) i \<noteq> None" using x(1) by (simp add: executing_def)
    then have "ended_as (fst (sync_stages st (su_get e m) (su_others e m d) i job n (Some u) (su_clock e m))) i (Some res)"
      using 2(4) by (auto simp: ended_as_def final_status)
    then show ?thesis using 2(3) unfolding poll_build.simps 2(2) up by (simp add: 2(1))
  qed
qed

text \<open>When nobody else touches the run, its row is known exactly.\<close>

lemma poll_build_alone:
  assumes "\<And>k x. executing x i \<Longrightarrow> executing (su_others e k x) i"
    and "\<And>k x. get_run (su_others e k x) i = get_run x i"
    and "executing d i" "get_run d i = Some r" "pr_status r = RS_IN_PROGRESS"
  shows "\<exists>now. get_run (fst (poll_build st e i job n u k m d)) i = Some (finish_run
    (case first_some (\<lambda>m. reported st (su_get e m) job n (Some u)) [m..<m + k] of None \<Rightarrow> ''FAILURE'' | Some res \<Rightarrow> res) now r)"
  using assms(3,4)
proof (induction k arbitrary: m d)
  case 0
  have x: "executing (su_others e m d) i" "get_run (su_others e m d) i = Some r" using 0 assms(1,2) by simp_all
  show ?case using executing_completed(2) [OF x(1), of st "''FAILURE''" "su_clock e m"] x(2) assms(5)
    by (auto simp: give_up_run_def case_prod_unfold Let_def)
next
  case (Suc k)
  have x: "executing (su_others e m d) i" "get_run (su_others e m d) i = Some r" using Suc.prems assms(1,2) by simp_all
  have up: "[m..<m + Suc k] = m # [Suc m..<Suc m + k]" by (simp add: upt_conv_Cons)
  show ?case
  proof (cases rule: poll_step [OF x(1), of st "su_get e m" job n "Some u" "su_clock e m"])
    case (1 d1)
    have "get_run d1 i = Some r" using x(2) 1(2) by simp
    from Suc.IH [OF 1(1) this, of "Suc m"] show ?thesis
      unfolding poll_build.simps 1(4) up by (simp add: 1(3) case_prod_unfold Let_def)
  next
    case (2 res)
    then show ?thesis using x(2) unfolding poll_build.simps 2(2) up by auto
  qed
qed

lemma started_identity:
  assumes "get_run d i = Some r"
  shows "\<exists>x. get_run (on_build_started d i n u now) i = Some x \<and> pr_jenkins_build_number x = Some n
    \<and> pr_jenkins_job_name x = pr_jenkins_job_name r \<and> pr_branch x = pr_branch r \<and> pr_commit_sha x = pr_commit_sha r"
  using assms by (auto simp: on_build_started_def Let_def get_run_def db_simps split: option.split)

lemma started_row:
  assumes "get_run d i = Some r"
  shows "\<exists>r. get_run (on_build_started d i n u now) i = Some r \<and> pr_status r = RS_IN_PROGRESS \<and> pr_jenkins_build_number r = Some n"
  using assms by (auto simp: on_build_started_def Let_def get_run_def db_simps split: option.split)

lemma executing_started:
  assumes "executing d i"
  shows "executing (on_build_started d i n u now) i"
    "\<exists>r. get_run (on_build_started d i n u now) i = Some r \<and> pr_status r = RS_IN_PROGRESS \<and> pr_jenkins_build_number r = Some n"
proof -
  obtain r where r: "get_run d i = Some r" using assms by (auto simp: executing_def)
  show s: "\<exists>r. get_run (on_build_started d i n u now) i = Some r \<and> pr_status r = RS_IN_PROGRESS \<and> pr_jenkins_build_number r = Some n"
    by (rule started_row [OF r])
  then show "executing (on_build_started d i n u now) i"
    using assms by (auto simp: executing_def db_ok_started names_distinct_callbacks)
qed

text \<open>What an execution finds out about its build: its result, or nothing within 120 polls.\<close>

definition build_outcome :: "settings \<Rightarrow> surroundings \<Rightarrow> pipeline_run \<Rightarrow> string option" where
  "build_outcome st e r =
     (if \<not> truthy (pr_jenkins_job_name r) then Some ''FAILURE''
      else (case trigger_jenkins st (su_post e) (su_queue e) (the (pr_jenkins_job_name r))
            (if pr_branch r = [] then ''main'' else pr_branch r) (pr_commit_sha r) of
          Inl _ \<Rightarrow> Some ''FAILURE''
        | Inr (n, u) \<Rightarrow> first_some (\<lambda>k. reported st (su_get e k) (the (pr_jenkins_job_name r)) n (Some u)) [1..<121]))"

lemma fail_run_ends:
  assumes "executing d i"
  shows "executing (fst (fail_run st d i now)) i \<and> ended_as (fst (fail_run st d i now)) i (Some ''FAILURE'')"
proof -
  have "get_run d i \<noteq> None" using assms by (simp add: executing_def)
  then show ?thesis using executing_completed [OF assms, of st "''FAILURE''" now]
    by (auto simp: fail_run_def case_prod_unfold Let_def ended_as_def final_status)
qed

lemma polls_120: "[1..<1 + max_polls] = [1..<121]" by (simp add: max_polls_def)

text \<open>Alone with its run, an execution leaves it the number of the build it triggered itself.\<close>

lemma completed_number:
  assumes "db_ok d" "get_run d i = Some r"
  shows "\<exists>x. get_run (fst (on_build_completed st d i res now)) i = Some x \<and> pr_jenkins_build_number x = pr_jenkins_build_number r"
  using completed_runs(1) [OF assms, of st res now i] by (auto simp: final_status)

lemma poll_build_number:
  assumes "\<And>k x. db_ok x \<Longrightarrow> db_ok (su_others e k x)" "\<And>k x. get_run (su_others e k x) i = get_run x i"
    and "db_ok d" "get_run d i = Some r"
  shows "\<exists>x. get_run (fst (poll_build st e i job n u k m d)) i = Some x \<and> pr_jenkins_build_number x = pr_jenkins_build_number r"
  using assms(3,4)
proof (induction k arbitrary: m d)
  case 0
  have "db_ok (su_others e m d)" "get_run (su_others e m d) i = Some r" using 0 assms(1,2) by simp_all
  then show ?case using completed_number [of "su_others e m d" i r] by (auto simp: give_up_run_def case_prod_unfold Let_def)
next
  case (Suc k)
  let ?d = "su_others e m d" and ?s = "sync_stages st (su_get e m) (su_others e m d) i job n (Some u) (su_clock e m)"
  have x: "db_ok ?d" "get_run ?d i = Some r" using Suc.prems assms(1,2) by simp_all
  show ?case
  proof (rule sync_stages_cases [of st "su_get e m" ?d i job n "Some u" "su_clock e m"])
    fix d1 res
    assume s: "?s = (d1, [], res)" "res \<noteq> Inr True" "runs_t d1 = runs_t ?d" "db_ok ?d \<Longrightarrow> db_ok d1"
    have "get_run d1 i = Some r" using get_run_rows [OF s(3), of i] x(2) by simp
    note ih = Suc.IH [OF s(4) [OF x(1)] this, of "Suc m"]
    show ?thesis using ih s(1,2) by (auto simp: case_prod_unfold Let_def split: sum.split bool.split)
  next
    fix d1 res
    assume s: "?s = (fst (on_build_completed st d1 i res (su_clock e m)), snd (on_build_completed st d1 i res (su_clock e m)), Inr True)"
      "runs_t d1 = runs_t ?d" "db_ok ?d \<Longrightarrow> db_ok d1"
    have "get_run d1 i = Some r" using get_run_rows [OF s(2), of i] x(2) by simp
    then show ?thesis using completed_number [OF s(3) [OF x(1)]] s(1) by simp
  qed
qed

lemma execution_number:
  assumes "\<And>k x. db_ok x \<Longrightarrow> db_ok (su_others e k x)" "\<And>k x. get_run (su_others e k x) i = get_run x i"
    and "db_ok d" "get_run d i = Some r" "truthy (pr_jenkins_job_name r)"
    and "trigger_jenkins st (su_post e) (su_queue e) (the (pr_jenkins_job_name r))
      (if pr_branch r = [] then ''main'' else pr_branch r) (pr_commit_sha r) = Inr (n, u)"
  shows "map_option pr_jenkins_build_number (get_run (fst (run_execution st e d i)) i) = Some (Some n)"
proof -
  let ?d = "su_others e 0 d"
  let ?s = "on_build_started ?d i n u (su_clock e 0)"
  have x: "db_ok ?d" "get_run ?d i = Some r" using assms(1-4) by simp_all
  obtain y where y: "get_run ?s i = Some y" "pr_jenkins_build_number y = Some n"
    using started_row [OF x(2)] by blast
  have "run_execution st e d i = poll_build st e i (the (pr_jenkins_job_name r)) n u max_polls 1 ?s"
    using assms(4-6) by (simp add: run_execution_def Let_def get_run_def)
  then show ?thesis
    using poll_build_number [OF assms(1,2) db_ok_started [OF x(1)] y(1), of st "the (pr_jenkins_job_name r)" n u max_polls 1] y(2)
    by auto
qed

section \<open>Properties\<close>

text \<open>
  C10: an execution polls its build up to 120 times and leaves its run with a final
  status.  The first result Jenkins reports in a readable answer of those polls
  becomes the result of the run and decides its status; a run without a job name
  and a failed trigger end as a failure; and when no poll reports a result the
  run ends COMPLETED, FAILED or ABORTED nevertheless, as a failure unless
  somebody else has ended it meanwhile.  This holds whatever the other tasks do,
  provided they neither delete the run nor put it back into the queue.
\<close>

theorem execution_settles:
  assumes "executing d i" "get_run d i = Some r"
    and "\<And>k x. executing x i \<Longrightarrow> executing (su_others e k x) i"
    and "\<And>k x. executing x i \<Longrightarrow> \<not> queued x i \<Longrightarrow> \<not> queued (su_others e k x) i"
  shows "executing (fst (run_execution st e d i)) i
    \<and> ended_as (fst (run_execution st e d i)) i (build_outcome st e r)
    \<and> ((\<forall>k x. get_run (su_others e k x) i = get_run x i) \<longrightarrow>
        ended_as (fst (run_execution st e d i)) i (Some (case build_outcome st e r of None \<Rightarrow> ''FAILURE'' | Some res \<Rightarrow> res)))"
proof -
  let ?d = "su_others e 0 d" and ?job = "the (pr_jenkins_job_name r)"
  let ?t = "trigger_jenkins st (su_post e) (su_queue e) ?job (if pr_branch r = [] then ''main'' else pr_branch r) (pr_commit_sha r)"
  have x: "executing ?d i" by (rule assms(3) [OF assms(1)])
  have row: "get_run_row d i = Some r" using assms(2) by (simp add: get_run_def)
  show ?thesis
  proof (cases "truthy (pr_jenkins_job_name r) \<and> (\<exists>nu. ?t = Inr nu)")
    case False
    then have "run_execution st e d i = fail_run st ?d i (su_clock e 0)" "build_outcome st e r = Some ''FAILURE''"
      using row by (auto simp: run_execution_def build_outcome_def Let_def split: sum.split)
    then show ?thesis using fail_run_ends [OF x] by simp
  next
    case True
    then obtain n u where t: "?t = Inr (n, u)" and j: "truthy (pr_jenkins_job_name r)" by auto
    let ?s = "on_build_started ?d i n u (su_clock e 0)"
    have o: "build_outcome st e r = first_some (\<lambda>k. reported st (su_get e k) ?job n (Some u)) [1..<1 + max_polls]"
      unfolding polls_120 using j t by (simp add: build_outcome_def)
    have ex: "run_execution st e d i = poll_build st e i ?job n u max_polls 1 ?s"
      using row j t by (simp add: run_execution_def Let_def)
    obtain y where y: "get_run ?s i = Some y" "pr_status y = RS_IN_PROGRESS" using executing_started(2) [OF x] by blast
    have nq: "\<not> queued ?s i" using y by (simp add: queued_def)
    have alone: "ended_as (fst (run_execution st e d i)) i (Some (case build_outcome st e r of None \<Rightarrow> ''FAILURE'' | Some res \<Rightarrow> res))"
      if "\<forall>k x. get_run (su_others e k x) i = get_run x i"
      using poll_build_alone [OF assms(3) _ executing_started(1) [OF x] y, of st ?job n u max_polls 1] that
      unfolding ex o by (auto simp: ended_as_def final_status)
    show ?thesis using poll_build_ends [OF assms(3,4) executing_started(1) [OF x] nq, of st ?job n u max_polls 1] alone
      unfolding o [symmetric] ex [symmetric] by blast
  qed
qed

text \<open>Jenkins accepts the build and reports its success at the last poll only.\<close>

definition late_jenkins :: surroundings where
  "late_jenkins = \<lparr>su_post = queue_server, su_queue = (\<lambda>u. []),
     su_get = (\<lambda>k u. if k = 120 then Inr \<lparr>status_code = 200, response_text = [],
         response_json = Some (JObj [(''status'', JStr ''SUCCESS''), (''stages'', JArr [])]), location = []\<rparr>
       else Inl ''timeout''),
     su_others = (\<lambda>k d. d), su_clock = (\<lambda>k. seconds (10 * int k))\<rparr>"

lemma executing_example: "executing running_db 1"
  using running_db_run running_db_ok
  by (simp add: executing_def stage_names_distinct_def running_db_def example_db_def empty_db_def)

theorem execution_settles_witness:
  "ended_as (fst (run_execution default_settings late_jenkins running_db 1)) 1 (Some ''SUCCESS'')
   \<and> \<not> ended_as running_db 1 None"
proof -
  let ?r = "hd (runs_t running_db)"
  have r: "get_run running_db 1 = Some ?r" using running_db_run by (simp add: running_db_def)
  have o: "build_outcome default_settings late_jenkins ?r = Some ''SUCCESS''" by code_simp
  have n: "\<not> ended_as running_db 1 None" by code_simp
  have e: "executing (su_others late_jenkins k x) 1 = executing x 1" "queued (su_others late_jenkins k x) 1 = queued x 1" for k x
    by (simp_all add: late_jenkins_def)
  show ?thesis using execution_settles [OF executing_example r, of late_jenkins default_settings] n unfolding e o by simp
qed

end
