(* ===== verification/Log_Parser.thy ===== *)
theory Log_Parser
  imports Py_Regex
begin

text \<open>
  \<open>app/services/log_parser.py\<close>: a log is cut into lines, each line loses its
  escape sequences and its time stamp, and every line with an error word starts a
  block with up to five lines around it, once per text of the line.  The lemmas
  compare the loop with the removal of duplicates from the error lines.
\<close>

section \<open>Patterns\<close>

definition ESC :: char where "ESC = CHR 0x1B"

definition ANSI_ESCAPE :: re where
  "ANSI_ESCAPE = Alt (seqs [lit [ESC, CHR ''[''], Many (Cls (\<lambda>c. is_digit c \<or> c = CHR '';'')), Cls is_ascii_letter])
     (lit [CR])"

definition ISO8601_PFX :: re where
  "ISO8601_PFX = seqs [Bol, exactly 4 dig, lit ''-'', exactly 2 dig, lit ''-'', exactly 2 dig,
     Cls (\<lambda>c. c = CHR ''T'' \<or> c = CHR '' ''), exactly 2 dig, lit '':'', exactly 2 dig, lit '':'', exactly 2 dig,
     Opt (Cat (lit ''.'') (Some1 dig)),
     Opt (Alt (lit ''Z'') (seqs [Cls (\<lambda>c. c = CHR ''+'' \<or> c = CHR ''-''), exactly 2 dig, lit '':'', exactly 2 dig])),
     Many spc]"

definition EPOCH_PFX :: re where
  "EPOCH_PFX = seqs [Bol, between 10 13 dig, Some1 spc]"

definition ERROR_ANCHOR :: re where
  "ERROR_ANCHOR = Grp 1 (alts (map lit_i
     [''ERROR'', ''FATAL'', ''Exception'', ''caused by'', ''Build step'', ''exit code'']))"

definition CTX :: nat where "CTX = 5"

section \<open>Definitions\<close>

record error_block =
  eb_anchor_line :: string
  eb_context_before :: "string list"
  eb_context_after :: "string list"

definition full_text :: "error_block \<Rightarrow> string" where
  "full_text b = py_join [LF] (eb_context_before b @ [eb_anchor_line b] @ eb_context_after b)"

definition clean_line :: "string \<Rightarrow> string" where
  "clean_line line = re_sub EPOCH_PFX [] (re_sub ISO8601_PFX [] (re_sub ANSI_ESCAPE [] line))"

definition strip_log :: "string \<Rightarrow> string" where
  "strip_log text = py_join [LF] (map clean_line (splitlines text))"

definition block_at :: "string list \<Rightarrow> nat \<Rightarrow> string \<Rightarrow> error_block" where
  "block_at lines idx anchor =
     \<lparr>eb_anchor_line = anchor, eb_context_before = drop (idx - CTX) (take idx lines),
      eb_context_after = take CTX (drop (idx + 1) lines)\<rparr>"

text \<open>The loop: \<open>rest\<close> are the lines from index \<open>idx\<close> on.\<close>

fun parse_lines :: "string list \<Rightarrow> nat \<Rightarrow> string list \<Rightarrow> string list \<Rightarrow> error_block list" where
  "parse_lines lines idx seen [] = []"
| "parse_lines lines idx seen (line # rest) =
     (let stripped = py_strip line in
      if \<not> searches ERROR_ANCHOR line then parse_lines lines (idx + 1) seen rest
      else if List.member seen stripped then parse_lines lines (idx + 1) seen rest
      else block_at lines idx stripped # parse_lines lines (idx + 1) (stripped # seen) rest)"

definition log_lines :: "string \<Rightarrow> string list" where
  "log_lines raw = splitlines (strip_log raw)"

definition parse_log :: "string \<Rightarrow> error_block list" where
  "parse_log raw = parse_lines (log_lines raw) 0 [] (log_lines raw)"

section \<open>Lemmas\<close>

lemma re_sub_subset: "set (re_sub r [] s) \<subseteq> set s"
proof -
  have "set (concat (map (\<lambda>p. case p of Gap c \<Rightarrow> [c] | Hit h g \<Rightarrow> []) ps)) \<subseteq> set (concat (map piece_text ps))" for ps
    by (induction ps) (auto split: piece.split)
  then show ?thesis unfolding re_sub_def using scan_tiles [of r "[]" s] by metis
qed

lemma clean_line_subset: "set (clean_line l) \<subseteq> set l"
  unfolding clean_line_def using re_sub_subset by blast

lemma clean_line_no_break: "no_break l \<Longrightarrow> no_break (clean_line l)"
  using clean_line_subset by (auto simp: no_break_def list_all_iff)

text \<open>
  Cutting the cleaned text into lines again gives the cleaned lines, up to a last
  one that cleaning has emptied.
\<close>

lemma log_lines_eq:
  "log_lines raw = (let ls = map clean_line (splitlines raw) in
     if ls \<noteq> [] \<and> last ls = [] then butlast ls else ls)"
proof -
  have "list_all no_break (map clean_line (splitlines raw))"
    using splitlines_no_break [of raw] by (auto simp: list_all_iff clean_line_no_break)
  then show ?thesis by (simp add: log_lines_def strip_log_def splitlines_join Let_def)
qed

lemma parse_lines_anchors:
  "map eb_anchor_line (parse_lines lines idx seen rest) =
   dedup_seen seen (map py_strip (filter (searches ERROR_ANCHOR) rest))"
  by (induction rest arbitrary: idx seen) (simp_all add: block_at_def Let_def)

lemma parse_lines_blocks:
  assumes "b \<in> set (parse_lines lines idx seen rest)" "rest = drop idx lines"
  obtains k where "k < length lines" "searches ERROR_ANCHOR (lines ! k)" "b = block_at lines k (py_strip (lines ! k))"
  using assms
proof (induction rest arbitrary: idx seen thesis)
  case (Cons line rest)
  have idx: "idx < length lines" "line = lines ! idx" "rest = drop (Suc idx) lines"
    using Cons.prems(3) by (metis drop_all leI list.distinct(1)) (metis Cons.prems(3) nth_via_drop, metis Cons.prems(3) drop_Suc list.sel(3) tl_drop)
  show ?case
  proof (cases "searches ERROR_ANCHOR line \<and> b = block_at lines idx (py_strip line)")
    case True
    then show ?thesis using Cons.prems(1) idx by blast
  next
    case False
    then obtain seen' where "b \<in> set (parse_lines lines (Suc idx) seen' rest)"
      using Cons.prems(2) by (auto simp: Let_def split: if_splits)
    then show ?thesis using Cons.IH [where idx = "Suc idx" and seen = seen'] Cons.prems(1) idx(3) by blast
  qed
qed simp

text \<open>What surrounds line \<open>k\<close>: the context is as long as the log allows.\<close>

definition in_context :: "string list \<Rightarrow> error_block \<Rightarrow> bool" where
  "in_context lines b \<longleftrightarrow> (\<exists>pre line post. lines = pre @ eb_context_before b @ line # eb_context_after b @ post
     \<and> searches ERROR_ANCHOR line \<and> eb_anchor_line b = py_strip line
     \<and> length (eb_context_before b) \<le> 5 \<and> (pre \<noteq> [] \<longrightarrow> length (eb_context_before b) = 5)
     \<and> length (eb_context_after b) \<le> 5 \<and> (post \<noteq> [] \<longrightarrow> length (eb_context_after b) = 5))"

lemma block_in_context:
  assumes "k < length lines" "searches ERROR_ANCHOR (lines ! k)"
  shows "in_context lines (block_at lines k (py_strip (lines ! k)))"
proof -
  let ?b = "block_at lines k (py_strip (lines ! k))"
  have a: "take (k - CTX) lines @ drop (k - CTX) (take k lines) = take k lines"
    by (metis append_take_drop_id diff_le_self min.absorb1 take_take)
  have "lines = take k lines @ lines ! k # drop (Suc k) lines" using id_take_nth_drop [OF assms(1)] .
  then have "lines = (take (k - CTX) lines @ drop (k - CTX) (take k lines)) @ lines ! k #
      take CTX (drop (Suc k) lines) @ drop CTX (drop (Suc k) lines)"
    unfolding a by (simp only: append_take_drop_id)
  then have eq: "lines = take (k - CTX) lines @ eb_context_before ?b @ lines ! k #
      eb_context_after ?b @ drop CTX (drop (Suc k) lines)"
    by (simp add: block_at_def)
  have "length (eb_context_before ?b) = min 5 k" "length (eb_context_after ?b) = min 5 (length lines - Suc k)"
    using assms(1) by (auto simp: block_at_def CTX_def)
  moreover have "take (k - CTX) lines \<noteq> [] \<Longrightarrow> 5 < k" "drop CTX (drop (Suc k) lines) \<noteq> [] \<Longrightarrow> 5 < length lines - Suc k"
    by (auto simp: CTX_def)
  moreover have "eb_anchor_line ?b = py_strip (lines ! k)" by (simp add: block_at_def)
  ultimately show ?thesis unfolding in_context_def
    using eq assms(2) by (intro exI [of _ "take (k - CTX) lines"] exI [of _ "lines ! k"] exI [of _ "drop CTX (drop (Suc k) lines)"]) auto
qed

section \<open>Properties\<close>

text \<open>
  C20: parsing finds every error line exactly once: the anchors are the stripped
  lines with an error word, in order and without repetitions; and every block
  holds the lines that really stand around such a line, five on each side or as
  many as the log has.
\<close>

theorem parse_log_blocks:
  "map eb_anchor_line (parse_log raw) = dedup (map py_strip (filter (searches ERROR_ANCHOR) (log_lines raw)))
   \<and> list_all (in_context (log_lines raw)) (parse_log raw)"
proof
  show "map eb_anchor_line (parse_log raw) = dedup (map py_strip (filter (searches ERROR_ANCHOR) (log_lines raw)))"
    by (simp add: parse_log_def parse_lines_anchors)
  have "in_context (log_lines raw) b" if "b \<in> set (parse_log raw)" for b
    using parse_lines_blocks [OF that [unfolded parse_log_def]] block_in_context by auto
  then show "list_all (in_context (log_lines raw)) (parse_log raw)" by (simp add: list_all_iff)
qed

end
