(* ===== verification/Log_Fetcher.thy ===== *)
theory Log_Fetcher
  imports Jenkins_Urls Json
begin

text \<open>
  \<open>app/services/log_fetcher.py\<close>: the console log of a build, tried three times
  and cut to its last 10 MB.  The answer to each attempt is a parameter.  The cut
  is made on the UTF-8 bytes; a character it splits is decoded as the replacement
  character.
\<close>

section \<open>Definitions\<close>

definition MAX_LOG_BYTES :: nat where "MAX_LOG_BYTES = 10 * 1024 * 1024"
definition RETRY_DELAYS :: "nat list" where "RETRY_DELAYS = [2, 4, 8]"

definition encode_utf8 :: "string \<Rightarrow> nat list" where
  "encode_utf8 s = concat (map utf8_bytes s)"

text \<open>Decoding with \<open>errors="replace"\<close> what a cut has left: only its first byte can be stray.\<close>

definition decode_replace :: "nat list \<Rightarrow> string" where
  "decode_replace bs =
     (case bs of b # rest \<Rightarrow> if 128 \<le> b \<and> b < 192 then REPLACEMENT # utf8_decode rest else utf8_decode bs
      | [] \<Rightarrow> [])"

definition truncate_log :: "string \<Rightarrow> string" where
  "truncate_log raw =
     (if MAX_LOG_BYTES < length (encode_utf8 raw)
      then decode_replace (take_last MAX_LOG_BYTES (encode_utf8 raw)) else raw)"

definition console_url :: "settings \<Rightarrow> string \<Rightarrow> int \<Rightarrow> string" where
  "console_url st job n = JENKINS_URL st @ ''/'' @ jenkins_job_path job @ ''/'' @ str_int n @ ''/consoleText''"

definition fetch_failure :: "string \<Rightarrow> int \<Rightarrow> pyerr" where
  "fetch_failure job n = RuntimeError (''Failed to fetch log for '' @ job @ ''#'' @ str_int n @ '' after ''
     @ str_nat (length RETRY_DELAYS) @ '' attempts'')"

fun fetch_attempts :: "(nat \<Rightarrow> http_result) \<Rightarrow> pyerr \<Rightarrow> nat \<Rightarrow> nat list \<Rightarrow> string res" where
  "fetch_attempts get err attempt [] = Inl err"
| "fetch_attempts get err attempt (delay # delays) =
     (case get attempt of
        Inl _ \<Rightarrow> fetch_attempts get err (attempt + 1) delays
      | Inr r \<Rightarrow> if is_success r then Inr (truncate_log (response_text r))
          else fetch_attempts get err (attempt + 1) delays)"

text \<open>\<open>get url k\<close> is the answer to attempt \<open>k\<close>.\<close>

definition fetch_console_log :: "settings \<Rightarrow> (string \<Rightarrow> nat \<Rightarrow> http_result) \<Rightarrow> string \<Rightarrow> int \<Rightarrow> string res" where
  "fetch_console_log st get job n =
     fetch_attempts (get (console_url st job n)) (fetch_failure job n) 1 RETRY_DELAYS"

section \<open>The cut\<close>

lemma utf8_decode_encode: "utf8_decode (encode_utf8 s) = s"
  unfolding encode_utf8_def by (induction s) (simp_all add: utf8_decode_char)

lemma utf8_length: "length s \<le> length (encode_utf8 s)"
  by (induction s) (auto simp: encode_utf8_def utf8_bytes_def Let_def)

lemma head_not_stray:
  assumes "encode_utf8 s = b # bs"
  shows "\<not> (128 \<le> b \<and> b < 192)"
proof (cases s)
  case Nil
  then show ?thesis using assms by (simp add: encode_utf8_def)
next
  case (Cons c cs)
  then show ?thesis using assms by (auto simp: encode_utf8_def utf8_bytes_def Let_def split: if_splits)
qed

lemma drop_encoded:
  "\<exists>t. suffix t s \<and> (drop k (encode_utf8 s) = encode_utf8 t
     \<or> (\<exists>b. 128 \<le> b \<and> b < 192 \<and> drop k (encode_utf8 s) = b # encode_utf8 t))"
proof (induction s arbitrary: k)
  case (Cons c s)
  show ?case
  proof (cases "k = 0 \<or> cp c < 128")
    case True
    then show ?thesis
    proof (cases k)
      case 0
      then show ?thesis by auto
    next
      case (Suc m)
      then show ?thesis using True Cons.IH [of m] suffix_ConsI by (fastforce simp: encode_utf8_def utf8_bytes_def)
    qed
  next
    case False
    then have e: "encode_utf8 (c # s) = (192 + cp c div 64) # (128 + cp c mod 64) # encode_utf8 s"
      by (simp add: encode_utf8_def utf8_bytes_def Let_def)
    show ?thesis
    proof (cases "k = 1")
      case True
      have "suffix s (c # s)" by (simp add: suffix_ConsI)
      moreover have "128 + cp c mod 64 < 192" by simp
      ultimately show ?thesis unfolding e using True by (intro exI [of _ s]) auto
    next
      case k: False
      then obtain m where "k = Suc (Suc m)" using False by (metis One_nat_def not0_implies_Suc)
      then show ?thesis unfolding e using Cons.IH [of m] suffix_ConsI by fastforce
    qed
  qed
qed (simp add: encode_utf8_def)

lemma decode_replace_encoded:
  "decode_replace (encode_utf8 t) = t"
  "128 \<le> b \<Longrightarrow> b < 192 \<Longrightarrow> decode_replace (b # encode_utf8 t) = REPLACEMENT # t"
proof -
  show "decode_replace (encode_utf8 t) = t"
  proof (cases "encode_utf8 t")
    case Nil
    then show ?thesis using utf8_decode_encode [of t] by (simp add: decode_replace_def)
  next
    case (Cons b bs)
    then show ?thesis using head_not_stray [OF Cons] utf8_decode_encode [of t] by (auto simp: decode_replace_def)
  qed
qed (simp add: decode_replace_def utf8_decode_encode)

lemma truncate_small: "length (encode_utf8 raw) \<le> MAX_LOG_BYTES \<Longrightarrow> truncate_log raw = raw"
  by (simp add: truncate_log_def)

lemma truncate_large:
  assumes "MAX_LOG_BYTES < length (encode_utf8 raw)"
  shows "\<exists>t. suffix t raw \<and> (length (encode_utf8 t) = MAX_LOG_BYTES \<and> truncate_log raw = t
    \<or> Suc (length (encode_utf8 t)) = MAX_LOG_BYTES \<and> truncate_log raw = REPLACEMENT # t)"
proof -
  let ?bs = "take_last MAX_LOG_BYTES (encode_utf8 raw)"
  have len: "length ?bs = MAX_LOG_BYTES" using assms by simp
  have tr: "truncate_log raw = decode_replace ?bs" using assms by (simp add: truncate_log_def)
  obtain t where t: "suffix t raw" and
    d: "?bs = encode_utf8 t \<or> (\<exists>b. 128 \<le> b \<and> b < 192 \<and> ?bs = b # encode_utf8 t)"
    using drop_encoded [of raw "length (encode_utf8 raw) - MAX_LOG_BYTES"] by (auto simp: take_last_def)
  from d show ?thesis
  proof
    assume "?bs = encode_utf8 t"
    then show ?thesis using t len tr decode_replace_encoded(1) by auto
  next
    assume "\<exists>b. 128 \<le> b \<and> b < 192 \<and> ?bs = b # encode_utf8 t"
    then obtain b where b: "128 \<le> b" "b < 192" "?bs = b # encode_utf8 t" by blast
    then show ?thesis using t tr len decode_replace_encoded(2) [OF b(1,2)] by (metis length_Cons)
  qed
qed

section \<open>Properties\<close>

definition attempt_ok :: "http_result \<Rightarrow> bool" where
  "attempt_ok a \<longleftrightarrow> (case a of Inl _ \<Rightarrow> False | Inr r \<Rightarrow> is_success r)"

lemma fetch_attempts_find:
  "fetch_attempts get err k ds =
     (case List.find attempt_ok (map get [k..<k + length ds]) of
        Some (Inr r) \<Rightarrow> Inr (truncate_log (response_text r)) | _ \<Rightarrow> Inl err)"
proof (induction ds arbitrary: k)
  case (Cons d ds)
  have "[k..<k + length (d # ds)] = k # [Suc k..<Suc k + length ds]" by (simp add: upt_rec)
  then show ?case using Cons.IH [of "Suc k"] by (simp add: attempt_ok_def split: sum.split)
qed simp

text \<open>
  C33: the log is what the first successful one of three attempts returns; after
  three failures the fetch raises.  A log of more than 10 MB (10485760 bytes in
  UTF-8) is cut to its last characters of exactly that size, or of one byte less,
  when the cut splits a character, which is then replaced; a shorter one is
  returned whole.
\<close>

theorem fetch_console_log_result:
  "fetch_console_log st get job n =
     (case List.find attempt_ok (map (get (console_url st job n)) [1, 2, 3]) of
        Some (Inr r) \<Rightarrow> Inr (truncate_log (response_text r)) | _ \<Rightarrow> Inl (fetch_failure job n))
   \<and> (if length (encode_utf8 raw) \<le> 10485760 then truncate_log raw = raw
      else \<exists>t. suffix t raw \<and> (length (encode_utf8 t) = 10485760 \<and> truncate_log raw = t
        \<or> Suc (length (encode_utf8 t)) = 10485760 \<and> truncate_log raw = REPLACEMENT # t))"
proof -
  have "[1..<1 + length RETRY_DELAYS] = [1, 2, 3]" by (simp add: RETRY_DELAYS_def upt_rec)
  then have f: "fetch_console_log st get job n =
     (case List.find attempt_ok (map (get (console_url st job n)) [1, 2, 3]) of
        Some (Inr r) \<Rightarrow> Inr (truncate_log (response_text r)) | _ \<Rightarrow> Inl (fetch_failure job n))"
    unfolding fetch_console_log_def fetch_attempts_find by simp
  have m: "MAX_LOG_BYTES = 10485760" by (simp add: MAX_LOG_BYTES_def)
  have "if length (encode_utf8 raw) \<le> MAX_LOG_BYTES then truncate_log raw = raw
      else \<exists>t. suffix t raw \<and> (length (encode_utf8 t) = MAX_LOG_BYTES \<and> truncate_log raw = t
        \<or> Suc (length (encode_utf8 t)) = MAX_LOG_BYTES \<and> truncate_log raw = REPLACEMENT # t)"
    using truncate_small [of raw] truncate_large [of raw] by auto
  then show ?thesis using f unfolding m by (rule conjI [rotated])
qed

end
