(* ===== verification/Classifier.thy ===== *)
theory Classifier
  imports Py_Regex
begin

text \<open>
  \<open>app/services/classifier.py\<close> with the rules of \<open>rules/classifier_rules.yaml\<close>
  (patterns compiled with \<open>IGNORECASE\<close>): every rule is tried on every line, and
  the confidence depends on how many categories were hit.
\<close>

section \<open>Rules\<close>

record rule =
  ru_name :: string
  ru_pattern :: re
  ru_failure_type :: string

record failure_tag =
  ft_category :: string
  ft_confidence :: string
  ft_matched_line :: string
  ft_matched_rule :: string

text \<open>\<open>a.*b\<close> of literals.\<close>

definition gap_i :: "string list \<Rightarrow> re" where
  "gap_i ws = seqs (tl (concat (map (\<lambda>w. [Many anychar, lit_i w]) ws)))"

definition RULES :: "rule list" where
  "RULES =
     [\<lparr>ru_name = ''flaky_test'', ru_pattern = alts [lit_i ''Flaky'', lit_i ''intermittent'', lit_i ''RERUN'',
         lit_i ''AssertionError'', gap_i [''test'', ''failed'']], ru_failure_type = ''flaky_test''\<rparr>,
      \<lparr>ru_name = ''env_issue'', ru_pattern = alts [gap_i [''env'', ''not'', ''set''], lit_i ''environment variable'',
         gap_i [''secret'', ''not'', ''found''], lit_i ''permission denied'', lit_i ''config not found'', lit_i ''ENV''],
       ru_failure_type = ''env_issue''\<rparr>,
      \<lparr>ru_name = ''dependency_error'', ru_pattern = alts [lit_i ''ENOTFOUND'', lit_i ''Could not resolve'',
         lit_i ''artifact not found'', lit_i ''ModuleNotFoundError'', lit_i ''ImportError'', lit_i ''pip install'',
         lit_i ''npm ERR''], ru_failure_type = ''dependency_error''\<rparr>,
      \<lparr>ru_name = ''build_config'', ru_pattern = alts [gap_i [''WorkflowScript'', ''error''],
         lit_i ''org.jenkinsci.plugins'', lit_i ''Jenkinsfile'', lit_i ''syntax error''], ru_failure_type = ''build_config''\<rparr>,
      \<lparr>ru_name = ''infrastructure'', ru_pattern = alts [gap_i [''agent'', ''offline''], lit_i ''OutOfMemoryError'',
         lit_i ''MemoryError'', lit_i ''OOM'', lit_i ''No space left'', gap_i [''disk'', ''full'']],
       ru_failure_type = ''infrastructure''\<rparr>,
      \<lparr>ru_name = ''oom'', ru_pattern = alts [lit_i ''OutOfMemoryError'', lit_i ''MemoryError'', lit_i ''OOM''],
       ru_failure_type = ''infrastructure''\<rparr>]"

section \<open>Classification\<close>

definition new_tag :: "string \<Rightarrow> rule \<Rightarrow> failure_tag" where
  "new_tag line r = \<lparr>ft_category = ru_failure_type r, ft_confidence = ''HIGH'',
     ft_matched_line = py_strip line, ft_matched_rule = ru_name r\<rparr>"

definition CATCH_ALL :: failure_tag where
  "CATCH_ALL = \<lparr>ft_category = ''unknown'', ft_confidence = ''LOW'', ft_matched_line = [], ft_matched_rule = ''catch-all''\<rparr>"

text \<open>The two loops, with the tags and the categories matched so far.\<close>

fun tag_line :: "string \<Rightarrow> rule list \<Rightarrow> failure_tag list \<times> string list \<Rightarrow> failure_tag list \<times> string list" where
  "tag_line line [] s = s"
| "tag_line line (r # rs) (tags, types) =
     tag_line line rs
       (if searches (ru_pattern r) line
        then (tags @ [new_tag line r], List.insert (ru_failure_type r) types)
        else (tags, types))"

fun tag_lines :: "rule list \<Rightarrow> string list \<Rightarrow> failure_tag list \<times> string list \<Rightarrow> failure_tag list \<times> string list" where
  "tag_lines rules [] s = s"
| "tag_lines rules (line # rest) s = tag_lines rules rest (tag_line line rules s)"

definition classify_with :: "rule list \<Rightarrow> string \<Rightarrow> failure_tag list" where
  "classify_with rules txt =
     (let (tags, types) = tag_lines rules (splitlines txt) ([], []) in
      if tags = [] then [CATCH_ALL]
      else if 1 < length types then map (\<lambda>t. t\<lparr>ft_confidence := ''MEDIUM''\<rparr>) tags
      else tags)"

definition classify :: "string \<Rightarrow> failure_tag list" where
  "classify txt = classify_with RULES txt"

section \<open>The hits\<close>

definition hits :: "rule list \<Rightarrow> string list \<Rightarrow> (string \<times> rule) list" where
  "hits rules ls = concat (map (\<lambda>l. map (Pair l) (filter (\<lambda>r. searches (ru_pattern r) l) rules)) ls)"

definition add_hit :: "string \<times> rule \<Rightarrow> failure_tag list \<times> string list \<Rightarrow> failure_tag list \<times> string list" where
  "add_hit h s = (fst s @ [new_tag (fst h) (snd h)], List.insert (ru_failure_type (snd h)) (snd s))"

lemma tag_line_hits: "tag_line line rules s = fold add_hit (hits rules [line]) s"
proof (induction line rules s rule: tag_line.induct)
  case (2 line r rs tags types)
  then show ?case by (simp add: hits_def add_hit_def)
qed (simp add: hits_def)

lemma tag_lines_hits: "tag_lines rules ls s = fold add_hit (hits rules ls) s"
proof (induction rules ls s rule: tag_lines.induct)
  case (2 rules line rest s)
  have "hits rules (line # rest) = hits rules [line] @ hits rules rest" by (simp add: hits_def)
  then show ?case using 2 by (simp add: tag_line_hits)
qed (simp add: hits_def)

lemma fold_add_hit:
  "fst (fold add_hit hs s) = fst s @ map (\<lambda>(l, r). new_tag l r) hs
   \<and> set (snd (fold add_hit hs s)) = set (snd s) \<union> (\<lambda>(l, r). ru_failure_type r) ` set hs
   \<and> (distinct (snd s) \<longrightarrow> distinct (snd (fold add_hit hs s)))"
  by (induction hs arbitrary: s) (auto simp: add_hit_def)

definition log_hits :: "rule list \<Rightarrow> string \<Rightarrow> (string \<times> rule) list" where
  "log_hits rules txt = hits rules (splitlines txt)"

definition hit_categories :: "rule list \<Rightarrow> string \<Rightarrow> string set" where
  "hit_categories rules txt = (\<lambda>(l, r). ru_failure_type r) ` set (log_hits rules txt)"

lemma classify_hits:
  "classify_with rules txt =
     (if log_hits rules txt = [] then [CATCH_ALL]
      else map (\<lambda>(l, r). (new_tag l r)\<lparr>ft_confidence :=
             (if card (hit_categories rules txt) = 1 then ''HIGH'' else ''MEDIUM'')\<rparr>) (log_hits rules txt))"
proof -
  obtain tags types where s: "tag_lines rules (splitlines txt) ([], []) = (tags, types)" by fastforce
  have f: "tags = map (\<lambda>(l, r). new_tag l r) (log_hits rules txt)" "set types = hit_categories rules txt" "distinct types"
    using fold_add_hit [of "log_hits rules txt" "([], [])"] s by (simp_all add: tag_lines_hits log_hits_def hit_categories_def)
  have card: "card (hit_categories rules txt) = length types" using f(2,3) distinct_card by metis
  have high: "(new_tag l r)\<lparr>ft_confidence := ''HIGH''\<rparr> = new_tag l r" for l r by (simp add: new_tag_def)
  show ?thesis
  proof (cases "log_hits rules txt = []")
    case True
    then show ?thesis using s f by (simp add: classify_with_def)
  next
    case False
    then have "hit_categories rules txt \<noteq> {}" by (simp add: hit_categories_def)
    then have "1 \<le> length types" using card f(2) by (cases types) auto
    then show ?thesis using False s f(1) card
      by (auto simp: classify_with_def high comp_def case_prod_unfold)
  qed
qed

definition CATEGORIES :: "string list" where
  "CATEGORIES = [''flaky_test'', ''env_issue'', ''dependency_error'', ''build_config'', ''infrastructure'', ''unknown'']"

lemma rule_categories: "list_all (\<lambda>r. ru_failure_type r \<in> set CATEGORIES) RULES"
  by (simp add: RULES_def CATEGORIES_def)

section \<open>Properties\<close>

text \<open>
  The tags are exactly the hits of rules on lines, line by line and in the
  order of the rules; they are never empty, and all have the same confidence:
  LOW when no rule hit, HIGH when the hits have one category, MEDIUM otherwise.
\<close>

theorem classify_confidence:
  "classify txt =
     (if log_hits RULES txt = [] then [CATCH_ALL]
      else map (\<lambda>(line, r). \<lparr>ft_category = ru_failure_type r,
             ft_confidence = (if card (hit_categories RULES txt) = 1 then ''HIGH'' else ''MEDIUM''),
             ft_matched_line = py_strip line, ft_matched_rule = ru_name r\<rparr>) (log_hits RULES txt))
   \<and> set (log_hits RULES txt) = {(line, r). line \<in> set (splitlines txt) \<and> r \<in> set RULES \<and> searches (ru_pattern r) line}
   \<and> classify txt \<noteq> [] \<and> set (map ft_category (classify txt)) \<subseteq> set CATEGORIES"
proof (intro conjI)
  have tag: "(new_tag l r)\<lparr>ft_confidence := c\<rparr> = \<lparr>ft_category = ru_failure_type r, ft_confidence = c,
      ft_matched_line = py_strip l, ft_matched_rule = ru_name r\<rparr>" for l r c by (simp add: new_tag_def)
  show eq: "classify txt =
     (if log_hits RULES txt = [] then [CATCH_ALL]
      else map (\<lambda>(line, r). \<lparr>ft_category = ru_failure_type r,
             ft_confidence = (if card (hit_categories RULES txt) = 1 then ''HIGH'' else ''MEDIUM''),
             ft_matched_line = py_strip line, ft_matched_rule = ru_name r\<rparr>) (log_hits RULES txt))"
    unfolding classify_def classify_hits tag ..
  show sets: "set (log_hits RULES txt) = {(line, r). line \<in> set (splitlines txt) \<and> r \<in> set RULES \<and> searches (ru_pattern r) line}"
    by (auto simp: log_hits_def hits_def)
  show "classify txt \<noteq> []" unfolding eq by simp
  have "ft_category (new_tag l r) \<in> set CATEGORIES" if "(l, r) \<in> set (log_hits RULES txt)" for l r
    using that rule_categories unfolding sets by (auto simp: new_tag_def list_all_iff)
  moreover have "ft_category CATCH_ALL \<in> set CATEGORIES" by (simp add: CATCH_ALL_def CATEGORIES_def)
  ultimately show "set (map ft_category (classify txt)) \<subseteq> set CATEGORIES"
    unfolding eq by (auto simp: new_tag_def)
qed

end
