(* ===== verification/Pattern_Store.thy ===== *)
theory Pattern_Store
  imports Py_Regex Integrity "HOL-Library.Multiset"
begin

text \<open>
  \<open>app/services/pattern_store.py\<close>: the signatures of earlier failures.  The
  normalisation is the source's regular expression; the SHA-256 digest and the
  TF-IDF similarity of scikit-learn are parameters (\<open>None\<close> where the latter
  raises).  The invariant is that no two records share a signature.
\<close>

section \<open>Definitions\<close>

definition THRESHOLD :: rat where "THRESHOLD = 3 / 4"

definition hex_i :: "char \<Rightarrow> bool" where
  "hex_i c \<longleftrightarrow> hex_digit_value c \<noteq> None"

definition VOLATILE :: re where
  "VOLATILE = seqs [WordB, Grp 1 (alts
     [seqs [exactly 4 dig, lit ''-'', exactly 2 dig, lit ''-'', exactly 2 dig,
        Cls (\<lambda>c. lower_char c = CHR ''t'' \<or> c = CHR '' ''), exactly 2 dig, lit '':'', exactly 2 dig, lit '':'',
        exactly 2 dig, Many (Cls (\<lambda>c. \<not> is_space c))],
      between 10 13 dig,
      between 7 40 (Cls hex_i),
      Cat (lit ''/'') (Some1 (Cls (\<lambda>c. \<not> is_space c)))]), WordB]"

definition normalise :: "string \<Rightarrow> string" where
  "normalise t = py_lower (re_sub VOLATILE ''TOKEN'' t)"

record pattern_match =
  pm_signature_hash :: string
  pm_failure_type :: string
  pm_similarity_score :: rat
  pm_resolution_text :: "string option"

type_synonym similarity = "string list \<Rightarrow> string \<Rightarrow> rat list option"

definition match_of :: "pattern_record \<Rightarrow> rat \<Rightarrow> pattern_match" where
  "match_of r s = \<lparr>pm_signature_hash = pt_signature_hash r, pm_failure_type = pt_failure_type r,
     pm_similarity_score = s, pm_resolution_text = pt_resolution_text r\<rparr>"

text \<open>The records that reach the threshold, in the order of the table.\<close>

definition similar_records :: "similarity \<Rightarrow> db \<Rightarrow> string \<Rightarrow> pattern_match list" where
  "similar_records sim d error_text =
     (let records = patterns_t d in
      if records = [] then []
      else (case sim (map (\<lambda>r. normalise (pt_raw_sample r)) records) (normalise error_text) of
          None \<Rightarrow> []
        | Some scores \<Rightarrow> map (\<lambda>(r, s). match_of r s) (filter (\<lambda>(r, s). THRESHOLD \<le> s) (zip records scores))))"

definition find_similar :: "similarity \<Rightarrow> db \<Rightarrow> string \<Rightarrow> nat \<Rightarrow> pattern_match list" where
  "find_similar sim d error_text top_k =
     take top_k (sort_key (\<lambda>m. - pm_similarity_score m) (similar_records sim d error_text))"

definition new_pattern :: "string \<Rightarrow> string \<Rightarrow> string \<Rightarrow> time \<Rightarrow> pattern_record" where
  "new_pattern sig failure_type raw_sample now =
     \<lparr>pt_id = 0, pt_signature_hash = sig, pt_failure_type = failure_type, pt_raw_sample = raw_sample,
      pt_resolution_text = None, pt_occurrence_count = 1, pt_last_seen = now\<rparr>"

definition seen_again :: "string \<Rightarrow> time \<Rightarrow> pattern_record \<Rightarrow> pattern_record" where
  "seen_again failure_type now r =
     r\<lparr>pt_occurrence_count := pt_occurrence_count r + 1, pt_failure_type := failure_type, pt_last_seen := now\<rparr>"

definition upsert_pattern ::
    "(string \<Rightarrow> string) \<Rightarrow> db \<Rightarrow> string \<Rightarrow> string \<Rightarrow> time \<Rightarrow> (db \<times> pattern_record) res" where
  "upsert_pattern sha256 d failure_type raw_sample now =
     (let sig = sha256 (normalise raw_sample) in
      rbind (scalar_one_or_none (filter (\<lambda>r. pt_signature_hash r = sig) (patterns_t d))) (\<lambda>found. Inr
        (case found of
           None \<Rightarrow> (add_pattern (new_pattern sig failure_type raw_sample now) d,
              (new_pattern sig failure_type raw_sample now)\<lparr>pt_id := next_pattern d\<rparr>)
         | Some r \<Rightarrow> (upd_pattern (pt_id r) (seen_again failure_type now) d, seen_again failure_type now r))))"

section \<open>The store as a map\<close>

text \<open>
  The abstract store maps a signature to its count, its last failure type and
  its resolution.  Recording a failure counts it, sets the type and keeps the
  resolution.
\<close>

type_synonym store = "string \<Rightarrow> (int \<times> string \<times> string option) option"

definition find_signature :: "db \<Rightarrow> string \<Rightarrow> pattern_record option" where
  "find_signature d sig = List.find (\<lambda>r. pt_signature_hash r = sig) (patterns_t d)"

definition store_of :: "db \<Rightarrow> store" where
  "store_of d sig =
     map_option (\<lambda>r. (pt_occurrence_count r, pt_failure_type r, pt_resolution_text r)) (find_signature d sig)"

definition record_failure :: "string \<Rightarrow> string \<Rightarrow> store \<Rightarrow> store" where
  "record_failure sig ty m = m(sig \<mapsto> (case m sig of None \<Rightarrow> (1, ty, None) | Some (n, _, res) \<Rightarrow> (n + 1, ty, res)))"

definition signatures_ok :: "db \<Rightarrow> bool" where
  "signatures_ok d \<longleftrightarrow> distinct (map pt_signature_hash (patterns_t d)) \<and> keys_ok pt_id (patterns_t d) (next_pattern d)"

section \<open>Lemmas\<close>

lemma seen_again_simps [simp]:
  "pt_id (seen_again ty now r) = pt_id r" "pt_signature_hash (seen_again ty now r) = pt_signature_hash r"
  "pt_occurrence_count (seen_again ty now r) = pt_occurrence_count r + 1"
  "pt_failure_type (seen_again ty now r) = ty" "pt_resolution_text (seen_again ty now r) = pt_resolution_text r"
  by (simp_all add: seen_again_def)

lemma scalar_by_column:
  "distinct (map f rs) \<Longrightarrow> scalar_one_or_none (filter (\<lambda>r. f r = x) rs) = Inr (List.find (\<lambda>r. f r = x) rs)"
proof (induction rs)
  case (Cons r rs)
  show ?case
  proof (cases "f r = x")
    case True
    then have "filter (\<lambda>r. f r = x) rs = []" using Cons.prems by (auto simp: filter_empty_conv image_iff)
    then show ?thesis using True by simp
  next
    case False
    then show ?thesis using Cons by simp
  qed
qed simp

lemma find_SomeD: "List.find p rs = Some r \<Longrightarrow> r \<in> set rs \<and> p r"
  by (metis find_Some_iff nth_mem)

lemma find_upd_row_hit:
  assumes "\<And>r. p (g r) = p r" "List.find p rs = Some r0" "key r0 = i"
  shows "List.find p (upd_row key i g rs) = Some (g r0)"
  using assms(2) by (induction rs) (auto simp: upd_row_def assms(1,3) split: if_splits)

lemma find_map_id:
  "(\<And>x. x \<in> set rs \<Longrightarrow> p (h x) = p x) \<Longrightarrow> (\<And>x. x \<in> set rs \<Longrightarrow> p x \<Longrightarrow> h x = x) \<Longrightarrow>
   List.find p (map h rs) = List.find p rs"
  by (induction rs) auto

lemma find_upd_row_miss:
  assumes "\<And>r. p (g r) = p r" "distinct (map key rs)" "r0 \<in> set rs" "\<not> p r0"
  shows "List.find p (upd_row key (key r0) g rs) = List.find p rs"
proof -
  have "x = r0" if "x \<in> set rs" "key x = key r0" for x
    using that assms(2,3) by (metis distinct_map inj_onD)
  then show ?thesis using assms unfolding upd_row_def by (intro find_map_id) auto
qed

lemma find_append: "List.find p (xs @ [x]) = (case List.find p xs of None \<Rightarrow> if p x then Some x else None | Some y \<Rightarrow> Some y)"
  by (induction xs) auto

lemma patterns_upd: "patterns_t (upd_pattern i f d) = upd_row pt_id i f (patterns_t d)"
  "next_pattern (upd_pattern i f d) = next_pattern d"
  by (simp_all add: upd_pattern_def)

lemma upsert_known:
  assumes ok: "signatures_ok d" and r: "find_signature d sig = Some r"
  shows "find_signature (upd_pattern (pt_id r) (seen_again ty now) d) s =
      (if s = sig then Some (seen_again ty now r) else find_signature d s)"
    and "signatures_ok (upd_pattern (pt_id r) (seen_again ty now) d)"
proof -
  have mem: "r \<in> set (patterns_t d)" "pt_signature_hash r = sig"
    using find_SomeD [of _ "patterns_t d" r] r by (auto simp: find_signature_def)
  have id: "distinct (map pt_id (patterns_t d))" using ok by (simp add: signatures_ok_def keys_ok_def)
  show "find_signature (upd_pattern (pt_id r) (seen_again ty now) d) s =
      (if s = sig then Some (seen_again ty now r) else find_signature d s)"
  proof (cases "s = sig")
    case True
    then show ?thesis using find_upd_row_hit [of _ "seen_again ty now" "patterns_t d" r pt_id] r
      by (simp add: find_signature_def patterns_upd)
  next
    case False
    have "List.find (\<lambda>x. pt_signature_hash x = s) (upd_row pt_id (pt_id r) (seen_again ty now) (patterns_t d)) =
        List.find (\<lambda>x. pt_signature_hash x = s) (patterns_t d)"
      using False mem by (intro find_upd_row_miss id) auto
    then show ?thesis using False by (simp add: find_signature_def patterns_upd)
  qed
  show "signatures_ok (upd_pattern (pt_id r) (seen_again ty now) d)"
    using ok pattern_tbl.ok_upd [of "seen_again ty now" d "pt_id r"]
    by (simp add: signatures_ok_def patterns_upd)
qed

lemma upsert_new:
  assumes ok: "signatures_ok d" and none: "find_signature d sig = None"
  shows "find_signature (add_pattern (new_pattern sig ty sample now) d) s =
      (if s = sig then Some ((new_pattern sig ty sample now)\<lparr>pt_id := next_pattern d\<rparr>) else find_signature d s)"
    and "signatures_ok (add_pattern (new_pattern sig ty sample now) d)"
proof -
  have sig: "pt_signature_hash (new_pattern sig ty sample now) = sig" by (simp add: new_pattern_def)
  show "find_signature (add_pattern (new_pattern sig ty sample now) d) s =
      (if s = sig then Some ((new_pattern sig ty sample now)\<lparr>pt_id := next_pattern d\<rparr>) else find_signature d s)"
    using none by (auto simp: find_signature_def add_pattern_def find_append sig split: option.split)
  have "sig \<notin> pt_signature_hash ` set (patterns_t d)"
    using none by (auto simp: find_signature_def find_None_iff)
  then show "signatures_ok (add_pattern (new_pattern sig ty sample now) d)"
    using ok pattern_tbl.ok_add [of d "new_pattern sig ty sample now"]
    by (simp add: signatures_ok_def pattern_tbl.rows_add sig)
qed

section \<open>Properties\<close>

text \<open>
  C12: recording a failure refines the update of a map from signatures: the count
  of its signature rises by one, the failure type is the new one, a resolution
  entered earlier stays, no other signature is touched, and no two records ever
  share a signature, so the lookup never fails.
\<close>

theorem upsert_pattern_refines:
  assumes "signatures_ok d"
  shows "\<exists>d' r. upsert_pattern sha256 d ty sample now = Inr (d', r) \<and> signatures_ok d'
    \<and> store_of d' = record_failure (sha256 (normalise sample)) ty (store_of d)
    \<and> find_signature d' (sha256 (normalise sample)) = Some r"
proof -
  let ?sig = "sha256 (normalise sample)"
  have lookup: "scalar_one_or_none (filter (\<lambda>r. pt_signature_hash r = ?sig) (patterns_t d)) = Inr (find_signature d ?sig)"
    using assms scalar_by_column [of pt_signature_hash "patterns_t d"] by (simp add: find_signature_def signatures_ok_def)
  show ?thesis
  proof (cases "find_signature d ?sig")
    case None
    then show ?thesis using lookup upsert_new [OF assms None]
      by (auto simp: upsert_pattern_def Let_def store_of_def record_failure_def fun_eq_iff new_pattern_def)
  next
    case (Some r)
    then show ?thesis using lookup upsert_known [OF assms Some]
      by (auto simp: upsert_pattern_def Let_def store_of_def record_failure_def fun_eq_iff)
  qed
qed

definition toy_digest :: "string \<Rightarrow> string" where
  "toy_digest s = ''sha-'' @ s"

definition one_pattern_db :: db where
  "one_pattern_db = empty_db\<lparr>patterns_t := [(new_pattern (toy_digest (normalise ''boom'')) ''env_issue'' ''boom'' 3)
     \<lparr>pt_id := 1, pt_resolution_text := Some ''restart''\<rparr>], next_pattern := 2\<rparr>"

theorem upsert_pattern_refines_witness:
  "\<exists>d' r. upsert_pattern toy_digest one_pattern_db ''infrastructure'' ''boom'' 9 = Inr (d', r)
     \<and> store_of d' (toy_digest (normalise ''boom'')) = Some (2, ''infrastructure'', Some ''restart'')"
proof -
  have "signatures_ok one_pattern_db"
    by (simp add: signatures_ok_def one_pattern_db_def new_pattern_def keys_ok_def)
  moreover have "store_of one_pattern_db (toy_digest (normalise ''boom'')) = Some (1, ''env_issue'', Some ''restart'')"
    by (simp add: store_of_def find_signature_def one_pattern_db_def new_pattern_def)
  ultimately show ?thesis
    using upsert_pattern_refines [of one_pattern_db toy_digest "''infrastructure''" "''boom''" 9]
    by (auto simp: record_failure_def)
qed

text \<open>
  The similar failures are those that reach the threshold of 0.75, the best
  first and at most \<open>top_k\<close> of them: none that is left out scores higher than
  one that is returned.
\<close>

theorem find_similar_best:
  "let found = find_similar sim d txt k; all_found = similar_records sim d txt in
     length found = min k (length all_found) \<and> sorted_wrt (\<lambda>m m'. pm_similarity_score m' \<le> pm_similarity_score m) found
     \<and> (\<exists>rest. mset all_found = mset found + mset rest
         \<and> list_all (\<lambda>m. list_all (\<lambda>m'. pm_similarity_score m' \<le> pm_similarity_score m) rest) found)
     \<and> list_all (\<lambda>m. 3 / 4 \<le> pm_similarity_score m) all_found"
proof -
  let ?all = "similar_records sim d txt"
  let ?s = "sort_key (\<lambda>m. - pm_similarity_score m) ?all"
  have "sorted_wrt (\<lambda>m m'. pm_similarity_score m' \<le> pm_similarity_score m) ?s"
    using sorted_sort_key [of "\<lambda>m. - pm_similarity_score m" ?all] by (simp add: sorted_map)
  then have sw: "sorted_wrt (\<lambda>m m'. pm_similarity_score m' \<le> pm_similarity_score m) (take k ?s @ drop k ?s)" by simp
  have "mset ?all = mset (take k ?s) + mset (drop k ?s)"
    by (metis append_take_drop_id mset_append mset_sort)
  moreover have "list_all (\<lambda>m. list_all (\<lambda>m'. pm_similarity_score m' \<le> pm_similarity_score m) (drop k ?s)) (take k ?s)"
    using sw unfolding sorted_wrt_append by (simp add: list_all_iff)
  moreover have "list_all (\<lambda>m. 3 / 4 \<le> pm_similarity_score m) ?all"
    by (auto simp: similar_records_def Let_def list_all_iff THRESHOLD_def match_of_def split: option.split)
  ultimately show ?thesis using sw unfolding sorted_wrt_append Let_def find_similar_def by auto
qed

end
