(* ===== verification/Json_Text.thy ===== *)
theory Json_Text
  imports Json
begin

text \<open>
  JSON texts: \<open>json.loads\<close> as the recursive descent of the standard library
  (strict strings, \<open>NaN\<close> and the infinities accepted, no trailing commas, nothing
  after the value) and \<open>json.dumps\<close> of a list of strings with its ASCII escapes.
  A parser returns the value with the unread rest, or \<open>None\<close> for
  \<open>JSONDecodeError\<close>.  The descent counts down a depth that the lemmas show never
  to run out; what is dumped is read back as it was.  An escape of a code point
  above 255 yields the stand-in \<open>REPLACEMENT\<close>; a number with a fraction or an
  exponent is its exact value.
\<close>

section \<open>Strings and numbers\<close>

definition DQ :: char where "DQ = CHR 0x22"
definition BS :: char where "BS = CHR 0x5C"

definition json_ws :: "char \<Rightarrow> bool" where
  "json_ws c \<longleftrightarrow> cp c = 32 \<or> cp c = 9 \<or> cp c = 10 \<or> cp c = 13"

abbreviation skip_ws :: "string \<Rightarrow> string" where
  "skip_ws \<equiv> dropWhile json_ws"

definition simple_escape :: "char \<Rightarrow> char option" where
  "simple_escape e =
     (if e = DQ then Some DQ else if e = BS then Some BS else if e = CHR ''/'' then Some e
      else if e = CHR ''b'' then Some (char_of (8::nat)) else if e = CHR ''f'' then Some (char_of (12::nat))
      else if e = CHR ''n'' then Some (char_of (10::nat)) else if e = CHR ''r'' then Some (char_of (13::nat))
      else if e = CHR ''t'' then Some (char_of (9::nat)) else None)"

definition code_point :: "nat \<Rightarrow> char" where
  "code_point n = (if n < 256 then char_of n else REPLACEMENT)"

fun hex4 :: "string \<Rightarrow> (char \<times> string) option" where
  "hex4 (a # b # c # d # r) =
     (case (hex_digit_value a, hex_digit_value b, hex_digit_value c, hex_digit_value d) of
        (Some a', Some b', Some c', Some d') \<Rightarrow> Some (code_point (((a' * 16 + b') * 16 + c') * 16 + d'), r)
      | _ \<Rightarrow> None)"
| "hex4 _ = None"

lemma hex4_shorter: "hex4 s = Some (c, r) \<Longrightarrow> length r < length s"
  by (induction s rule: hex4.induct) (auto split: option.splits)

definition cons_fst :: "'a \<Rightarrow> ('a list \<times> 'b) option \<Rightarrow> ('a list \<times> 'b) option" where
  "cons_fst x = map_option (\<lambda>(xs, r). (x # xs, r))"

lemma cons_fst_simps [simp]: "cons_fst x None = None" "cons_fst x (Some (xs, r)) = Some (x # xs, r)"
  by (simp_all add: cons_fst_def)

lemma cons_fst_SomeD: "cons_fst x m = Some (ys, r) \<Longrightarrow> \<exists>xs. m = Some (xs, r) \<and> ys = x # xs"
  by (cases m) auto

text \<open>The string after its opening quote.\<close>

function p_string :: "string \<Rightarrow> (string \<times> string) option" where
  "p_string [] = None"
| "p_string (c # cs) =
     (if c = DQ then Some ([], cs)
      else if c = BS then
        (case cs of
           [] \<Rightarrow> None
         | e # es \<Rightarrow>
             if e = CHR ''u''
             then (case hex4 es of None \<Rightarrow> None | Some (x, r) \<Rightarrow> cons_fst x (p_string r))
             else (case simple_escape e of None \<Rightarrow> None | Some x \<Rightarrow> cons_fst x (p_string es)))
      else if cp c < 32 then None
      else cons_fst c (p_string cs))"
  by pat_completeness auto
termination
  by (relation "measure length") (auto dest: hex4_shorter)

definition take_digits :: "string \<Rightarrow> string \<times> string" where
  "take_digits s = (takeWhile is_digit s, dropWhile is_digit s)"

definition p_sign :: "char list \<Rightarrow> string \<Rightarrow> bool \<times> string" where
  "p_sign signs s = (case s of c # cs \<Rightarrow> if List.member signs c then (c = CHR ''-'', cs) else (False, s) | [] \<Rightarrow> (False, s))"

text \<open>\<open>(\.\d+)?\<close> and \<open>([eE][-+]?\d+)?\<close>: the digits, or nothing.\<close>

definition p_frac :: "string \<Rightarrow> string \<times> string" where
  "p_frac s =
     (case s of
        c # cs \<Rightarrow> if c = CHR ''.'' \<and> fst (take_digits cs) \<noteq> [] then take_digits cs else ([], s)
      | [] \<Rightarrow> ([], s))"

definition p_exp :: "string \<Rightarrow> int option \<times> string" where
  "p_exp s =
     (case s of
        c # cs \<Rightarrow>
          (let (neg, t) = p_sign ''+-'' cs; (ds, r) = take_digits t in
           if (c = CHR ''e'' \<or> c = CHR ''E'') \<and> ds \<noteq> []
           then (Some (if neg then - int (read_nat ds) else int (read_nat ds)), r) else (None, s))
      | [] \<Rightarrow> (None, s))"

definition scale10 :: "int \<Rightarrow> rat \<Rightarrow> rat" where
  "scale10 e x = (if 0 \<le> e then x * 10 ^ nat e else x / 10 ^ nat (- e))"

definition p_number :: "string \<Rightarrow> (json \<times> string) option" where
  "p_number s =
     (let (neg, s1) = p_sign ''-'' s; (ds, r) = take_digits s1;
          int_part = (if ds \<noteq> [] \<and> hd ds = CHR ''0'' then [hd ds] else ds);
          s2 = drop (length int_part) s1; (frac, s3) = p_frac s2; (ex, s4) = p_exp s3;
          n = int (read_nat int_part); signed = (if neg then - n else n)
      in if ds = [] then None
         else if frac = [] \<and> ex = None then Some (JInt signed, s4)
         else Some (JFloat ((if neg then - 1 else 1) * scale10 (case ex of None \<Rightarrow> 0 | Some e \<Rightarrow> e)
                (of_int n + of_nat (read_nat frac) / 10 ^ length frac)), s4))"

definition p_literal :: "string \<Rightarrow> (json \<times> string) option" where
  "p_literal s =
     (if startswith s ''null'' then Some (JNull, drop 4 s)
      else if startswith s ''true'' then Some (JBool True, drop 4 s)
      else if startswith s ''false'' then Some (JBool False, drop 5 s)
      else if startswith s ''NaN'' then Some (JConst ''NaN'', drop 3 s)
      else if startswith s ''Infinity'' then Some (JConst ''Infinity'', drop 8 s)
      else if startswith s ''-Infinity'' then Some (JConst ''-Infinity'', drop 9 s)
      else p_number s)"

section \<open>Values\<close>

text \<open>
  \<open>p_items\<close> reads after \<open>[\<close> or a comma up to the closing bracket, \<open>p_members\<close>
  after an opening brace or a comma up to the closing brace.
\<close>

fun p_value :: "nat \<Rightarrow> string \<Rightarrow> (json \<times> string) option"
  and p_items :: "nat \<Rightarrow> string \<Rightarrow> (json list \<times> string) option"
  and p_members :: "nat \<Rightarrow> string \<Rightarrow> ((string \<times> json) list \<times> string) option" where
  "p_value 0 s = None"
| "p_value (Suc n) s =
     (case s of
        [] \<Rightarrow> None
      | c # cs \<Rightarrow>
          if c = DQ then map_option (\<lambda>(x, r). (JStr x, r)) (p_string cs)
          else if c = CHR ''['' then
            (let t = skip_ws cs in
             if t \<noteq> [] \<and> hd t = CHR '']'' then Some (JArr [], tl t)
             else map_option (\<lambda>(xs, r). (JArr xs, r)) (p_items n t))
          else if c = CHR ''{'' then
            (let t = skip_ws cs in
             if t \<noteq> [] \<and> hd t = CHR ''}'' then Some (JObj [], tl t)
             else map_option (\<lambda>(xs, r). (JObj xs, r)) (p_members n t))
          else p_literal s)"
| "p_items 0 s = None"
| "p_items (Suc n) s =
     (case p_value n s of
        None \<Rightarrow> None
      | Some (v, r) \<Rightarrow>
          (case skip_ws r of
             [] \<Rightarrow> None
           | c # cs \<Rightarrow>
               if c = CHR '']'' then Some ([v], cs)
               else if c = CHR '','' then cons_fst v (p_items n (skip_ws cs))
               else None))"
| "p_members 0 s = None"
| "p_members (Suc n) s =
     (case s of
        [] \<Rightarrow> None
      | q # qs \<Rightarrow>
          if q \<noteq> DQ then None
          else (case p_string qs of
              None \<Rightarrow> None
            | Some (k, r) \<Rightarrow>
                (case skip_ws r of
                   [] \<Rightarrow> None
                 | c # cs \<Rightarrow>
                     if c \<noteq> CHR '':'' then None
                     else (case p_value n (skip_ws cs) of
                         None \<Rightarrow> None
                       | Some (v, r') \<Rightarrow>
                           (case skip_ws r' of
                              [] \<Rightarrow> None
                            | c' # cs' \<Rightarrow>
                                if c' = CHR ''}'' then Some ([(k, v)], cs')
                                else if c' = CHR '','' then cons_fst (k, v) (p_members n (skip_ws cs'))
                                else None)))))"

definition json_depth :: "string \<Rightarrow> nat" where
  "json_depth s = 2 * length s + 1"

definition json_loads :: "string \<Rightarrow> json option" where
  "json_loads s =
     (let t = skip_ws s in
      case p_value (json_depth t) t of
        Some (v, r) \<Rightarrow> if skip_ws r = [] then Some v else None
      | None \<Rightarrow> None)"

section \<open>Dumping a list of strings\<close>

definition escape_char :: "char \<Rightarrow> string" where
  "escape_char c =
     (let n = cp c in
      if c = DQ \<or> c = BS then [BS, c]
      else if n = 10 then [BS, CHR ''n''] else if n = 13 then [BS, CHR ''r''] else if n = 9 then [BS, CHR ''t'']
      else if n = 12 then [BS, CHR ''f''] else if n = 8 then [BS, CHR ''b'']
      else if 32 \<le> n \<and> n \<le> 126 then [c]
      else [BS, CHR ''u'', CHR ''0'', CHR ''0'', hex_digit (n div 16), hex_digit (n mod 16)])"

definition dumps_string :: "string \<Rightarrow> string" where
  "dumps_string s = DQ # concat (map escape_char s) @ [DQ]"

definition dumps_strings :: "string list \<Rightarrow> string" where
  "dumps_strings xs = ''['' @ py_join '', '' (map dumps_string xs) @ '']''"

section \<open>The depth never runs out\<close>

lemma skip_ws_length: "length (skip_ws s) \<le> length s"
  by (rule length_dropWhile_le)

lemma skip_ws_Cons: "skip_ws s = c # cs \<Longrightarrow> length cs < length s"
  using skip_ws_length [of s] by simp

lemma p_string_shorter: "p_string s = Some (x, r) \<Longrightarrow> length r < length s"
proof (induction s arbitrary: x rule: p_string.induct)
  case (2 c cs)
  show ?case
  proof (cases "c = DQ \<or> c \<noteq> BS")
    case True
    then show ?thesis using 2 by (fastforce split: if_splits dest!: cons_fst_SomeD)
  next
    case False
    then have c: "c = BS" "c \<noteq> DQ" by auto
    then obtain e es where es: "cs = e # es" using 2(4) by (cases cs) (auto simp: DQ_def BS_def)
    show ?thesis
    proof (cases "e = CHR ''u''")
      case True
      then obtain y q xs where "hex4 es = Some (y, q)" "p_string q = Some (xs, r)"
        using 2(4) c es by (auto split: option.splits dest!: cons_fst_SomeD)
      then show ?thesis using 2(1) [OF c(2) c(1) es True] hex4_shorter [of es] es by fastforce
    next
      case f: False
      then obtain y xs where "simple_escape e = Some y" "p_string es = Some (xs, r)"
        using 2(4) c es by (auto split: option.splits dest!: cons_fst_SomeD)
      then show ?thesis using 2(2) [OF c(2) c(1) es f] es by fastforce
    qed
  qed
qed simp

lemma p_frac_length: "length (snd (p_frac s)) \<le> length s"
  using length_dropWhile_le [of is_digit "tl s"] by (cases s) (auto simp: p_frac_def take_digits_def)

lemma p_sign_length: "length (snd (p_sign signs s)) \<le> length s"
  by (cases s) (simp_all add: p_sign_def)

lemma p_exp_length: "length (snd (p_exp s)) \<le> length s"
proof (cases s)
  case (Cons x xs)
  have "length (dropWhile is_digit (snd (p_sign ''+-'' xs))) \<le> length xs"
    using length_dropWhile_le p_sign_length le_trans by blast
  then show ?thesis using Cons by (auto simp: p_exp_def take_digits_def case_prod_unfold Let_def)
qed (simp add: p_exp_def)

lemma p_number_shorter:
  assumes "p_number s = Some (v, r)"
  shows "length r < length s"
proof -
  obtain neg s1 where a: "p_sign ''-'' s = (neg, s1)" by fastforce
  obtain ds q where b: "take_digits s1 = (ds, q)" by fastforce
  define i where "i = (if ds \<noteq> [] \<and> hd ds = CHR ''0'' then [hd ds] else ds)"
  obtain fr s3 where c: "p_frac (drop (length i) s1) = (fr, s3)" by fastforce
  obtain ex s4 where d: "p_exp s3 = (ex, s4)" by fastforce
  have ne: "ds \<noteq> []" and r: "r = s4"
    using assms unfolding p_number_def a Let_def prod.case b i_def [symmetric] c d by (auto split: if_splits)
  have "s1 \<noteq> []" using b ne by (auto simp: take_digits_def)
  moreover have "i \<noteq> []" using ne by (simp add: i_def)
  ultimately have "length (drop (length i) s1) < length s1" by simp
  then show ?thesis
    using r p_sign_length [of "''-''" s] p_frac_length [of "drop (length i) s1"] p_exp_length [of s3] a c d by simp
qed

lemma startswith_length: "startswith s p \<Longrightarrow> length p \<le> length s"
  by (simp add: startswith_iff_prefix prefix_length_le)

lemma p_literal_shorter: "p_literal s = Some (v, r) \<Longrightarrow> length r < length s"
  unfolding p_literal_def by (auto dest!: p_number_shorter startswith_length split: if_splits)

lemma parser_shorter:
  "p_value n s = Some (v, r) \<Longrightarrow> length r < length s"
  "p_items n s = Some (vs, r) \<Longrightarrow> length r < length s"
  "p_members n s = Some (ms, r) \<Longrightarrow> length r < length s"
proof (induction n s and n s and n s arbitrary: v r and vs r and ms r rule: p_value_p_items_p_members.induct)
  case (2 n s)
  show ?case
  proof (cases s)
    case Nil
    then show ?thesis using 2(3) by simp
  next
    case (Cons c cs)
    consider "c = DQ" | "c = CHR ''[''" | "c = CHR ''{''" | "c \<noteq> DQ" "c \<noteq> CHR ''[''" "c \<noteq> CHR ''{''" by blast
    then show ?thesis
    proof cases
      case 1
      then show ?thesis using 2(3) Cons p_string_shorter by fastforce
    next
      case b: 2
      then have "c \<noteq> DQ" by (simp add: DQ_def)
      then show ?thesis using 2 Cons b skip_ws_length [of cs]
        by (fastforce simp: Let_def split: if_splits)
    next
      case b: 3
      then have "c \<noteq> DQ" "c \<noteq> CHR ''[''" by (simp_all add: DQ_def)
      then show ?thesis using 2 Cons b skip_ws_length [of cs]
        by (fastforce simp: Let_def split: if_splits)
    next
      case 4
      then show ?thesis using 2(3) Cons p_literal_shorter [of s] by simp
    qed
  qed
next
  case (4 n s)
  obtain w q where w: "p_value n s = Some (w, q)" using 4(3) by (auto split: option.splits)
  obtain c cs where c: "skip_ws q = c # cs" using 4(3) w by (auto split: list.splits)
  have len: "length cs < length s" using 4(1) [OF w] skip_ws_Cons [OF c] by linarith
  show ?case
  proof (cases "c = CHR '']''")
    case True
    then show ?thesis using 4(3) w c len by simp
  next
    case False
    then obtain xs where "c = CHR '',''" "p_items n (skip_ws cs) = Some (xs, r)"
      using 4(3) w c by (auto split: if_splits dest!: cons_fst_SomeD)
    then show ?thesis using 4(2) [OF w refl c False] len skip_ws_length [of cs] by fastforce
  qed
next
  case (6 n s)
  obtain qs k q1 where s: "s = DQ # qs" and k: "p_string qs = Some (k, q1)"
    using 6(3) by (auto split: list.splits option.splits if_splits)
  obtain cs where c: "skip_ws q1 = CHR '':'' # cs" using 6(3) s k by (auto split: list.splits if_splits)
  obtain w q2 where w: "p_value n (skip_ws cs) = Some (w, q2)" using 6(3) s k c by (auto split: option.splits)
  obtain c' cs' where c': "skip_ws q2 = c' # cs'" using 6(3) s k c w by (auto split: list.splits)
  have len: "length cs' < length s"
    using p_string_shorter [OF k] skip_ws_Cons [OF c] 6(1) [OF s _ k refl c _ w] skip_ws_length [of cs] skip_ws_Cons [OF c'] s
    by simp
  show ?case
  proof (cases "c' = CHR ''}''")
    case True
    then show ?thesis using 6(3) s k c w c' len by simp
  next
    case False
    then obtain xs where "c' = CHR '',''" "p_members n (skip_ws cs') = Some (xs, r)"
      using 6(3) s k c w c' by (auto split: if_splits dest!: cons_fst_SomeD)
    then show ?thesis using 6(2) [OF s _ k refl c _ w refl c' False] len skip_ws_length [of cs'] by fastforce
  qed
qed simp_all

lemma skip_ws_bound: "length cs < k \<Longrightarrow> length (skip_ws cs) < k"
  using skip_ws_length [of cs] by linarith

lemma parser_depth:
  "2 * length s + 1 \<le> n \<Longrightarrow> 2 * length s + 1 \<le> m \<Longrightarrow> p_value m s = p_value n s"
  "2 * length s + 2 \<le> n \<Longrightarrow> 2 * length s + 2 \<le> m \<Longrightarrow> p_items m s = p_items n s"
  "2 * length s + 1 \<le> n \<Longrightarrow> 2 * length s + 1 \<le> m \<Longrightarrow> p_members m s = p_members n s"
proof (induction n s and n s and n s arbitrary: m and m and m rule: p_value_p_items_p_members.induct)
  case (2 n s)
  obtain m' where m: "m = Suc m'" using 2(4) by (cases m) simp_all
  show ?case
  proof (cases s)
    case (Cons c cs)
    have b: "2 * length (skip_ws cs) + 2 \<le> n" "2 * length (skip_ws cs) + 2 \<le> m'"
      using skip_ws_length [of cs] 2(3,4) m Cons by simp_all
    consider "c = DQ" | "c = CHR ''[''" | "c = CHR ''{''" | "c \<noteq> DQ" "c \<noteq> CHR ''[''" "c \<noteq> CHR ''{''" by blast
    then show ?thesis
    proof cases
      case 1
      then show ?thesis using m Cons by simp
    next
      case c: 2
      then have dq: "c \<noteq> DQ" by (simp add: DQ_def)
      show ?thesis
      proof (cases "skip_ws cs \<noteq> [] \<and> hd (skip_ws cs) = CHR '']''")
        case True
        then show ?thesis using m Cons c dq by (simp add: Let_def)
      next
        case False
        have "p_items m' (skip_ws cs) = p_items n (skip_ws cs)" using 2(1) [OF Cons dq c refl False b] .
        then show ?thesis using m Cons c dq False by (simp only: p_value.simps list.case if_False if_True Let_def simp_thms)
      qed
    next
      case c: 3
      then have dq: "c \<noteq> DQ" "c \<noteq> CHR ''[''" by (simp_all add: DQ_def)
      show ?thesis
      proof (cases "skip_ws cs \<noteq> [] \<and> hd (skip_ws cs) = CHR ''}''")
        case True
        then show ?thesis using m Cons c dq by (simp add: Let_def)
      next
        case False
        have b': "2 * length (skip_ws cs) + 1 \<le> n" "2 * length (skip_ws cs) + 1 \<le> m'" using b by linarith+
        have "p_members m' (skip_ws cs) = p_members n (skip_ws cs)" using 2(2) [OF Cons dq c refl False b'] .
        then show ?thesis using m Cons c dq False by (simp only: p_value.simps list.case if_False if_True Let_def simp_thms)
      qed
    next
      case 4
      then show ?thesis using m Cons by simp
    qed
  qed (simp add: m)
next
  case (4 n s)
  obtain m' where m: "m = Suc m'" using 4(4) by (cases m) simp_all
  have v: "p_value m' s = p_value n s" using 4(1) [of m'] 4(3,4) m by simp
  show ?case
  proof (cases "p_value n s")
    case (Some y)
    obtain w q where w: "p_value n s = Some (w, q)" using Some by (cases y) simp
    show ?thesis
    proof (cases "skip_ws q")
      case (Cons c cs)
      have len: "length cs + 1 < length s" using skip_ws_Cons [OF Cons] parser_shorter(1) [OF w] by simp
      then have b: "2 * length (skip_ws cs) + 2 \<le> n" "2 * length (skip_ws cs) + 2 \<le> m'"
        using skip_ws_length [of cs] 4(3,4) m by simp_all
      have "c \<noteq> CHR '']'' \<Longrightarrow> c = CHR '','' \<Longrightarrow> p_items m' (skip_ws cs) = p_items n (skip_ws cs)"
        using 4(2) [OF w refl Cons _ _ b] .
      then show ?thesis using v w Cons m by simp
    next
      case Nil
      then show ?thesis by (simp only: p_items.simps m v w option.case prod.case list.case)
    qed
  qed (use v m in simp)
next
  case (6 n s)
  obtain m' where m: "m = Suc m'" using 6(4) by (cases m) simp_all
  show ?case
  proof (cases "\<exists>qs k q1 cs. s = DQ # qs \<and> p_string qs = Some (k, q1) \<and> skip_ws q1 = CHR '':'' # cs")
    case False
    then show ?thesis using m by (auto split: list.splits option.splits)
  next
    case True
    then obtain qs k q1 cs where s: "s = DQ # qs" and k: "p_string qs = Some (k, q1)" and c: "skip_ws q1 = CHR '':'' # cs"
      by blast
    have len: "length cs + 2 < length s" using p_string_shorter [OF k] skip_ws_Cons [OF c] s by simp
    then have b1: "2 * length (skip_ws cs) + 1 \<le> n" "2 * length (skip_ws cs) + 1 \<le> m'"
      using skip_ws_length [of cs] 6(3,4) m by simp_all
    have nn: "\<not> DQ \<noteq> DQ" "\<not> CHR '':'' \<noteq> CHR '':''" by simp_all
    note v = 6(1) [OF s nn(1) k refl c nn(2) b1]
    show ?thesis
    proof (cases "p_value n (skip_ws cs)")
      case (Some y)
      obtain w q2 where w: "p_value n (skip_ws cs) = Some (w, q2)" using Some by (cases y) simp
      show ?thesis
      proof (cases "skip_ws q2")
        case (Cons c' cs')
        have "length cs' + 2 < length s"
          using skip_ws_Cons [OF Cons] parser_shorter(1) [OF w] skip_ws_length [of cs] len by simp
        then have b: "2 * length (skip_ws cs') + 1 \<le> n" "2 * length (skip_ws cs') + 1 \<le> m'"
          using skip_ws_length [of cs'] 6(3,4) m by simp_all
        have "c' \<noteq> CHR ''}'' \<Longrightarrow> c' = CHR '','' \<Longrightarrow> p_members m' (skip_ws cs') = p_members n (skip_ws cs')"
          using 6(2) [OF s nn(1) k refl c nn(2) w refl Cons _ _ b] .
        then show ?thesis using s k c v w Cons m by simp
      next
        case Nil
        then show ?thesis by (simp only: p_members.simps m s k c v w option.case prod.case list.case)
      qed
    qed (use s k c v m in simp)
  qed
qed simp_all

section \<open>Reading back what was dumped\<close>

lemma p_string_escape: "p_string (escape_char c @ r) = cons_fst c (p_string r)"
proof -
  have "cp c div 16 < 16" "cp c mod 16 < 16" using cp_bound [of c] by simp_all
  then have h: "hex4 (CHR ''0'' # CHR ''0'' # hex_digit (cp c div 16) # hex_digit (cp c mod 16) # r) = Some (c, r)"
  proof -
    have z: "hex_digit_value (CHR ''0'') = Some 0" by (simp add: hex_digit_value_def cp_def)
    have "code_point (cp c) = c" using cp_bound [of c] by (simp add: code_point_def cp_def)
    then show ?thesis using \<open>cp c div 16 < 16\<close> \<open>cp c mod 16 < 16\<close>
      by (simp add: z hex_digit_round mult.commute)
  qed
  have plain: "c \<noteq> DQ \<Longrightarrow> c \<noteq> BS \<Longrightarrow> 32 \<le> cp c \<Longrightarrow> p_string (c # r) = cons_fst c (p_string r)" by simp
  have esc: "simple_escape e = Some c \<Longrightarrow> e \<noteq> CHR ''u'' \<Longrightarrow> p_string (BS # e # r) = cons_fst c (p_string r)" for e
    by (simp add: BS_def DQ_def)
  have hexed: "p_string (BS # CHR ''u'' # CHR ''0'' # CHR ''0'' # hex_digit (cp c div 16) # hex_digit (cp c mod 16) # r)
      = cons_fst c (p_string r)"
    using h by (simp add: BS_def DQ_def)
  have named: "cp c = n \<Longrightarrow> n < 256 \<Longrightarrow> c = char_of n" for n by (auto simp: cp_def)
  consider "c = DQ \<or> c = BS" | "cp c \<in> {8, 9, 10, 12, 13}" "c \<noteq> DQ" "c \<noteq> BS"
    | "32 \<le> cp c" "cp c \<le> 126" "c \<noteq> DQ" "c \<noteq> BS"
    | "c \<noteq> DQ" "c \<noteq> BS" "cp c \<notin> {8, 9, 10, 12, 13}" "\<not> (32 \<le> cp c \<and> cp c \<le> 126)" by blast
  then show ?thesis
  proof cases
    case 1
    then have "simple_escape c = Some c" "c \<noteq> CHR ''u''" by (auto simp: simple_escape_def DQ_def BS_def)
    then show ?thesis using 1 esc [of c] by (auto simp: escape_char_def Let_def)
  next
    case 2
    then consider "cp c = 8" | "cp c = 9" | "cp c = 10" | "cp c = 12" | "cp c = 13" by blast
    then show ?thesis
    proof cases
      case 1
      from named [OF this] show ?thesis using esc [of "CHR ''b''"] by (simp add: escape_char_def simple_escape_def DQ_def BS_def cp_def)
    next
      case 2
      from named [OF this] show ?thesis using esc [of "CHR ''t''"] by (simp add: escape_char_def simple_escape_def DQ_def BS_def cp_def)
    next
      case 3
      from named [OF this] show ?thesis using esc [of "CHR ''n''"] by (simp add: escape_char_def simple_escape_def DQ_def BS_def cp_def)
    next
      case 4
      from named [OF this] show ?thesis using esc [of "CHR ''f''"] by (simp add: escape_char_def simple_escape_def DQ_def BS_def cp_def)
    next
      case 5
      from named [OF this] show ?thesis using esc [of "CHR ''r''"] by (simp add: escape_char_def simple_escape_def DQ_def BS_def cp_def)
    qed
  next
    case 3
    then show ?thesis using plain by (simp add: escape_char_def Let_def)
  next
    case 4
    then have "escape_char c = [BS, CHR ''u'', CHR ''0'', CHR ''0'', hex_digit (cp c div 16), hex_digit (cp c mod 16)]"
      by (simp add: escape_char_def Let_def)
    then show ?thesis using hexed by simp
  qed
qed

lemma p_string_dumped: "p_string (concat (map escape_char s) @ DQ # r) = Some (s, r)"
proof (induction s)
  case (Cons c s)
  then show ?case by (simp only: list.map concat.simps append_assoc p_string_escape cons_fst_simps)
qed simp

lemma p_value_dumped: "p_value (Suc n) (dumps_string s @ r) = Some (JStr s, r)"
  by (simp add: dumps_string_def p_string_dumped)

lemma p_value_array:
  assumes "skip_ws cs \<noteq> []" "hd (skip_ws cs) \<noteq> CHR '']''"
  shows "p_value (Suc n) (CHR ''['' # cs) = map_option (\<lambda>(xs, r). (JArr xs, r)) (p_items n (skip_ws cs))"
proof -
  have "CHR ''['' \<noteq> DQ" by (simp add: DQ_def)
  then show ?thesis using assms by (simp only: p_value.simps list.case if_False if_True Let_def simp_thms)
qed

lemma ws_char: "json_ws CHR '' ''" "\<not> json_ws CHR '',''" "\<not> json_ws CHR '']''" "\<not> json_ws DQ" "\<not> json_ws CHR ''[''"
  by (simp_all add: json_ws_def cp_def DQ_def)

lemma skip_ws_dumped: "skip_ws (dumps_string s @ r) = dumps_string s @ r"
  by (simp add: dumps_string_def ws_char)

lemma p_items_dumped:
  "xs \<noteq> [] \<Longrightarrow> length xs < n \<Longrightarrow>
   p_items n (py_join '', '' (map dumps_string xs) @ '']'' @ r) = Some (map JStr xs, r)"
proof (induction xs arbitrary: n)
  case (Cons x xs)
  then obtain m where n: "n = Suc (Suc m)" by (metis Suc_lessE length_Cons less_imp_Suc_add Suc_less_eq2)
  show ?case
  proof (cases xs)
    case Nil
    then show ?thesis by (simp add: n p_value_dumped ws_char del: p_value.simps)
  next
    case c: (Cons y ys)
    have "p_items (Suc m) (py_join '', '' (map dumps_string xs) @ '']'' @ r) = Some (map JStr xs, r)"
      by (rule Cons.IH) (use Cons.prems c n in simp_all)
    moreover have "skip_ws (py_join '', '' (map dumps_string xs) @ q) = py_join '', '' (map dumps_string xs) @ q" for q
      using c skip_ws_dumped by (cases ys) simp_all
    ultimately show ?thesis using c by (simp add: n p_value_dumped ws_char del: p_value.simps)
  qed
qed simp

lemma dumps_string_length: "2 \<le> length (dumps_string s)"
  by (simp add: dumps_string_def)

lemma join_length: "length ws \<le> length (py_join sep ws) + 1" if "\<forall>w \<in> set ws. w \<noteq> []" for ws
  using that
proof (induction sep ws rule: py_join.induct)
  case (2 sep w)
  then show ?case by (cases w) auto
next
  case (3 sep w v ws)
  then show ?case by (cases w) auto
qed simp

lemma loads_dumps_strings: "json_loads (dumps_strings xs) = Some (JArr (map JStr xs))"
proof (cases "xs = []")
  case True
  then show ?thesis by (simp add: json_loads_def dumps_strings_def json_depth_def ws_char DQ_def Let_def)
next
  case False
  let ?body = "py_join '', '' (map dumps_string xs) @ '']''"
  have ne: "\<forall>w \<in> set (map dumps_string xs). w \<noteq> []" by (auto simp: dumps_string_def)
  have len: "length xs < json_depth (dumps_strings xs) - 1"
    using join_length [OF ne, of "'', ''"] by (simp add: json_depth_def dumps_strings_def)
  obtain y ys where xs: "xs = y # ys" using False by (cases xs) auto
  have sk: "skip_ws ?body = ?body" "?body \<noteq> []" "hd ?body = DQ"
    using skip_ws_dumped by (cases ys; simp add: xs dumps_string_def ws_char)+
  obtain n where n: "json_depth (dumps_strings xs) = Suc n" by (simp add: json_depth_def)
  have ln: "length xs < n" using len n by simp
  have "hd ?body \<noteq> CHR '']''" unfolding sk(3) by (simp add: DQ_def)
  then have "p_value (Suc n) (CHR ''['' # ?body) = Some (JArr (map JStr xs), [])"
    using p_value_array [of ?body n] p_items_dumped [OF False ln, of "[]"] sk(1,2) by (simp only: append_Nil2 option.map prod.case simp_thms)
  then have "p_value (Suc n) (dumps_strings xs) = Some (JArr (map JStr xs), [])" by (simp only: dumps_strings_def append_Cons append_Nil)
  moreover have "skip_ws (dumps_strings xs) = dumps_strings xs" by (simp add: dumps_strings_def ws_char)
  ultimately show ?thesis by (simp add: json_loads_def n Let_def del: p_value.simps)
qed

end
