(* ===== verification/Root_Cause.thy ===== *)
theory Root_Cause
  imports Classifier Pattern_Store Json_Text Config
begin

text \<open>
  \<open>app/services/root_cause.py\<close>: the analysis of a failure by one of two language
  models, with the repair of the JSON they write, and the template it falls back
  to.  The answers of the two services are parameters: a function from the user
  message to the HTTP response, or to the texts of the text blocks.  A code point
  above 255 of a literal (rules, dashes) is the stand-in \<open>REPLACEMENT\<close>.
\<close>

section \<open>Templates\<close>

definition severity_of :: "string \<Rightarrow> string" where
  "severity_of category =
     (case map_of [(''infrastructure'', ''P1''), (''env_issue'', ''P1''), (''flaky_test'', ''P2''),
        (''dependency_error'', ''P2''), (''build_config'', ''P2''), (''unknown'', ''P3'')] category of
        Some s \<Rightarrow> s | None \<Rightarrow> ''P2'')"

definition UNKNOWN_SUMMARY :: string where
  "UNKNOWN_SUMMARY = ''Build failed for an unclassified reason '' @ REPLACEMENT # '' manual log review required.''"

definition SUMMARY_TEMPLATES :: "(string \<times> string) list" where
  "SUMMARY_TEMPLATES =
     [(''flaky_test'', ''Build failed due to a suspected flaky or order-dependent test.''),
      (''env_issue'', ''Build failed because a required environment variable or secret is missing.''),
      (''dependency_error'', ''Build failed while resolving a package dependency.''),
      (''build_config'', ''Build failed due to a Jenkinsfile or pipeline configuration error.''),
      (''infrastructure'', ''Build failed due to an infrastructure issue (OOM, agent offline, or disk full).''),
      (''unknown'', UNKNOWN_SUMMARY)]"

definition UNKNOWN_FIXES :: "string list" where
  "UNKNOWN_FIXES = [''Review the full build log at the link provided.'',
     ''Add the failure pattern to the classifier rule YAML.'',
     ''Escalate to the owning team for manual triage.'']"

definition FIX_TEMPLATES :: "(string \<times> string list) list" where
  "FIX_TEMPLATES =
     [(''flaky_test'', [''Re-run the build to confirm flakiness.'', ''Isolate and quarantine the failing test.'',
         ''Check for shared state or test-ordering dependencies.'']),
      (''env_issue'', [''Verify all required environment variables are set in Jenkins credentials.'',
         ''Check the job'' @ CHR 0x27 # ''s Bindings / Secret injection configuration.'',
         ''Confirm IAM / vault policies grant access to the required secrets.'']),
      (''dependency_error'', [''Check network connectivity to the package registry.'',
         ''Verify the dependency version exists and has not been yanked.'',
         ''Clear the dependency cache on the build agent.'']),
      (''build_config'', [''Validate the Jenkinsfile syntax with '' @ CHR 0x60 # ''jenkins-linter'' @ CHR 0x60 # ''.'',
         ''Check for recently merged pipeline changes.'', ''Review the Jenkins plugin versions for compatibility.'']),
      (''infrastructure'', [''Check agent disk space and memory usage.'', ''Restart the affected build agent.'',
         ''Escalate to platform engineering if the agent remains offline.'']),
      (''unknown'', UNKNOWN_FIXES)]"

definition fallback_summary :: "failure_tag \<Rightarrow> string" where
  "fallback_summary t = (case map_of SUMMARY_TEMPLATES (ft_category t) of Some s \<Rightarrow> s | None \<Rightarrow> UNKNOWN_SUMMARY)"

definition fallback_fixes :: "failure_tag \<Rightarrow> pattern_match list \<Rightarrow> string list" where
  "fallback_fixes t patterns =
     (let fixes = (case map_of FIX_TEMPLATES (ft_category t) of Some fs \<Rightarrow> fs | None \<Rightarrow> UNKNOWN_FIXES)
      in take 3 (case patterns of
           m # _ \<Rightarrow> (case pm_resolution_text m of Some res \<Rightarrow> if res \<noteq> [] then res # fixes else fixes | None \<Rightarrow> fixes)
         | [] \<Rightarrow> fixes))"

section \<open>Reading what a model wrote\<close>

definition FENCE :: string where "FENCE = replicate 3 (CHR 0x60)"
definition FENCE_OPEN :: re where "FENCE_OPEN = seqs [Bol, lit FENCE, Opt (lit_i ''json''), Many spc]"
definition FENCE_CLOSE :: re where "FENCE_CLOSE = seqs [Many spc, lit FENCE, Eol]"

definition strip_fences :: "string \<Rightarrow> string" where
  "strip_fences raw = py_strip (re_sub FENCE_CLOSE [] (py_strip (re_sub FENCE_OPEN [] (py_strip raw))))"

definition none_of :: "string \<Rightarrow> char \<Rightarrow> bool" where
  "none_of cs c \<longleftrightarrow> \<not> List.member cs c"

definition SUMMARY_UNQUOTED :: re where
  "SUMMARY_UNQUOTED = seqs [lit [DQ], Grp 1 (lit ''summary''), lit [DQ], Many spc, lit '':'', Many spc,
     Grp 2 (Cat (Cls (none_of [DQ, CHR ''['', CHR ''{'', LF])) (Many (Cls (none_of [LF, CHR '','', CHR ''}'']))))]"

definition SUMMARY_ANY :: re where
  "SUMMARY_ANY = seqs [lit (DQ # ''summary'' @ [DQ]), Many spc, lit '':'', Many spc, Opt (lit [DQ]),
     Grp 1 (Some1 (Cls (none_of [DQ, LF, CHR '','', CHR ''}'', CHR ''{'']))), Opt (lit [DQ])]"

definition LONG_STRING :: re where
  "LONG_STRING = seqs [lit [DQ], Grp 1 (Cat (exactly 10 (Cls (none_of [DQ]))) (Many (Cls (none_of [DQ])))), lit [DQ]]"

definition quote_summary :: "(int \<times> string) list \<Rightarrow> string" where
  "quote_summary g = DQ # the (group 1 g) @ DQ # '': '' @ DQ # py_strip (the (group 2 g)) @ [DQ]"

definition safe_json_loads :: "string \<Rightarrow> json option" where
  "safe_json_loads raw =
     (case json_loads raw of
        Some j \<Rightarrow> Some j
      | None \<Rightarrow>
     (case json_loads (re_sub_fun SUMMARY_UNQUOTED quote_summary raw) of
        Some j \<Rightarrow> Some j
      | None \<Rightarrow>
     (case re_search SUMMARY_ANY raw of
        None \<Rightarrow> None
      | Some g \<Rightarrow>
          let fixes = map (\<lambda>g. the (group 1 g)) (finditer LONG_STRING raw) in
          Some (JObj [(''summary'', JStr (py_strip (the (group 1 g)))),
            (''fix_suggestions'', JArr (map JStr (take 3 (drop 1 fixes))))]))))"

text \<open>
  The two fields of a parsed answer: a summary that is not empty, or the
  template; of the suggestions the first three strings.  A value of the wrong
  shape raises, which the callers turn into no answer.
\<close>

definition read_answer :: "failure_tag \<Rightarrow> json \<Rightarrow> (json \<times> string list) res" where
  "read_answer t parsed =
     rbind (jget0 parsed ''summary'') (\<lambda>s.
     rbind (jget parsed ''fix_suggestions'' (JArr [])) (\<lambda>f.
     rbind (json_items f) (\<lambda>items.
       Inr (j_or s (JStr (fallback_summary t)), take 3 (List.map_filter str_opt items)))))"

fun ok_or_none :: "'a res \<Rightarrow> 'a option" where
  "ok_or_none (Inl e) = None"
| "ok_or_none (Inr x) = Some x"

text \<open>\<open>data["choices"][0]["message"]["content"]\<close>.\<close>

definition jkey :: "string \<Rightarrow> json \<Rightarrow> json option" where
  "jkey k j = (case j of JObj kvs \<Rightarrow> map_of (rev kvs) k | _ \<Rightarrow> None)"

definition jfirst :: "json \<Rightarrow> json option" where
  "jfirst j = (case j of JArr (x # _) \<Rightarrow> Some x | _ \<Rightarrow> None)"

definition chat_content :: "json \<Rightarrow> string option" where
  "chat_content data = Option.bind (jkey ''choices'' data) (\<lambda>c. Option.bind (jfirst c) (\<lambda>m.
     Option.bind (jkey ''message'' m) (\<lambda>b. Option.bind (jkey ''content'' b) str_opt)))"

definition call_groq :: "http_result \<Rightarrow> failure_tag \<Rightarrow> (json \<times> string list) option" where
  "call_groq answer t =
     (case answer of
        Inl _ \<Rightarrow> None
      | Inr r \<Rightarrow>
          if \<not> is_success r then None
          else (case Option.bind (response_json r) chat_content of
              None \<Rightarrow> None
            | Some content \<Rightarrow>
                let raw = strip_fences content in
                if raw = [] then None
                else (case safe_json_loads raw of
                    None \<Rightarrow> None
                  | Some parsed \<Rightarrow> if parsed = JNull then None else ok_or_none (read_answer t parsed))))"

definition call_anthropic :: "string + string list \<Rightarrow> failure_tag \<Rightarrow> (json \<times> string list) option" where
  "call_anthropic answer t =
     (case answer of
        Inl _ \<Rightarrow> None
      | Inr texts \<Rightarrow>
          let raw = strip_fences (case texts of x # _ \<Rightarrow> x | [] \<Rightarrow> []) in
          if raw = [] then None
          else (case json_loads raw of None \<Rightarrow> None | Some parsed \<Rightarrow> ok_or_none (read_answer t parsed)))"

section \<open>The analysis\<close>

record analysis =
  an_summary_text :: json
  an_fix_suggestions :: "string list"
  an_severity :: string
  an_log_url :: string

record llm_services =
  llm_groq :: "string \<Rightarrow> http_result"
  llm_anthropic :: "string \<Rightarrow> string + string list"

definition RULE_LINE :: string where "RULE_LINE = replicate 60 REPLACEMENT"

definition pattern_context :: "pattern_match list \<Rightarrow> string" where
  "pattern_context patterns =
     (if patterns = [] then []
      else [LF, LF] @ ''Previously resolved similar failures:'' @ LF #
        py_join [LF] (map (\<lambda>res. ''- '' @ res)
          (filter (\<lambda>res. res \<noteq> []) (List.map_filter pm_resolution_text (take 2 patterns)))))"

definition user_message :: "string \<Rightarrow> int \<Rightarrow> failure_tag \<Rightarrow> pattern_match list \<Rightarrow> string \<Rightarrow> string" where
  "user_message job n t patterns excerpt =
     ''FULL BUILD LOG:'' @ LF # RULE_LINE @ LF # excerpt @ LF # RULE_LINE @ [LF, LF]
     @ ''Job: '' @ job @ '' | Build: #'' @ str_int n @ '' | Classifier hint: '' @ ft_category t
     @ '' (matched: '' @ ft_matched_rule t @ '')'' @ pattern_context patterns"

definition primary_tag :: "failure_tag list \<Rightarrow> failure_tag" where
  "primary_tag tags = (case tags of t # _ \<Rightarrow> t | [] \<Rightarrow> CATCH_ALL)"

definition analyse ::
    "settings \<Rightarrow> llm_services \<Rightarrow> string \<Rightarrow> int \<Rightarrow> failure_tag list \<Rightarrow> pattern_match list \<Rightarrow> string \<Rightarrow> string \<Rightarrow> analysis" where
  "analyse st llm job n tags patterns excerpt log_url =
     (let t = primary_tag tags; msg = user_message job n t patterns excerpt;
          groq = (if GROQ_API_KEY st \<noteq> [] then call_groq (llm_groq llm msg) t else None);
          answer = (case groq of Some a \<Rightarrow> Some a
            | None \<Rightarrow> if truthy (ANTHROPIC_API_KEY st) then call_anthropic (llm_anthropic llm msg) t else None);
          (summary, fixes) = (case answer of Some a \<Rightarrow> a
            | None \<Rightarrow> (JStr (fallback_summary t), fallback_fixes t patterns))
      in \<lparr>an_summary_text = summary, an_fix_suggestions = fixes, an_severity = severity_of (ft_category t),
          an_log_url = log_url\<rparr>)"

section \<open>Lemmas\<close>

lemma read_answer_shape: "read_answer t j = Inr (s, fs) \<Longrightarrow> length fs \<le> 3 \<and> jtruthy s"
proof -
  have "fallback_summary t \<noteq> []"
    by (auto simp: fallback_summary_def SUMMARY_TEMPLATES_def UNKNOWN_SUMMARY_def split: option.split if_splits dest!: map_of_SomeD)
  then show "read_answer t j = Inr (s, fs) \<Longrightarrow> length fs \<le> 3 \<and> jtruthy s"
    by (auto simp: read_answer_def j_or_def)
qed

lemma ok_or_none_Some: "ok_or_none r = Some x \<longleftrightarrow> r = Inr x"
  by (cases r) auto

lemma provider_shape:
  "call_groq a t = Some (s, fs) \<Longrightarrow> length fs \<le> 3 \<and> jtruthy s"
  "call_anthropic b t = Some (s, fs) \<Longrightarrow> length fs \<le> 3 \<and> jtruthy s"
  by (auto simp: call_groq_def call_anthropic_def Let_def ok_or_none_Some
      split: sum.splits if_splits option.splits dest: read_answer_shape)

lemma fallback_shape: "length (fallback_fixes t ps) \<le> 3" "fallback_summary t \<noteq> []"
  by (auto simp: fallback_fixes_def Let_def fallback_summary_def SUMMARY_TEMPLATES_def UNKNOWN_SUMMARY_def
      split: option.split if_splits dest!: map_of_SomeD)

lemma severity_range: "severity_of c \<in> set [''P1'', ''P2'', ''P3'']"
  by (auto simp: severity_of_def split: option.split if_splits dest!: map_of_SomeD)

text \<open>A service that cannot be reached, or answers with an error status or without text.\<close>

definition groq_down :: "http_result \<Rightarrow> bool" where
  "groq_down answer = (case answer of Inl _ \<Rightarrow> True | Inr r \<Rightarrow> \<not> is_success r \<or> response_json r = None)"

definition anthropic_down :: "string + string list \<Rightarrow> bool" where
  "anthropic_down answer = (case answer of Inl _ \<Rightarrow> True | Inr texts \<Rightarrow> texts = [])"

lemma strip_fences_Nil: "strip_fences [] = []"
  by code_simp

lemma down_no_answer:
  "groq_down a \<Longrightarrow> call_groq a t = None" "anthropic_down b \<Longrightarrow> call_anthropic b t = None"
  by (auto simp: groq_down_def anthropic_down_def call_groq_def call_anthropic_def strip_fences_Nil split: sum.splits)

lemma analyse_cases:
  fixes st :: settings and llm :: llm_services and job :: string and n :: int and tags :: "failure_tag list"
    and patterns :: "pattern_match list" and excerpt url :: string
  defines "t \<equiv> primary_tag tags"
  defines "m \<equiv> user_message job n t patterns excerpt"
  defines "g \<equiv> (if GROQ_API_KEY st \<noteq> [] then call_groq (llm_groq llm m) t else None)"
  defines "h \<equiv> (if truthy (ANTHROPIC_API_KEY st) then call_anthropic (llm_anthropic llm m) t else None)"
  shows "analyse st llm job n tags patterns excerpt url =
    (let (s, fs) = (case g of Some x \<Rightarrow> x | None \<Rightarrow> (case h of Some x \<Rightarrow> x
       | None \<Rightarrow> (JStr (fallback_summary t), fallback_fixes t patterns)))
     in \<lparr>an_summary_text = s, an_fix_suggestions = fs, an_severity = severity_of (ft_category t), an_log_url = url\<rparr>)"
  unfolding analyse_def Let_def t_def [symmetric] m_def [symmetric] g_def [symmetric] h_def [symmetric]
  by (cases g; cases h) simp_all

text \<open>A model that writes the document it was asked for.\<close>

lemma groq_document:
  assumes "is_success r" "Option.bind (response_json r) chat_content = Some c" "strip_fences c \<noteq> []"
    "json_loads (strip_fences c) = Some (JObj kvs)" "map_of (rev kvs) ''summary'' = Some (JStr s)" "s \<noteq> []"
    "map_of (rev kvs) ''fix_suggestions'' = Some (JArr xs)"
  shows "call_groq (Inr r) t = Some (JStr s, take 3 (List.map_filter str_opt xs))"
proof -
  have l: "safe_json_loads (strip_fences c) = Some (JObj kvs)" by (simp add: safe_json_loads_def assms(4))
  have a: "read_answer t (JObj kvs) = Inr (JStr s, take 3 (List.map_filter str_opt xs))"
    unfolding read_answer_def jget.simps assms(5,7) option.case rbind.simps json_items.simps using assms(6) by (simp add: j_or_def)
  show ?thesis unfolding call_groq_def sum.case assms(2) option.case Let_def l using assms(1,3) a by simp
qed

section \<open>Properties\<close>

text \<open>
  C24: whatever the two services answer, the analysis has a summary that is not
  empty, at most three suggestions, the severity of the first tag's category and
  the given link.  It is the template of that category, led by the resolution of
  the most similar failure when there is one, whenever neither service gives a
  usable answer: no key is configured, or the service is unreachable, reports an
  error, or writes what cannot be read.  A document the first service writes as
  asked is taken over: its summary and the first three of its suggestions.
\<close>

theorem analyse_result:
  fixes st :: settings and llm :: llm_services and job :: string and n :: int and tags :: "failure_tag list"
    and patterns :: "pattern_match list" and excerpt url :: string
  defines "t \<equiv> primary_tag tags"
  defines "m \<equiv> user_message job n t patterns excerpt"
  defines "a \<equiv> analyse st llm job n tags patterns excerpt url"
  shows "jtruthy (an_summary_text a) \<and> length (an_fix_suggestions a) \<le> 3 \<and> an_log_url a = url
     \<and> an_severity a = severity_of (ft_category t) \<and> an_severity a \<in> set [''P1'', ''P2'', ''P3'']
     \<and> ((GROQ_API_KEY st = [] \<or> groq_down (llm_groq llm m) \<or> call_groq (llm_groq llm m) t = None)
         \<and> (\<not> truthy (ANTHROPIC_API_KEY st) \<or> anthropic_down (llm_anthropic llm m) \<or> call_anthropic (llm_anthropic llm m) t = None)
         \<longrightarrow> an_summary_text a = JStr (fallback_summary t) \<and> an_fix_suggestions a = fallback_fixes t patterns
           \<and> (\<forall>p res ps. patterns = p # ps \<and> pm_resolution_text p = Some res \<and> res \<noteq> [] \<longrightarrow> hd (an_fix_suggestions a) = res))
     \<and> (\<forall>r c kvs s xs. GROQ_API_KEY st \<noteq> [] \<and> llm_groq llm m = Inr r \<and> is_success r
         \<and> Option.bind (response_json r) chat_content = Some c \<and> strip_fences c \<noteq> []
         \<and> json_loads (strip_fences c) = Some (JObj kvs) \<and> map_of (rev kvs) ''summary'' = Some (JStr s) \<and> s \<noteq> []
         \<and> map_of (rev kvs) ''fix_suggestions'' = Some (JArr xs)
         \<longrightarrow> an_summary_text a = JStr s \<and> an_fix_suggestions a = take 3 (List.map_filter str_opt xs))"
proof -
  let ?g = "if GROQ_API_KEY st \<noteq> [] then call_groq (llm_groq llm m) t else None"
  let ?h = "if truthy (ANTHROPIC_API_KEY st) then call_anthropic (llm_anthropic llm m) t else None"
  let ?x = "case ?g of Some x \<Rightarrow> x | None \<Rightarrow> (case ?h of Some x \<Rightarrow> x | None \<Rightarrow> (JStr (fallback_summary t), fallback_fixes t patterns))"
  obtain s fs where x: "?x = (s, fs)" by (cases ?x)
  have a: "a = \<lparr>an_summary_text = s, an_fix_suggestions = fs, an_severity = severity_of (ft_category t), an_log_url = url\<rparr>"
    using analyse_cases [of st llm job n tags patterns excerpt url] x
    unfolding a_def t_def [symmetric] m_def [symmetric] Let_def by simp
  have shape: "jtruthy s \<and> length fs \<le> 3"
    using x provider_shape fallback_shape by (auto split: option.splits if_splits)
  have template: "s = JStr (fallback_summary t) \<and> fs = fallback_fixes t patterns"
    if "GROQ_API_KEY st = [] \<or> groq_down (llm_groq llm m) \<or> call_groq (llm_groq llm m) t = None"
      "\<not> truthy (ANTHROPIC_API_KEY st) \<or> anthropic_down (llm_anthropic llm m) \<or> call_anthropic (llm_anthropic llm m) t = None"
  proof -
    have "?g = None" "?h = None" using that down_no_answer by auto
    then show ?thesis using x by simp
  qed
  have first: "hd (fallback_fixes t patterns) = res"
    if "patterns = p # ps" "pm_resolution_text p = Some res" "res \<noteq> []" for p res ps
    using that by (simp add: fallback_fixes_def Let_def)
  have used: "s = JStr z \<and> fs = take 3 (List.map_filter str_opt xs)"
    if "GROQ_API_KEY st \<noteq> []" "llm_groq llm m = Inr r" "is_success r" "Option.bind (response_json r) chat_content = Some c"
      "strip_fences c \<noteq> []" "json_loads (strip_fences c) = Some (JObj kvs)" "map_of (rev kvs) ''summary'' = Some (JStr z)" "z \<noteq> []"
      "map_of (rev kvs) ''fix_suggestions'' = Some (JArr xs)" for r c kvs z xs
    using x groq_document [OF that(3-9), of t] that(1,2) by simp
  show ?thesis unfolding a analysis.select_convs
    apply (intro conjI allI impI)
    subgoal using shape by blast
    subgoal using shape by blast
    subgoal by (rule refl)
    subgoal by (rule refl)
    subgoal by (rule severity_range)
    subgoal using template by blast
    subgoal using template by blast
    subgoal using template first by blast
    subgoal using used by blast
    subgoal using used by blast
    done
qed

definition silent_llm :: llm_services where
  "silent_llm = \<lparr>llm_groq = (\<lambda>m. Inl ''timeout''), llm_anthropic = (\<lambda>m. Inl ''timeout'')\<rparr>"

definition keyed_settings :: settings where
  "keyed_settings = default_settings\<lparr>GROQ_API_KEY := ''key'', ANTHROPIC_API_KEY := Some ''key''\<rparr>"

text \<open>Both keys are there, both services time out.\<close>

theorem analyse_result_witness:
  "an_summary_text (analyse keyed_settings silent_llm ''j'' 7 [] [] ''log'' ''u'') = JStr UNKNOWN_SUMMARY
   \<and> an_severity (analyse keyed_settings silent_llm ''j'' 7 [] [] ''log'' ''u'') = ''P3''"
proof -
  have down: "groq_down (llm_groq silent_llm m)" "anthropic_down (llm_anthropic silent_llm m)" for m
    by (simp_all add: silent_llm_def groq_down_def anthropic_down_def)
  have tag: "severity_of (ft_category (primary_tag [])) = ''P3''" "fallback_summary (primary_tag []) = UNKNOWN_SUMMARY"
    by (simp_all add: primary_tag_def CATCH_ALL_def severity_of_def fallback_summary_def SUMMARY_TEMPLATES_def)
  show ?thesis
    using analyse_result [of keyed_settings silent_llm "''j''" 7 "[]" "[]" "''log''" "''u''"] down
    unfolding tag by blast
qed

end
