(* ===== verification/Notifier.thy ===== *)
theory Notifier
  imports Json_Text Config
begin

text \<open>
  \<open>app/services/notifier.py\<close>: the Slack message and the HTML mail about a failed
  build, and the delivery report.  Slack and the mail server are parameters: the
  error they raise for a message, if any.  Emoji and dashes are code points above
  255, so each is the stand-in character.
\<close>

section \<open>The Slack message\<close>

definition SEVERITY_EMOJI :: "(string \<times> nat) list" where
  "SEVERITY_EMOJI = [(''P1'', 0x1F534), (''P2'', 0x1F7E0), (''P3'', 0x1F7E1)]"

definition severity_emoji :: "string \<Rightarrow> string" where
  "severity_emoji s = [code_point (case map_of SEVERITY_EMOJI s of Some n \<Rightarrow> n | None \<Rightarrow> 0x1F534)]"

definition EM_DASH :: string where "EM_DASH = [code_point 0x2014]"
definition ELLIPSIS :: string where "ELLIPSIS = [code_point 0x2026]"

definition FAILURE_TYPE_LABEL :: "(string \<times> string) list" where
  "FAILURE_TYPE_LABEL =
     [(''flaky_test'', ''Flaky / Order-dependent Test''),
      (''env_issue'', ''Missing Environment Variable / Secret''),
      (''dependency_error'', ''Package Dependency Resolution''),
      (''build_config'', ''Jenkinsfile / Pipeline Config''),
      (''infrastructure'', ''Infrastructure (OOM / Agent / Disk)''),
      (''unknown'', ''Unclassified '' @ EM_DASH @ '' manual review needed'')]"

definition type_label :: "string \<Rightarrow> string" where
  "type_label failure_type = (case map_of FAILURE_TYPE_LABEL failure_type of Some l \<Rightarrow> l | None \<Rightarrow> failure_type)"

record notification =
  nt_job_name :: string
  nt_build_number :: int
  nt_summary_text :: string
  nt_fix_suggestions :: "string list"
  nt_severity :: string
  nt_log_url :: string
  nt_error_excerpt :: string
  nt_failure_type :: string

definition fix_lines :: "string list \<Rightarrow> string" where
  "fix_lines fs = py_join [LF] (map (\<lambda>(i, f). str_nat (i + 1) @ ''. '' @ f) (enumerate 0 fs))"

definition short_name :: "string \<Rightarrow> string" where
  "short_name job = (if 60 < length job then take 60 job @ ELLIPSIS else job)"

definition header_text :: "notification \<Rightarrow> string" where
  "header_text nt = severity_emoji (nt_severity nt) @ '' Build Failure '' @ EM_DASH @ '' '' @ short_name (nt_job_name nt)
     @ '' #'' @ str_int (nt_build_number nt) @ '' ['' @ nt_severity nt @ '']''"

definition mrkdwn :: "string \<Rightarrow> json" where
  "mrkdwn s = JObj [(''type'', JStr ''mrkdwn''), (''text'', JStr s)]"

definition section_block :: "string \<Rightarrow> json" where
  "section_block s = JObj [(''type'', JStr ''section''), (''text'', mrkdwn s)]"

definition divider :: json where "divider = JObj [(''type'', JStr ''divider'')]"

definition plain_text :: "string \<Rightarrow> json" where
  "plain_text s = JObj [(''type'', JStr ''plain_text''), (''text'', JStr s), (''emoji'', JBool True)]"

definition slack_excerpt :: "string \<Rightarrow> string" where
  "slack_excerpt e = py_strip (take 1500 e)"

definition slack_blocks :: "notification \<Rightarrow> json list" where
  "slack_blocks nt =
     [JObj [(''type'', JStr ''header''), (''text'', plain_text (header_text nt))],
      JObj [(''type'', JStr ''section''), (''fields'', JArr
        [mrkdwn (''*Job*'' @ LF # CHR 0x60 # nt_job_name nt @ [CHR 0x60]),
         mrkdwn (''*Build*'' @ LF # ''#'' @ str_int (nt_build_number nt)),
         mrkdwn (''*Failure Type*'' @ LF # type_label (nt_failure_type nt)),
         mrkdwn (''*Severity*'' @ LF # nt_severity nt)])],
      divider,
      section_block (code_point 0x1F4A1 # '' *Root Cause*'' @ LF # nt_summary_text nt)]
     @ (if nt_error_excerpt nt \<noteq> []
        then [section_block (code_point 0x1F50E # '' *Error Log*'' @ LF # replicate 3 (CHR 0x60)
                @ slack_excerpt (nt_error_excerpt nt) @ replicate 3 (CHR 0x60))] else [])
     @ (if fix_lines (nt_fix_suggestions nt) \<noteq> []
        then [section_block (code_point 0x1F6E0 # code_point 0xFE0F # '' *Suggested Fixes*'' @ LF # fix_lines (nt_fix_suggestions nt))]
        else [])
     @ [divider,
        JObj [(''type'', JStr ''actions''), (''elements'', JArr
          [JObj [(''type'', JStr ''button''), (''text'', plain_text ''View Build Log''),
                 (''url'', JStr (nt_log_url nt)), (''style'', JStr ''danger'')]])]]"

record slack_message =
  sl_channel :: string
  sl_blocks :: "json list"
  sl_text :: string

definition slack_message_of :: "settings \<Rightarrow> notification \<Rightarrow> string option \<Rightarrow> slack_message" where
  "slack_message_of st nt channel =
     \<lparr>sl_channel = (if truthy channel then the channel else SLACK_DEFAULT_CHANNEL st),
      sl_blocks = slack_blocks nt,
      sl_text = severity_emoji (nt_severity nt) @ '' Build Failure '' @ EM_DASH @ '' '' @ nt_job_name nt
        @ '' #'' @ str_int (nt_build_number nt) @ '': '' @ nt_summary_text nt\<rparr>"

definition send_slack :: "settings \<Rightarrow> (slack_message \<Rightarrow> string option) \<Rightarrow> notification \<Rightarrow> string option \<Rightarrow> unit res" where
  "send_slack st post nt channel =
     (if SLACK_BOT_TOKEN st = [] then Inr ()
      else (case post (slack_message_of st nt channel) of None \<Rightarrow> Inr () | Some e \<Rightarrow> Inl (OtherError e)))"

section \<open>The mail and the report\<close>

record email_message =
  em_sender :: string
  em_to :: string
  em_subject :: string
  em_html :: string
  em_login :: bool
  em_starttls :: bool

definition email_of :: "settings \<Rightarrow> notification \<Rightarrow> string \<Rightarrow> email_message" where
  "email_of st nt to_address =
     \<lparr>em_sender = (if SENDER_EMAIL st \<noteq> [] then SENDER_EMAIL st else ''cibot@'' @ SMTP_HOST st),
      em_to = to_address,
      em_subject = ''['' @ nt_severity nt @ ''] Jenkins failed '' @ EM_DASH @ '' '' @ nt_job_name nt @ '' #''
        @ str_int (nt_build_number nt),
      em_html = ''<html><body><h2>'' @ code_point 0x1F534 # '' '' @ nt_job_name nt @ '' #'' @ str_int (nt_build_number nt)
        @ '' ['' @ nt_severity nt @ '']</h2><p>'' @ nt_summary_text nt @ ''</p><ol>''
        @ concat (map (\<lambda>f. ''<li>'' @ f @ ''</li>'') (nt_fix_suggestions nt))
        @ ''</ol><a href='' @ CHR 0x27 # nt_log_url nt @ CHR 0x27 # ''>View Build Log</a></body></html>'',
      em_login = (SMTP_USER st \<noteq> [] \<and> SMTP_PASSWORD st \<noteq> []), em_starttls = SMTP_TLS st\<rparr>"

definition delivery :: "unit res \<Rightarrow> string" where
  "delivery r = (case r of Inl _ \<Rightarrow> ''FAILED'' | Inr _ \<Rightarrow> ''OK'')"

definition send_email :: "settings \<Rightarrow> (email_message \<Rightarrow> string option) \<Rightarrow> notification \<Rightarrow> string \<Rightarrow> unit res" where
  "send_email st smtp nt to_address =
     (case smtp (email_of st nt to_address) of None \<Rightarrow> Inr () | Some e \<Rightarrow> Inl (OtherError e))"

text \<open>The report of both deliveries, which run side by side and never raise.\<close>

definition notify ::
    "settings \<Rightarrow> (slack_message \<Rightarrow> string option) \<Rightarrow> (email_message \<Rightarrow> string option) \<Rightarrow> notification
     \<Rightarrow> string option \<Rightarrow> string option \<Rightarrow> (string \<times> string) list" where
  "notify st post smtp nt email_to slack_channel =
     (''slack'', delivery (send_slack st post nt slack_channel))
     # (if truthy email_to then [(''email'', delivery (send_email st smtp nt (the email_to)))] else [])"

section \<open>Lemmas\<close>

lemma str_nat_length: "n < 10 ^ Suc k \<Longrightarrow> length (str_nat n) \<le> Suc k"
proof (induction n arbitrary: k rule: str_nat.induct)
  case (1 n)
  show ?case
  proof (cases "n < 10")
    case True
    then show ?thesis by (subst str_nat.simps) simp
  next
    case False
    then obtain m where k: "k = Suc m" using 1(2) by (cases k) auto
    have "n div 10 < 10 ^ Suc m" using 1(2) k by (simp add: div_less_iff_less_mult mult.commute)
    then show ?thesis using 1(1) [OF False] False k by (subst str_nat.simps) simp
  qed
qed

lemma str_int_length: "\<bar>i\<bar> < 10 ^ Suc k \<Longrightarrow> length (str_int i) \<le> Suc (Suc k)"
proof -
  assume "\<bar>i\<bar> < 10 ^ Suc k"
  then have "nat \<bar>i\<bar> < 10 ^ Suc k" by (simp add: nat_less_iff)
  then show ?thesis using str_nat_length [of "nat \<bar>i\<bar>" k] by (auto simp: str_int_def abs_if split: if_splits)
qed

lemma short_name_length: "length (short_name j) \<le> 61"
  by (auto simp: short_name_def ELLIPSIS_def)

section \<open>Properties\<close>

text \<open>
  For a build number of the column's range and a severity of the column's
  width the header is at most 99 characters, within Slack's limit of 150, whatever
  the job is called; and the block with the error text stays below 3000.
\<close>

theorem slack_header_fits:
  assumes "\<bar>nt_build_number nt\<bar> < 2 ^ 31" "length (nt_severity nt) \<le> 4"
  shows "length (header_text nt) \<le> 99 \<and> length (slack_excerpt (nt_error_excerpt nt)) \<le> 1500"
proof -
  have "length (str_int (nt_build_number nt)) \<le> 11"
    using str_int_length [of "nt_build_number nt" 9] assms(1) by simp
  moreover have "length (strip_by p s) \<le> length s" for p s
    using length_dropWhile_le [of p s] length_dropWhile_le [of p "rev (dropWhile p s)"] by (simp add: strip_by_def)
  then have "length (slack_excerpt (nt_error_excerpt nt)) \<le> length (take 1500 (nt_error_excerpt nt))"
    by (simp add: slack_excerpt_def py_strip_def del: length_take)
  ultimately show ?thesis using short_name_length [of "nt_job_name nt"] assms(2)
    by (simp add: header_text_def severity_emoji_def EM_DASH_def)
qed

definition sample_notification :: notification where
  "sample_notification = \<lparr>nt_job_name = replicate 200 CHR ''x'', nt_build_number = 2147483647, nt_summary_text = [],
     nt_fix_suggestions = [], nt_severity = ''P1'', nt_log_url = [], nt_error_excerpt = replicate 5000 CHR ''e'',
     nt_failure_type = ''unknown''\<rparr>"

theorem slack_header_fits_witness:
  "length (header_text sample_notification) \<le> 99 \<and> length (slack_excerpt (nt_error_excerpt sample_notification)) \<le> 1500"
  by (rule slack_header_fits) (simp_all add: sample_notification_def)

text \<open>
  The report says OK for Slack exactly when Slack took the message or no token
  is configured, so a failure is reported as delivered although nothing was sent;
  mail is in the report exactly when an address was given.
\<close>

theorem notify_report:
  "map_of (notify st post smtp nt email_to ch) ''slack'' =
     Some (if SLACK_BOT_TOKEN st = [] \<or> post (slack_message_of st nt ch) = None then ''OK'' else ''FAILED'')
   \<and> map_of (notify st post smtp nt email_to ch) ''email'' =
     (if truthy email_to then Some (if smtp (email_of st nt (the email_to)) = None then ''OK'' else ''FAILED'') else None)"
  by (simp add: notify_def send_slack_def send_email_def delivery_def split: option.split)

end
