(* ===== verification/Analysis_Task.thy ===== *)
theory Analysis_Task
  imports Log_Parser Log_Fetcher Root_Cause Notifier
begin

text \<open>
  \<open>app/tasks.py\<close>: the analysis of a failed build from the payload of its webhook
  to the stored event and the notification.  The services around it (Jenkins, the
  digest, the similarity, the language models, Slack, mail) are fields of a
  record.  A step returns the committed database also when it raises.
\<close>

section \<open>The payload\<close>

record analysis_env =
  ae_get_log :: "string \<Rightarrow> nat \<Rightarrow> http_result"
  ae_sha256 :: "string \<Rightarrow> string"
  ae_similarity :: similarity
  ae_llm :: llm_services
  ae_slack :: "slack_message \<Rightarrow> string option"
  ae_smtp :: "email_message \<Rightarrow> string option"

text \<open>\<open>int(x)\<close> of a JSON value; of a string: blanks around, a sign, digits with single underscores.\<close>

definition int_digits :: "string \<Rightarrow> string option" where
  "int_digits s =
     (let groups = py_split CHR ''_'' s in
      if list_all (\<lambda>g. g \<noteq> [] \<and> list_all is_digit g) groups then Some (concat groups) else None)"

definition int_of_str :: "string \<Rightarrow> int res" where
  "int_of_str s =
     (let t = py_strip s; neg = (t \<noteq> [] \<and> hd t = CHR ''-'');
          body = (if t \<noteq> [] \<and> (hd t = CHR ''-'' \<or> hd t = CHR ''+'') then tl t else t)
      in case int_digits body of
           None \<Rightarrow> Inl (ValueError ''invalid literal for int()'')
         | Some ds \<Rightarrow> Inr (if neg then - int (read_nat ds) else int (read_nat ds)))"

fun py_int :: "json \<Rightarrow> int res" where
  "py_int (JInt i) = Inr i"
| "py_int (JBool b) = Inr (if b then 1 else 0)"
| "py_int (JFloat x) = Inr (if 0 \<le> x then \<lfloor>x\<rfloor> else \<lceil>x\<rceil>)"
| "py_int (JConst c) = Inl (ValueError c)"
| "py_int (JStr s) = int_of_str s"
| "py_int _ = Inl TypeError"

text \<open>A value bound to a text column or compared with one: the driver refuses other types.\<close>

fun text_param :: "json \<Rightarrow> string res" where
  "text_param (JStr s) = Inr s"
| "text_param _ = Inl (OtherError ''DataError'')"

record build_info =
  bi_job :: string
  bi_number :: int
  bi_log_url :: json
  bi_embedded :: json

definition read_payload :: "settings \<Rightarrow> json \<Rightarrow> build_info res" where
  "read_payload st payload =
     rbind (jget payload ''build'' (JObj [])) (\<lambda>build.
     rbind (jget0 payload ''name'') (\<lambda>a. rbind (jget0 payload ''jobName'') (\<lambda>b. rbind (jget0 build ''full_display_name'') (\<lambda>c.
     rbind (jget build ''number'' (JInt 0)) (\<lambda>k. rbind (py_int k) (\<lambda>n.
     rbind (text_param (j_or a (j_or b (j_or c (JStr ''unknown''))))) (\<lambda>job.
     rbind (jget build ''full_url'' (JStr (JENKINS_URL st @ ''/job/'' @ job @ ''/'' @ str_int n @ ''/''))) (\<lambda>url.
     rbind (jget0 build ''fullLog'') (\<lambda>full. rbind (jget0 build ''log'') (\<lambda>short.
       Inr \<lparr>bi_job = job, bi_number = n, bi_log_url = url, bi_embedded = j_or full short\<rparr>))))))))))"

section \<open>Steps\<close>

definition same_build :: "string \<Rightarrow> int \<Rightarrow> build_event \<Rightarrow> bool" where
  "same_build job n e \<longleftrightarrow> be_job_name e = job \<and> be_build_number e = n"

definition already_analysed :: "db \<Rightarrow> string \<Rightarrow> int \<Rightarrow> bool" where
  "already_analysed d job n \<longleftrightarrow> list_ex (same_build job n) (events_t d)"

fun exc_text :: "pyerr \<Rightarrow> string" where
  "exc_text (RuntimeError m) = m"
| "exc_text (ValueError m) = m"
| "exc_text (OtherError m) = m"
| "exc_text (HTTPException n m) = m"
| "exc_text _ = []"

definition unavailable_log :: "string \<Rightarrow> int \<Rightarrow> pyerr \<Rightarrow> string" where
  "unavailable_log job n e = ''Jenkins console log unavailable for '' @ job @ '' #'' @ str_int n @ ''. ''
     @ ''Fetcher error: '' @ exc_text e"

definition obtain_log :: "settings \<Rightarrow> analysis_env \<Rightarrow> build_info \<Rightarrow> string res" where
  "obtain_log st env b =
     (if jtruthy (bi_embedded b) then as_str (bi_embedded b)
      else (case fetch_console_log st (ae_get_log env) (bi_job b) (bi_number b) of
          Inr s \<Rightarrow> Inr s | Inl e \<Rightarrow> Inr (unavailable_log (bi_job b) (bi_number b) e)))"

definition TERMINAL_HEADER :: string where
  "TERMINAL_HEADER = [LF, LF] @ ''--- TERMINAL OUTPUT (last 4000 chars) ---'' @ [LF]"

definition blocks_text :: "string \<Rightarrow> string" where
  "blocks_text raw = py_join [LF, LF] (map full_text (parse_log raw))"

definition error_excerpt :: "string \<Rightarrow> string" where
  "error_excerpt raw =
     (let blocks = blocks_text raw; terminal_tail = take_last 4000 raw in
      if blocks \<noteq> [] \<and> terminal_tail \<noteq> [] \<and> \<not> contains terminal_tail blocks
      then take 16000 (blocks @ TERMINAL_HEADER @ terminal_tail)
      else if blocks \<noteq> [] then take 16000 blocks
      else take 16000 terminal_tail)"

definition new_event :: "build_info \<Rightarrow> failure_tag \<Rightarrow> string \<Rightarrow> string list \<Rightarrow> string \<Rightarrow> string \<Rightarrow> string \<Rightarrow> time \<Rightarrow> build_event" where
  "new_event b t summary fixes severity url raw now =
     \<lparr>be_id = 0, be_job_name = bi_job b, be_build_number = bi_number b, be_failure_type = ft_category t,
      be_confidence = ft_confidence t, be_summary_text = summary, be_fix_suggestions = dumps_strings fixes,
      be_severity = severity, be_log_url = url, be_delivery_status = ''PENDING'',
      be_log_truncated = (10 * 1024 * 1024 \<le> length (encode_utf8 raw)), be_processed_at = now\<rparr>"

definition store_pattern :: "analysis_env \<Rightarrow> db \<Rightarrow> error_block list \<Rightarrow> string \<Rightarrow> time \<Rightarrow> db res" where
  "store_pattern env d blocks category now =
     (case blocks of
        [] \<Rightarrow> Inr d
      | blk # _ \<Rightarrow> rbind (upsert_pattern (ae_sha256 env) d category (eb_anchor_line blk) now) (\<lambda>(d1, r). Inr d1))"

definition store_event ::
    "db \<Rightarrow> build_info \<Rightarrow> failure_tag \<Rightarrow> analysis \<Rightarrow> string \<Rightarrow> string \<Rightarrow> time \<Rightarrow> db \<times> (int \<times> notification) res" where
  "store_event d b t a excerpt raw now =
     (case (text_param (an_summary_text a), text_param (bi_log_url b)) of
        (Inr summary, Inr url) \<Rightarrow>
          (add_event (new_event b t summary (an_fix_suggestions a) (an_severity a) url raw now) d,
           Inr (next_event d,
             \<lparr>nt_job_name = bi_job b, nt_build_number = bi_number b, nt_summary_text = summary,
              nt_fix_suggestions = an_fix_suggestions a, nt_severity = an_severity a, nt_log_url = url,
              nt_error_excerpt = take 1500 excerpt, nt_failure_type = ft_category t\<rparr>))
      | _ \<Rightarrow> (d, Inl (OtherError ''DataError'')))"

text \<open>Analysis and the two commits: the pattern first, then the event.\<close>

definition analyse_and_store ::
    "settings \<Rightarrow> analysis_env \<Rightarrow> db \<Rightarrow> build_info \<Rightarrow> string \<Rightarrow> time \<Rightarrow> db \<times> (int \<times> notification) res" where
  "analyse_and_store st env d b raw now =
     (let excerpt = error_excerpt raw; tags = classify (if excerpt \<noteq> [] then excerpt else raw); t = hd tags;
          patterns = find_similar (ae_similarity env) d excerpt 3;
          a = analyse st (ae_llm env) (bi_job b) (bi_number b) tags patterns excerpt
                (case str_opt (bi_log_url b) of Some u \<Rightarrow> u | None \<Rightarrow> [])
      in (case store_pattern env d (parse_log raw) (ft_category t) now of
            Inl e \<Rightarrow> (d, Inl e)
          | Inr d1 \<Rightarrow> store_event d1 b t a excerpt raw now))"

definition deliver :: "settings \<Rightarrow> analysis_env \<Rightarrow> db \<Rightarrow> int \<Rightarrow> notification \<Rightarrow> db \<times> (string \<times> string) list" where
  "deliver st env d event_id nt =
     (let report = notify st (ae_slack env) (ae_smtp env) nt None None;
          slack_ok = (map_of report ''slack'' = Some ''OK'')
      in (upd_event event_id (\<lambda>e. e\<lparr>be_delivery_status := (if slack_ok then ''OK'' else ''FAILED'')\<rparr>) d, report))"

definition answer_of :: "build_info \<Rightarrow> (string \<times> string) list \<Rightarrow> json" where
  "answer_of b report = JObj [(''job'', JStr (bi_job b)), (''build'', JInt (bi_number b)),
     (''delivery'', JObj (map (\<lambda>(k, v). (k, JStr v)) report))]"

definition process_async :: "settings \<Rightarrow> analysis_env \<Rightarrow> db \<Rightarrow> json \<Rightarrow> time \<Rightarrow> db \<times> json res" where
  "process_async st env d payload now =
     (case read_payload st payload of
        Inl e \<Rightarrow> (d, Inl e)
      | Inr b \<Rightarrow>
          if already_analysed d (bi_job b) (bi_number b) then (d, Inr (answer_of b [(''skipped'', ''duplicate'')]))
          else (case obtain_log st env b of
              Inl e \<Rightarrow> (d, Inl e)
            | Inr raw \<Rightarrow>
                (case analyse_and_store st env d b raw now of
                   (d1, Inl e) \<Rightarrow> (d1, Inl e)
                 | (d1, Inr (event_id, nt)) \<Rightarrow>
                     let (d2, report) = deliver st env d1 event_id nt in (d2, Inr (answer_of b report)))))"

text \<open>The Celery task: an exception is retried three times after 2, 4 and 8 seconds.\<close>

datatype analysis_end = Analysed json | RetryIn nat | GivenUp pyerr

definition process_build_failure_task ::
    "settings \<Rightarrow> analysis_env \<Rightarrow> nat \<Rightarrow> db \<Rightarrow> json \<Rightarrow> time \<Rightarrow> db \<times> analysis_end" where
  "process_build_failure_task st env retries d payload now =
     (case process_async st env d payload now of
        (d1, Inr j) \<Rightarrow> (d1, Analysed j)
      | (d1, Inl e) \<Rightarrow> (d1, if retries < 3 then RetryIn (2 ^ retries * 2) else GivenUp e))"

section \<open>Lemmas\<close>

lemma upsert_events: "upsert_pattern sha d ty x now = Inr (d', r) \<Longrightarrow> events_t d' = events_t d \<and> next_event d' = next_event d"
  by (auto simp: upsert_pattern_def Let_def add_pattern_def upd_pattern_def split: option.splits)

lemma store_pattern_events:
  "store_pattern env d bs c now = Inr d' \<Longrightarrow> events_t d' = events_t d \<and> next_event d' = next_event d"
  by (cases bs) (auto simp: store_pattern_def dest: upsert_events)

lemma store_event_row:
  assumes "store_event d b t a x raw now = (d', Inr (i, nt))"
  obtains e where "events_t d' = events_t d @ [e]" "be_id e = next_event d" "i = next_event d"
    "same_build (bi_job b) (bi_number b) e" "nt_job_name nt = bi_job b"
    "be_fix_suggestions e = dumps_strings (nt_fix_suggestions nt)" "be_summary_text e = nt_summary_text nt"
proof -
  obtain s u where su: "text_param (an_summary_text a) = Inr s" "text_param (bi_log_url b) = Inr u"
    using assms by (cases "text_param (an_summary_text a)"; cases "text_param (bi_log_url b)") (auto simp: store_event_def)
  let ?e = "(new_event b t s (an_fix_suggestions a) (an_severity a) u raw now)\<lparr>be_id := next_event d\<rparr>"
  have "d' = add_event (new_event b t s (an_fix_suggestions a) (an_severity a) u raw now) d" "i = next_event d"
    "nt_fix_suggestions nt = an_fix_suggestions a" "nt_summary_text nt = s" "nt_job_name nt = bi_job b"
    using assms su by (auto simp: store_event_def)
  then show thesis
    by (intro that [of ?e]) (simp_all add: add_event_def new_event_def same_build_def)
qed

lemma stored_event:
  assumes "analyse_and_store st env d b raw now = (d', Inr (i, nt))"
  obtains e where "events_t d' = events_t d @ [e]" "be_id e = next_event d" "i = next_event d"
    "same_build (bi_job b) (bi_number b) e" "nt_job_name nt = bi_job b"
    "be_fix_suggestions e = dumps_strings (nt_fix_suggestions nt)" "be_summary_text e = nt_summary_text nt"
proof -
  obtain d1 t a x where "store_pattern env d (parse_log raw) (ft_category t) now = Inr d1"
    "store_event d1 b t a x raw now = (d', Inr (i, nt))"
    using assms unfolding analyse_and_store_def Let_def by (auto split: sum.splits)
  then show thesis using store_pattern_events store_event_row [of d1 b t a x raw now d' i nt] that by metis
qed

lemma deliver_events:
  "events_t (fst (deliver st env d i nt)) =
     upd_row be_id i (\<lambda>e. e\<lparr>be_delivery_status :=
       (if SLACK_BOT_TOKEN st = [] \<or> ae_slack env (slack_message_of st nt None) = None then ''OK'' else ''FAILED'')\<rparr>) (events_t d)"
  by (simp add: deliver_def upd_event_def Let_def notify_def send_slack_def delivery_def split: option.split)

lemma upd_row_fresh: "i \<notin> key ` set rs \<Longrightarrow> upd_row key i f rs = rs"
  by (induction rs) (auto simp: upd_row_def)

lemma upd_row_append: "upd_row key i f (xs @ ys) = upd_row key i f xs @ upd_row key i f ys"
  by (simp add: upd_row_def)

lemma fresh_event: "keys_ok be_id (events_t d) (next_event d) \<Longrightarrow> next_event d \<notin> be_id ` set (events_t d)"
  by (auto simp: keys_ok_def)

text \<open>What a processed payload leaves behind when it was not a duplicate.\<close>

lemma process_new:
  assumes "read_payload st payload = Inr b" "\<not> already_analysed d (bi_job b) (bi_number b)"
    and "keys_ok be_id (events_t d) (next_event d)" "process_async st env d payload now = (d', Inr j)"
  obtains e nt where "events_t d' = events_t d @ [e]" "same_build (bi_job b) (bi_number b) e"
    "be_delivery_status e =
       (if SLACK_BOT_TOKEN st = [] \<or> ae_slack env (slack_message_of st nt None) = None then ''OK'' else ''FAILED'')"
    "json_loads (be_fix_suggestions e) = Some (JArr (map JStr (nt_fix_suggestions nt)))"
    "nt_job_name nt = bi_job b"
proof -
  obtain raw where raw: "obtain_log st env b = Inr raw"
    using assms by (auto simp: process_async_def split: sum.splits)
  obtain d1 r where d1: "analyse_and_store st env d b raw now = (d1, r)" by fastforce
  obtain i nt where r: "r = Inr (i, nt)"
    using assms raw d1 by (auto simp: process_async_def split: sum.splits)
  have d': "d' = fst (deliver st env d1 i nt)"
    using assms raw d1 r by (auto simp: process_async_def case_prod_unfold Let_def)
  obtain e where e: "events_t d1 = events_t d @ [e]" "be_id e = next_event d" "i = next_event d"
    "same_build (bi_job b) (bi_number b) e" "nt_job_name nt = bi_job b"
    "be_fix_suggestions e = dumps_strings (nt_fix_suggestions nt)"
    using stored_event [OF d1 [unfolded r]] by metis
  let ?s = "if SLACK_BOT_TOKEN st = [] \<or> ae_slack env (slack_message_of st nt None) = None then ''OK'' else ''FAILED''"
  have "events_t d' = events_t d @ [e\<lparr>be_delivery_status := ?s\<rparr>]"
    unfolding d' deliver_events e(1,3) upd_row_append upd_row_fresh [OF fresh_event [OF assms(3)]]
    by (simp add: upd_row_def e(2))
  then show thesis
    by (rule that [of _ nt]) (use e(4-6) in \<open>simp_all add: same_build_def loads_dumps_strings\<close>)
qed

section \<open>What an excerpt keeps of the blocks\<close>

lemma py_join_appended: "\<exists>y. py_join sep (xs @ ys) = py_join sep xs @ y"
proof (induction sep xs rule: py_join.induct)
  case (2 sep w)
  show ?case by (cases ys) simp_all
qed simp_all

lemma py_join_prefix: "prefix (py_join sep (take n xs)) (py_join sep xs)"
proof -
  obtain y where "py_join sep (take n xs @ drop n xs) = py_join sep (take n xs) @ y" using py_join_appended by blast
  then show ?thesis by (simp add: prefix_def)
qed

lemma py_join_mem: "x \<in> set xs \<Longrightarrow> sublist x (py_join sep xs)"
proof (induction sep xs rule: py_join.induct)
  case (3 sep w v ws)
  have "sublist (py_join sep (v # ws)) (w @ sep @ py_join sep (v # ws))"
    using sublist_appendI [of "py_join sep (v # ws)" "w @ sep" "[]"] by simp
  moreover have "sublist w (w @ sep @ py_join sep (v # ws))"
    using sublist_appendI [of w "[]"] by simp
  ultimately show ?case using 3 sublist_order.order_trans by (auto simp del: py_join.simps(2,3) simp: py_join.simps(3))
qed simp_all

lemma prefix_take: "prefix p xs \<Longrightarrow> length p \<le> k \<Longrightarrow> prefix p (take k xs)"
  by (auto simp: prefix_def)

lemma excerpt_blocks:
  assumes "prefix p (blocks_text raw)" "length p \<le> 16000"
  shows "prefix p (error_excerpt raw)"
  using assms prefix_take [of p "blocks_text raw" 16000] prefix_take [of p "blocks_text raw @ TERMINAL_HEADER @ take_last 4000 raw" 16000]
  by (auto simp: error_excerpt_def Let_def)

section \<open>Properties\<close>

definition events_of :: "db \<Rightarrow> string \<Rightarrow> int \<Rightarrow> build_event list" where
  "events_of d job n = filter (same_build job n) (events_t d)"

text \<open>Without a language model and with a readable log nothing can go wrong.\<close>

lemma store_pattern_total: "signatures_ok d \<Longrightarrow> \<exists>d'. store_pattern env d bs c now = Inr d'"
  using scalar_by_column [of pt_signature_hash "patterns_t d"]
  by (cases bs) (simp_all add: store_pattern_def upsert_pattern_def Let_def signatures_ok_def split: option.split)

lemma analyse_template:
  "GROQ_API_KEY st = [] \<Longrightarrow> \<not> truthy (ANTHROPIC_API_KEY st) \<Longrightarrow>
   an_summary_text (analyse st llm job n tags ps x u) = JStr (fallback_summary (primary_tag tags))"
  by (simp add: analyse_def Let_def)

lemma analyse_and_store_total:
  assumes "GROQ_API_KEY st = []" "\<not> truthy (ANTHROPIC_API_KEY st)" "signatures_ok d" "bi_log_url b = JStr u"
  shows "\<exists>d' y. analyse_and_store st env d b raw now = (d', Inr y)"
proof -
  have "\<exists>d' y. store_event d1 b t (analyse st llm job n tags ps x u') ex raw now = (d', Inr y)" for d1 t llm job n tags ps x u' ex
    using analyse_template [OF assms(1,2), of llm job n tags ps x u'] assms(4) by (simp add: store_event_def)
  then show ?thesis
    using store_pattern_total [OF assms(3), of env "parse_log raw"] unfolding analyse_and_store_def Let_def
    by (metis sum.case(2))
qed

lemma process_total:
  assumes "GROQ_API_KEY st = []" "\<not> truthy (ANTHROPIC_API_KEY st)" "signatures_ok d"
    and "read_payload st payload = Inr b" "bi_log_url b = JStr u" "bi_embedded b = JStr s"
  shows "\<exists>d' j. process_async st env d payload now = (d', Inr j)"
proof -
  have "\<exists>raw. obtain_log st env b = Inr raw"
    by (cases "s = []"; cases "fetch_console_log st (ae_get_log env) (bi_job b) (bi_number b)")
      (simp_all add: obtain_log_def assms(6))
  then obtain raw where raw: "obtain_log st env b = Inr raw" by blast
  obtain d1 i nt where d1: "analyse_and_store st env d b raw now = (d1, Inr (i, nt))"
    using analyse_and_store_total [OF assms(1-3,5), of env raw now] by auto
  show ?thesis using assms(4) raw d1 by (simp add: process_async_def case_prod_unfold Let_def)
qed

definition quiet_env :: analysis_env where
  "quiet_env = \<lparr>ae_get_log = (\<lambda>u k. Inl ''down''), ae_sha256 = toy_digest, ae_similarity = (\<lambda>c q. None),
     ae_llm = silent_llm, ae_slack = (\<lambda>m. None), ae_smtp = (\<lambda>m. None)\<rparr>"

definition sample_payload :: json where
  "sample_payload = JObj [(''name'', JStr ''acme/app/main''),
     (''build'', JObj [(''number'', JInt 7), (''full_url'', JStr ''u''), (''log'', JStr ''ERROR: boom'')])]"

definition sample_build :: build_info where
  "sample_build = \<lparr>bi_job = ''acme/app/main'', bi_number = 7, bi_log_url = JStr ''u'', bi_embedded = JStr ''ERROR: boom''\<rparr>"

lemma sample_reads: "read_payload default_settings sample_payload = Inr sample_build"
  by (simp add: read_payload_def sample_payload_def sample_build_def j_or_def)

lemma no_llm: "GROQ_API_KEY default_settings = []" "\<not> truthy (ANTHROPIC_API_KEY default_settings)"
  by (simp_all add: default_settings_def)

lemma empty_signatures: "signatures_ok empty_db"
  by (simp add: signatures_ok_def empty_db_def)

lemma upsert_signatures:
  assumes "upsert_pattern sha d ty x now = Inr (d', r)" "signatures_ok d"
  shows "signatures_ok d'"
proof -
  let ?sig = "sha (normalise x)"
  have lookup: "scalar_one_or_none (filter (\<lambda>r. pt_signature_hash r = ?sig) (patterns_t d)) = Inr (find_signature d ?sig)"
    using assms(2) scalar_by_column [of pt_signature_hash "patterns_t d"] by (simp add: find_signature_def signatures_ok_def)
  show ?thesis
  proof (cases "find_signature d ?sig")
    case None
    then show ?thesis using assms(1) lookup upsert_new(2) [OF assms(2) None] by (auto simp: upsert_pattern_def Let_def)
  next
    case (Some r0)
    then show ?thesis using assms(1) lookup upsert_known(2) [OF assms(2) Some] by (auto simp: upsert_pattern_def Let_def)
  qed
qed

lemma store_event_patterns: "patterns_t (fst (store_event d b t a x raw now)) = patterns_t d
    \<and> next_pattern (fst (store_event d b t a x raw now)) = next_pattern d"
  by (auto simp: store_event_def add_event_def split: sum.split)

lemma analyse_and_store_signatures:
  assumes "analyse_and_store st env d b raw now = (d', y)" "signatures_ok d"
  shows "signatures_ok d'"
proof -
  obtain c where c: "analyse_and_store st env d b raw now =
      (case store_pattern env d (parse_log raw) c now of Inl e \<Rightarrow> (d, Inl e)
       | Inr d1 \<Rightarrow> store_event d1 b (hd (classify (if error_excerpt raw \<noteq> [] then error_excerpt raw else raw)))
            (analyse st (ae_llm env) (bi_job b) (bi_number b) (classify (if error_excerpt raw \<noteq> [] then error_excerpt raw else raw))
              (find_similar (ae_similarity env) d (error_excerpt raw) 3) (error_excerpt raw)
              (case str_opt (bi_log_url b) of Some u \<Rightarrow> u | None \<Rightarrow> [])) (error_excerpt raw) raw now)"
    unfolding analyse_and_store_def Let_def by blast
  show ?thesis
  proof (cases "store_pattern env d (parse_log raw) c now")
    case (Inl e)
    then show ?thesis using assms c by simp
  next
    case (Inr d1)
    have "signatures_ok d1" using Inr assms(2)
      by (cases "parse_log raw") (auto simp: store_pattern_def dest: upsert_signatures)
    then show ?thesis using assms(1) store_event_patterns unfolding c Inr
      by (simp add: signatures_ok_def) (metis fst_conv)
  qed
qed

text \<open>
  C13: processing a payload to its end leaves exactly one event of its build where
  there was none, marked OK exactly when Slack took the message or has no token,
  and with suggestions that read back as they were; processing the payload again,
  at any time and whatever the services answer then, changes nothing.
\<close>

theorem process_once:
  assumes "read_payload st payload = Inr b" "\<not> already_analysed d (bi_job b) (bi_number b)"
    and "keys_ok be_id (events_t d) (next_event d)" "process_async st env d payload now = (d', Inr j)"
  shows "(\<exists>e nt. events_of d' (bi_job b) (bi_number b) = [e]
      \<and> (be_delivery_status e = ''OK'' \<longleftrightarrow> SLACK_BOT_TOKEN st = [] \<or> ae_slack env (slack_message_of st nt None) = None)
      \<and> json_loads (be_fix_suggestions e) = Some (JArr (map JStr (nt_fix_suggestions nt))) \<and> nt_job_name nt = bi_job b)
    \<and> process_async st env' d' payload now' = (d', Inr (answer_of b [(''skipped'', ''duplicate'')]))"
proof -
  obtain e nt where e: "events_t d' = events_t d @ [e]" "same_build (bi_job b) (bi_number b) e"
    "be_delivery_status e =
       (if SLACK_BOT_TOKEN st = [] \<or> ae_slack env (slack_message_of st nt None) = None then ''OK'' else ''FAILED'')"
    "json_loads (be_fix_suggestions e) = Some (JArr (map JStr (nt_fix_suggestions nt)))" "nt_job_name nt = bi_job b"
    using process_new [OF assms] by metis
  have "filter (same_build (bi_job b) (bi_number b)) (events_t d) = []"
    using assms(2) by (auto simp: already_analysed_def list_ex_iff filter_empty_conv)
  then have "events_of d' (bi_job b) (bi_number b) = [e]" using e(1,2) by (simp add: events_of_def)
  moreover have "be_delivery_status e = ''OK'' \<longleftrightarrow> SLACK_BOT_TOKEN st = [] \<or> ae_slack env (slack_message_of st nt None) = None"
    using e(3) by simp
  moreover have "already_analysed d' (bi_job b) (bi_number b)" using e(1,2) unfolding already_analysed_def by simp
  then have "process_async st env' d' payload now' = (d', Inr (answer_of b [(''skipped'', ''duplicate'')]))"
    unfolding process_async_def assms(1) by (simp only: sum.case if_True)
  ultimately show ?thesis using e(4,5) by (intro conjI exI [of _ e] exI [of _ nt])
qed

theorem process_once_witness:
  "\<exists>d' j e. process_async default_settings quiet_env empty_db sample_payload 5 = (d', Inr j)
     \<and> events_of d' ''acme/app/main'' 7 = [e]
     \<and> process_async default_settings quiet_env d' sample_payload 6 = (d', Inr (answer_of sample_build [(''skipped'', ''duplicate'')]))"
proof -
  have url: "bi_log_url sample_build = JStr ''u''" and log: "bi_embedded sample_build = JStr ''ERROR: boom''"
    and key: "bi_job sample_build = ''acme/app/main''" "bi_number sample_build = 7"
    by (simp_all add: sample_build_def)
  obtain d' j where p: "process_async default_settings quiet_env empty_db sample_payload 5 = (d', Inr j)"
    using process_total [OF no_llm empty_signatures sample_reads url log] by blast
  have fresh: "\<not> already_analysed empty_db (bi_job sample_build) (bi_number sample_build)"
    and ok: "keys_ok be_id (events_t empty_db) (next_event empty_db)"
    by (simp_all add: already_analysed_def empty_db_def)
  show ?thesis using process_once [OF sample_reads fresh ok p, of quiet_env 6] p unfolding key by blast
qed

text \<open>
  C40: the guard against duplicates and the storing of the event are separate
  steps: two tasks for one build that have both passed the guard store two
  events.
\<close>

theorem guard_is_not_atomic:
  assumes "\<not> already_analysed d (bi_job b) (bi_number b)"
    and "analyse_and_store st env d b raw now = (d1, Inr x)" "analyse_and_store st env' d1 b raw' now' = (d2, Inr y)"
  shows "length (events_of d2 (bi_job b) (bi_number b)) = 2"
proof -
  have none: "filter (same_build (bi_job b) (bi_number b)) (events_t d) = []"
    using assms(1) by (auto simp: already_analysed_def list_ex_iff filter_empty_conv)
  obtain i nt i' nt' where xy: "x = (i, nt)" "y = (i', nt')" by (cases x; cases y)
  obtain e where e: "events_t d1 = events_t d @ [e]" "same_build (bi_job b) (bi_number b) e"
    using stored_event [OF assms(2) [unfolded xy]] by metis
  obtain e' where e': "events_t d2 = events_t d1 @ [e']" "same_build (bi_job b) (bi_number b) e'"
    using stored_event [OF assms(3) [unfolded xy]] by metis
  show ?thesis unfolding events_of_def e'(1) e(1) using none e(2) e'(2) by simp
qed

theorem guard_is_not_atomic_witness:
  "\<exists>d1 d2 x y. analyse_and_store default_settings quiet_env empty_db sample_build ''ERROR: boom'' 5 = (d1, Inr x)
     \<and> analyse_and_store default_settings quiet_env d1 sample_build ''ERROR: boom'' 6 = (d2, Inr y)
     \<and> length (events_of d2 (bi_job sample_build) (bi_number sample_build)) = 2"
proof -
  have url: "bi_log_url sample_build = JStr ''u''" by (simp add: sample_build_def)
  have fresh: "\<not> already_analysed empty_db (bi_job sample_build) (bi_number sample_build)"
    by (simp add: already_analysed_def empty_db_def)
  obtain d1 x where d1: "analyse_and_store default_settings quiet_env empty_db sample_build ''ERROR: boom'' 5 = (d1, Inr x)"
    using analyse_and_store_total [OF no_llm empty_signatures url, of quiet_env "''ERROR: boom''" 5] by blast
  have "signatures_ok d1" by (rule analyse_and_store_signatures [OF d1 empty_signatures])
  then obtain d2 y where d2: "analyse_and_store default_settings quiet_env d1 sample_build ''ERROR: boom'' 6 = (d2, Inr y)"
    using analyse_and_store_total [OF no_llm _ url, of d1 quiet_env "''ERROR: boom''" 6] by blast
  show ?thesis using guard_is_not_atomic [OF fresh d1 d2] d1 d2 by blast
qed

text \<open>
  C23: the excerpt is at most 16000 characters and starts with the error blocks, in
  their order: as many of them as fit come in full, all of them when together
  they have at most 16000 characters; longer ones are cut there and nothing else
  is left.  The last 4000 characters of the log are contained as well when the
  blocks have at most 11956 characters, and are all there is when no block was
  found.
\<close>

theorem error_excerpt_result:
  "length (error_excerpt raw) \<le> 16000
   \<and> (length (py_join [LF, LF] (map full_text (take n (parse_log raw)))) \<le> 16000
       \<longrightarrow> prefix (py_join [LF, LF] (map full_text (take n (parse_log raw)))) (error_excerpt raw))
   \<and> (length (blocks_text raw) \<le> 16000
       \<longrightarrow> list_all (\<lambda>b. contains (full_text b) (error_excerpt raw)) (parse_log raw))
   \<and> (16000 \<le> length (blocks_text raw) \<longrightarrow> error_excerpt raw = take 16000 (blocks_text raw))
   \<and> (length (blocks_text raw) \<le> 11956 \<longrightarrow> contains (take_last 4000 raw) (error_excerpt raw))
   \<and> (parse_log raw = [] \<longrightarrow> error_excerpt raw = take_last 4000 raw)"
proof (intro conjI impI)
  show "length (error_excerpt raw) \<le> 16000"
    by (simp add: error_excerpt_def Let_def min.coboundedI1 del: take_append)
  show "prefix (py_join [LF, LF] (map full_text (take n (parse_log raw)))) (error_excerpt raw)"
    if "length (py_join [LF, LF] (map full_text (take n (parse_log raw)))) \<le> 16000"
    by (rule excerpt_blocks [OF _ that])
      (use py_join_prefix [of "[LF, LF]" n "map full_text (parse_log raw)"] in \<open>simp add: blocks_text_def take_map\<close>)
  show "list_all (\<lambda>b. contains (full_text b) (error_excerpt raw)) (parse_log raw)" if "length (blocks_text raw) \<le> 16000"
  proof -
    have "prefix (blocks_text raw) (error_excerpt raw)" by (rule excerpt_blocks [OF _ that]) simp
    then obtain y where y: "error_excerpt raw = blocks_text raw @ y" by (auto simp: prefix_def)
    have "contains (full_text b) (blocks_text raw @ y)" if "b \<in> set (parse_log raw)" for b
      using py_join_mem [of "full_text b" "map full_text (parse_log raw)" "[LF, LF]"] that
      unfolding contains_iff_sublist blocks_text_def by (auto intro: sublist_order.order_trans)
    then show ?thesis unfolding y by (simp add: list_all_iff)
  qed
  show "error_excerpt raw = take 16000 (blocks_text raw)" if "16000 \<le> length (blocks_text raw)"
    using that by (auto simp: error_excerpt_def Let_def)
  show "contains (take_last 4000 raw) (error_excerpt raw)" if short: "length (blocks_text raw) \<le> 11956"
  proof -
    have all: "length (blocks_text raw @ TERMINAL_HEADER @ take_last 4000 raw) \<le> 16000"
      using short by (simp add: TERMINAL_HEADER_def)
    have self: "contains s s" for s using contains_append [of s "[]" "[]"] by simp
    have "contains [] x" for x by (cases x) (simp_all add: startswith_def)
    moreover have "contains (take_last 4000 raw) (blocks_text raw @ TERMINAL_HEADER @ take_last 4000 raw)"
      using contains_append [of "take_last 4000 raw" "blocks_text raw @ TERMINAL_HEADER" "[]"] by simp
    ultimately show ?thesis using short all self by (auto simp: error_excerpt_def Let_def)
  qed
  show "error_excerpt raw = take_last 4000 raw" if "parse_log raw = []"
    using that by (simp add: error_excerpt_def blocks_text_def Let_def)
qed

definition short_log :: string where
  "short_log = ''ok'' @ [LF] @ ''ERROR: boom'' @ [LF] @ ''done''"

theorem error_excerpt_result_witness:
  "map eb_anchor_line (parse_log short_log) = [''ERROR: boom'']
   \<and> list_all (\<lambda>b. contains (full_text b) (error_excerpt short_log)) (parse_log short_log)
   \<and> contains (take_last 4000 short_log) (error_excerpt short_log)"
proof -
  have m: "map eb_anchor_line (parse_log short_log) = [''ERROR: boom'']" by code_simp
  have "length (blocks_text short_log) \<le> 11956" by code_simp
  then show ?thesis using m error_excerpt_result [of short_log 1] by simp
qed

end
