(* ===== verification/Webhook_Router.thy ===== *)
theory Webhook_Router
  imports Scheduler Analysis_Task
begin

text \<open>
  \<open>app/routers/webhook.py\<close>: the Jenkins post-build webhook.  The endpoint checks
  the signature (the HMAC is a parameter), reads the payload and starts tasks; the
  tasks link a run to its build or finish it.  Whatever a task raises is caught,
  so it returns the database.
\<close>

section \<open>The endpoint\<close>

type_synonym hmac_fun = "string \<Rightarrow> string \<Rightarrow> string"

text \<open>\<open>hmac.compare_digest\<close> refuses strings that are not ASCII.\<close>

definition compare_digest :: "string \<Rightarrow> string \<Rightarrow> bool res" where
  "compare_digest a b = (if list_all is_ascii a \<and> list_all is_ascii b then Inr (a = b) else Inl TypeError)"

definition verify_signature :: "settings \<Rightarrow> hmac_fun \<Rightarrow> string \<Rightarrow> string option \<Rightarrow> bool res" where
  "verify_signature st hmac body header =
     (if JENKINS_WEBHOOK_SECRET st = [] then Inr True
      else if \<not> truthy header then Inr False
      else
        let digest = hmac (JENKINS_WEBHOOK_SECRET st) body; provided = py_strip (the header) in
        rbind (compare_digest (''sha256='' @ digest) provided) (\<lambda>ok.
          if ok then Inr True else compare_digest digest provided))"

datatype webhook_task = BuildStarted json | BuildCompletion json | FailureProcessing json

definition webhook_tasks :: "json \<Rightarrow> webhook_task list res" where
  "webhook_tasks payload =
     rbind (jget payload ''build'' (JObj [])) (\<lambda>build.
     rbind (jget build ''phase'' (JStr [])) (\<lambda>phase.
     rbind (jget0 build ''status'') (\<lambda>status. Inr
       ((if phase = JStr ''STARTED'' then [BuildStarted payload] else [])
        @ (if phase = JStr ''FINALIZED''
           then BuildCompletion payload # (if status = JStr ''FAILURE'' then [FailureProcessing payload] else [])
           else [])))))"

definition jenkins_webhook ::
    "settings \<Rightarrow> hmac_fun \<Rightarrow> string \<Rightarrow> string option \<Rightarrow> (json \<times> webhook_task list) res" where
  "jenkins_webhook st hmac body header =
     rbind (verify_signature st hmac body header) (\<lambda>ok.
       if \<not> ok then Inl (HTTPException 401 ''Invalid webhook signature'')
       else (case json_loads body of
           None \<Rightarrow> Inl (HTTPException 400 ''Malformed JSON payload'')
         | Some payload \<Rightarrow> rbind (webhook_tasks payload) (\<lambda>ts. Inr (JObj [(''received'', JBool True)], ts))))"

section \<open>The tasks\<close>

definition unlinked :: "string \<Rightarrow> pipeline_run \<Rightarrow> bool" where
  "unlinked job r \<longleftrightarrow> pr_jenkins_job_name r = Some job \<and> pr_status r = RS_IN_PROGRESS \<and> pr_jenkins_build_number r = None"

text \<open>\<open>ORDER BY started_at DESC LIMIT 1\<close>; PostgreSQL sorts nulls first in descending order.\<close>

definition latest_unlinked :: "db \<Rightarrow> string \<Rightarrow> pipeline_run option" where
  "latest_unlinked d job =
     first_row (sort_key (\<lambda>r. map_option uminus (pr_started_at r)) (filter (unlinked job) (runs_t d)))"

text \<open>The fields of the payload; the webhook has checked that both levels are objects.\<close>

definition field :: "json \<Rightarrow> string \<Rightarrow> json" where
  "field j k = (case jget0 j k of Inr v \<Rightarrow> v | Inl _ \<Rightarrow> JNull)"

definition build_field :: "json \<Rightarrow> string \<Rightarrow> json" where
  "build_field payload k = field (field payload ''build'') k"

definition build_url_field :: "json \<Rightarrow> json" where
  "build_url_field payload = (case jget (field payload ''build'') ''url'' (JStr []) of Inr v \<Rightarrow> v | Inl _ \<Rightarrow> JStr [])"

text \<open>
  Values that are no string or number where the database needs one make the
  statement fail, and nothing is committed; a null URL is stored as such.
\<close>

definition handle_build_started :: "db \<Rightarrow> json \<Rightarrow> time \<Rightarrow> db" where
  "handle_build_started d payload now =
     (case (field payload ''name'', build_field payload ''number'') of
        (JStr job, JInt n) \<Rightarrow>
          if job = [] \<or> n = 0 then d
          else (case latest_unlinked d job of
              None \<Rightarrow> d
            | Some r \<Rightarrow>
                (case build_url_field payload of
                   JStr u \<Rightarrow> on_build_started d (pr_id r) n u now
                 | JNull \<Rightarrow> upd_run (pr_id r) (\<lambda>r. r\<lparr>pr_jenkins_build_url := None\<rparr>) (on_build_started d (pr_id r) n [] now)
                 | _ \<Rightarrow> d))
      | _ \<Rightarrow> d)"

definition linked_runs :: "db \<Rightarrow> string \<Rightarrow> int \<Rightarrow> pipeline_run list" where
  "linked_runs d job n =
     filter (\<lambda>r. pr_jenkins_job_name r = Some job \<and> pr_jenkins_build_number r = Some n) (runs_t d)"

definition handle_build_completion :: "settings \<Rightarrow> db \<Rightarrow> json \<Rightarrow> time \<Rightarrow> db \<times> effect list" where
  "handle_build_completion st d payload now =
     (case (field payload ''name'', build_field payload ''number'', build_field payload ''status'') of
        (JStr job, JInt n, JStr result) \<Rightarrow>
          if job = [] \<or> n = 0 \<or> result = [] then (d, [])
          else (case scalar_one_or_none (linked_runs d job n) of
              Inr (Some r) \<Rightarrow> on_build_completed st d (pr_id r) result now
            | _ \<Rightarrow> (d, []))
      | _ \<Rightarrow> (d, []))"

definition schedule_failure_processing :: "settings \<Rightarrow> analysis_env \<Rightarrow> db \<Rightarrow> json \<Rightarrow> time \<Rightarrow> db" where
  "schedule_failure_processing st env d payload now = fst (process_async st env d payload now)"

section \<open>Lemmas\<close>

lemma verify_signature_iff:
  assumes "list_all is_ascii (hmac (JENKINS_WEBHOOK_SECRET st) body)"
  shows "verify_signature st hmac body header = Inr True \<longleftrightarrow>
    JENKINS_WEBHOOK_SECRET st = [] \<or>
    (\<exists>h. header = Some h \<and> h \<noteq> [] \<and> py_strip h \<in> {''sha256='' @ hmac (JENKINS_WEBHOOK_SECRET st) body,
       hmac (JENKINS_WEBHOOK_SECRET st) body})"
proof -
  have pre: "list_all is_ascii (''sha256='' @ hmac (JENKINS_WEBHOOK_SECRET st) body)"
    using assms by (simp add: is_ascii_def cp_def)
  show ?thesis
  proof (cases header)
    case None
    then show ?thesis by (simp add: verify_signature_def)
  next
    case (Some h)
    show ?thesis
    proof (cases "list_all is_ascii (py_strip h)")
      case True
      then show ?thesis using Some pre assms
        by (auto simp: verify_signature_def compare_digest_def truthy_Some_iff Let_def simp del: append_Cons)
    next
      case False
      then have "py_strip h \<notin> {''sha256='' @ hmac (JENKINS_WEBHOOK_SECRET st) body, hmac (JENKINS_WEBHOOK_SECRET st) body}"
        using pre assms by auto
      then show ?thesis using Some False
        by (auto simp: verify_signature_def compare_digest_def truthy_Some_iff Let_def simp del: append_Cons)
    qed
  qed
qed

section \<open>Properties\<close>

text \<open>
  C17: with a secret configured a request is accepted, and starts tasks, only when
  its header is the hex HMAC of the body, with or without the prefix; a wrong
  header is answered 401 or, when it is not ASCII, raises; nothing is started
  then.
\<close>

theorem jenkins_webhook_authentic:
  assumes "\<And>k m. list_all is_ascii (hmac k m)" "JENKINS_WEBHOOK_SECRET st \<noteq> []"
  shows "case jenkins_webhook st hmac body header of
      Inr (answer, ts) \<Rightarrow> \<exists>h payload. header = Some h \<and> py_strip h \<in> {''sha256='' @ hmac (JENKINS_WEBHOOK_SECRET st) body,
          hmac (JENKINS_WEBHOOK_SECRET st) body} \<and> json_loads body = Some payload \<and> webhook_tasks payload = Inr ts
    | Inl e \<Rightarrow> (\<exists>n m. e = HTTPException n m \<and> n \<in> {400, 401}) \<or> e = TypeError \<or> e = AttributeError"
proof (cases "verify_signature st hmac body header")
  case (Inl e)
  then have "e = TypeError"
    by (auto simp: verify_signature_def compare_digest_def Let_def rbind_eq_Inl split: if_splits)
  then show ?thesis using Inl by (simp add: jenkins_webhook_def)
next
  case (Inr ok)
  show ?thesis
  proof (cases ok)
    case False
    then show ?thesis using Inr by (simp add: jenkins_webhook_def)
  next
    case True
    then have v: "verify_signature st hmac body header = Inr True" using Inr by simp
    obtain h where h: "header = Some h" "py_strip h \<in> {''sha256='' @ hmac (JENKINS_WEBHOOK_SECRET st) body,
       hmac (JENKINS_WEBHOOK_SECRET st) body}"
      using v verify_signature_iff [of hmac st body header] assms by blast
    have err: "webhook_tasks p = Inl e \<Longrightarrow> e = AttributeError" for p e
      unfolding webhook_tasks_def rbind_eq_Inl using jget_Inl by blast
    show ?thesis
    proof (cases "json_loads body")
      case None
      then show ?thesis using v by (simp add: jenkins_webhook_def)
    next
      case (Some p)
      then show ?thesis using v h err by (cases "webhook_tasks p") (simp_all add: jenkins_webhook_def)
    qed
  qed
qed

definition toy_hmac :: hmac_fun where
  "toy_hmac k m = ''00ff''"

definition secret_settings :: settings where
  "secret_settings = default_settings\<lparr>JENKINS_WEBHOOK_SECRET := ''s''\<rparr>"

theorem jenkins_webhook_authentic_witness:
  "\<exists>m. jenkins_webhook secret_settings toy_hmac ''null'' (Some ''sha256=abc'') = Inl (HTTPException 401 m)
     \<and> (\<exists>e. jenkins_webhook secret_settings toy_hmac ''null'' (Some '' 00ff '') = Inl e \<and> e = AttributeError)"
proof -
  have h: "list_all is_ascii (toy_hmac k m)" for k m by (simp add: toy_hmac_def is_ascii_def cp_def)
  have s: "JENKINS_WEBHOOK_SECRET secret_settings \<noteq> []" by (simp add: secret_settings_def)
  have strip: "py_strip '' 00ff '' = ''00ff''" "py_strip ''sha256=abc'' = ''sha256=abc''" by code_simp+
  have v: "verify_signature secret_settings toy_hmac ''null'' (Some '' 00ff '') = Inr True"
    "verify_signature secret_settings toy_hmac ''null'' (Some ''sha256=abc'') = Inr False"
    using s by (simp_all add: verify_signature_def strip toy_hmac_def compare_digest_def is_ascii_def cp_def)
  have "json_loads ''null'' = Some JNull" by code_simp
  then have "jenkins_webhook secret_settings toy_hmac ''null'' (Some '' 00ff '') = Inl AttributeError"
    by (simp add: jenkins_webhook_def v webhook_tasks_def)
  moreover have "jenkins_webhook secret_settings toy_hmac ''null'' (Some ''sha256=abc'')
      = Inl (HTTPException 401 ''Invalid webhook signature'')"
    by (simp add: jenkins_webhook_def v)
  ultimately show ?thesis
    using jenkins_webhook_authentic [where hmac = toy_hmac and st = secret_settings and body = "''null''"
        and header = "Some '' 00ff ''", OF h s] by auto
qed

text \<open>The payload Jenkins sends for a build.\<close>

definition jenkins_payload :: "string \<Rightarrow> int \<Rightarrow> string \<Rightarrow> string \<Rightarrow> json" where
  "jenkins_payload job n phase status = JObj [(''name'', JStr job),
     (''build'', JObj [(''number'', JInt n), (''phase'', JStr phase), (''status'', JStr status)])]"

lemma payload_fields:
  "field (jenkins_payload job n p s) ''name'' = JStr job" "build_field (jenkins_payload job n p s) ''number'' = JInt n"
  "build_field (jenkins_payload job n p s) ''status'' = JStr s"
  by (simp_all add: jenkins_payload_def build_field_def field_def)

lemma completion_of_payload:
  assumes "job \<noteq> []" "n \<noteq> 0" "s \<noteq> []" "linked_runs d job n = [r]"
  shows "handle_build_completion st d (jenkins_payload job n p s) now = on_build_completed st d (pr_id r) s now"
  using assms by (simp add: handle_build_completion_def payload_fields)

lemma linked_run:
  assumes "db_ok d" "linked_runs d job n = [r]"
  shows "get_run d (pr_id r) = Some r" "pr_jenkins_job_name r = Some job" "pr_jenkins_build_number r = Some n"
proof -
  have "r \<in> set (linked_runs d job n)" using assms by simp
  then have r: "r \<in> set (runs_t d)" "pr_jenkins_job_name r = Some job" "pr_jenkins_build_number r = Some n"
    by (simp_all add: linked_runs_def)
  then show "get_run d (pr_id r) = Some r"
    using run_tbl.get_mem [OF db_ok_keys(1) [OF assms(1)]] by (simp add: get_run_def)
  show "pr_jenkins_job_name r = Some job" "pr_jenkins_build_number r = Some n" by (rule r)+
qed

text \<open>
  The completion of a build finishes the run that carries its job and number
  whatever the run's status is: a webhook delivered again after the run has been
  queued for a retry (it keeps its old build number) ends the run without a new
  build.
\<close>

theorem completion_ignores_status:
  assumes "db_ok d" "job \<noteq> []" "n \<noteq> 0" "s \<noteq> []" "linked_runs d job n = [r]"
  shows "\<exists>r'. get_run (fst (handle_build_completion st d (jenkins_payload job n p s) now)) (pr_id r) = Some r'
    \<and> pr_status r' = status_of_result s \<and> pr_completed_at r' = Some now"
proof -
  from completed_runs(1) [OF assms(1) linked_run(1) [OF assms(1,5)]] show ?thesis
    by (simp add: completion_of_payload [OF assms(2-5)])
qed

lemma requeued_run: "linked_runs (upd_run 1 requeue running_db) ''acme/app/main'' 9 = [requeue (hd (runs_t running_db))]"
  by (simp add: linked_runs_def running_db_def upd_run_def upd_row_def requeue_def new_run_def)

theorem completion_ignores_status_witness:
  "\<exists>r'. get_run (fst (handle_build_completion default_settings (upd_run 1 requeue running_db)
        (jenkins_payload ''acme/app/main'' 9 ''FINALIZED'' ''ABORTED'') 7)) 1 = Some r' \<and> pr_status r' = RS_ABORTED"
proof -
  have "db_ok (upd_run 1 requeue running_db)" by (rule db_ok_upd_run [OF _ running_db_ok]) simp
  moreover have "pr_id (requeue (hd (runs_t running_db))) = 1" by (simp add: running_db_def requeue_def)
  ultimately show ?thesis
    using completion_ignores_status [OF _ _ _ _ requeued_run, of "''ABORTED''" default_settings "''FINALIZED''" 7]
    by (auto simp: status_of_result_def)
qed

text \<open>
  A failed build announced by the webhook is analysed twice: the webhook
  starts the processing of the failure, and the completion it also starts hands
  the same job and number to an analysis thread.
\<close>

theorem failure_analysed_twice:
  assumes "db_ok d" "job \<noteq> []" "n \<noteq> 0" "linked_runs d job n = [r]"
  shows "webhook_tasks (jenkins_payload job n ''FINALIZED'' ''FAILURE'') =
      Inr [BuildCompletion (jenkins_payload job n ''FINALIZED'' ''FAILURE''),
           FailureProcessing (jenkins_payload job n ''FINALIZED'' ''FAILURE'')]
    \<and> (\<exists>u. snd (handle_build_completion st d (jenkins_payload job n ''FINALIZED'' ''FAILURE'') now)
          = [AnalyseBuild job n u ''FAILURE''])
    \<and> (\<exists>b. read_payload st (jenkins_payload job n ''FINALIZED'' ''FAILURE'') = Inr b \<and> bi_job b = job \<and> bi_number b = n)"
proof (intro conjI)
  note r = linked_run [OF assms(1,4)]
  show "webhook_tasks (jenkins_payload job n ''FINALIZED'' ''FAILURE'') =
      Inr [BuildCompletion (jenkins_payload job n ''FINALIZED'' ''FAILURE''),
           FailureProcessing (jenkins_payload job n ''FINALIZED'' ''FAILURE'')]"
    by (simp add: webhook_tasks_def jenkins_payload_def)
  have "handle_build_completion st d (jenkins_payload job n ''FINALIZED'' ''FAILURE'') now =
      on_build_completed st d (pr_id r) ''FAILURE'' now"
    by (rule completion_of_payload [OF assms(2,3) _ assms(4)]) simp
  then show "\<exists>u. snd (handle_build_completion st d (jenkins_payload job n ''FINALIZED'' ''FAILURE'') now)
          = [AnalyseBuild job n u ''FAILURE'']"
    using r assms(2,3) by (simp add: on_build_completed_def analysis_of_def Let_def)
  show "\<exists>b. read_payload st (jenkins_payload job n ''FINALIZED'' ''FAILURE'') = Inr b \<and> bi_job b = job \<and> bi_number b = n"
    using assms(2) by (simp add: read_payload_def jenkins_payload_def j_or_def)
qed

theorem failure_analysed_twice_witness:
  "\<exists>u. snd (handle_build_completion default_settings running_db
      (jenkins_payload ''acme/app/main'' 9 ''FINALIZED'' ''FAILURE'') 7) = [AnalyseBuild ''acme/app/main'' 9 u ''FAILURE'']"
proof -
  have "linked_runs running_db ''acme/app/main'' 9 = [hd (runs_t running_db)]"
    by (simp add: linked_runs_def running_db_def new_run_def)
  from failure_analysed_twice [OF running_db_ok _ _ this] show ?thesis by simp
qed

end
