(* ===== verification/Github_Webhook.thy ===== *)
theory Github_Webhook
  imports Webhook_Router Pipeline_Tasks "HOL-Library.List_Lexorder" "HOL-Library.Char_ord"
begin

text \<open>
  \<open>app/routers/github_webhook.py\<close>: the GitHub webhook under its three paths, which
  all call \<open>_handle_github_event\<close>.  The handler returns its answer and the run it
  hands to the background task \<open>_enqueue_run\<close>, if any.  The values it takes from the
  payload stay JSON values, as in the code, which checks their truth value only.
\<close>

section \<open>The signature\<close>

definition FULL_SHA_RE :: re where
  "FULL_SHA_RE = seqs [Bol, exactly 40 (Cls (\<lambda>c. hex_digit_value (lower_char c) \<noteq> None)), Eol]"

definition verify_github_sig :: "settings \<Rightarrow> hmac_fun \<Rightarrow> string \<Rightarrow> string option \<Rightarrow> bool res" where
  "verify_github_sig st hmac body sig_header =
     (if GITHUB_WEBHOOK_SECRET st = [] then Inr True
      else if \<not> truthy sig_header \<or> \<not> startswith (the sig_header) ''sha256='' then Inr False
      else compare_digest (''sha256='' @ hmac (GITHUB_WEBHOOK_SECRET st) body) (the sig_header))"

section \<open>Values of the payload\<close>

text \<open>\<open>a or b\<close>, where \<open>b\<close> is evaluated only if \<open>a\<close> is false.\<close>

definition lazy_or :: "json res \<Rightarrow> json res \<Rightarrow> json res" where
  "lazy_or a b = rbind a (\<lambda>x. if jtruthy x then Inr x else b)"

text \<open>\<open>p.get(k1, {}).get(k2, {}).get(k3)\<close>.\<close>

definition jget3 :: "json \<Rightarrow> string \<Rightarrow> string \<Rightarrow> string \<Rightarrow> json res" where
  "jget3 p k1 k2 k3 = rbind (jget p k1 (JObj [])) (\<lambda>x. jget2 x k2 k3)"

text \<open>\<open>p.get("release", {}) or {}\<close>.\<close>

definition release_of :: "json \<Rightarrow> json res" where
  "release_of p = rbind (jget p ''release'' (JObj [])) (\<lambda>r. Inr (j_or r (JObj [])))"

text \<open>The sum of three values: lists and strings can be added, and then iterated.\<close>

fun add_items :: "json \<Rightarrow> json \<Rightarrow> json \<Rightarrow> json list res" where
  "add_items (JArr a) (JArr b) (JArr c) = Inr (a @ b @ c)"
| "add_items (JStr a) (JStr b) (JStr c) = json_items (JStr (a @ b @ c))"
| "add_items _ _ _ = Inl TypeError"

definition commit_paths :: "json \<Rightarrow> json list res" where
  "commit_paths commit =
     rbind (jget commit ''added'' (JArr [])) (\<lambda>a.
     rbind (jget commit ''modified'' (JArr [])) (\<lambda>m.
     rbind (jget commit ''removed'' (JArr [])) (\<lambda>r. add_items a m r)))"

fun number_of :: "json \<Rightarrow> rat option" where
  "number_of (JInt i) = Some (of_int i)"
| "number_of (JFloat x) = Some x"
| "number_of (JBool b) = Some (if b then 1 else 0)"
| "number_of _ = None"

text \<open>
  \<open>sorted({...})\<close>: strings by code points, numbers by value; values that cannot be
  hashed or compared raise.  (\<open>NaN\<close> and the infinities are counted among those.)
\<close>

definition sort_paths :: "json list \<Rightarrow> json list res" where
  "sort_paths ps =
     (let ss = List.map_filter str_opt ps; ns = List.map_filter number_of ps in
      if length ss = length ps then Inr (map JStr (sort (remdups ss)))
      else if length ns = length ps then Inr (map JFloat (sort (remdups ns)))
      else Inl TypeError)"

definition changed_files :: "json \<Rightarrow> json list res" where
  "changed_files p =
     rbind (jget p ''commits'' (JArr [])) (\<lambda>cs.
     rbind (json_items (j_or cs (JArr []))) (\<lambda>commits.
     rbind (mapM_res commit_paths commits) (\<lambda>ps. sort_paths (filter jtruthy (concat ps)))))"

section \<open>The handler\<close>

datatype skip_reason =
    NonBranchRef string | IgnoredPR json | IgnoredRelease json | NotHandled string | NoBranch | NoRepository

record accepted =
  ac_repo :: json
  ac_repo_url :: json
  ac_branch :: json
  ac_author :: json
  ac_commit :: json
  ac_event :: string
  ac_tag :: json
  ac_release :: json
  ac_changed_files :: nat

datatype github_answer = Skipped skip_reason | Pong | Accepted accepted

text \<open>The arguments of the background task.\<close>

record enqueue =
  eq_repo_url :: json
  eq_branch :: json
  eq_commit_sha :: json
  eq_author :: json
  eq_triggered_by :: string
  eq_changed_files :: "json list"

text \<open>What the event names: a branch with the kind, the tag and the release, or a final answer.\<close>

datatype github_event = Final github_answer | On_Branch json string json json

definition push_event :: "json \<Rightarrow> github_event res" where
  "push_event p =
     rbind (jget p ''ref'' (JStr [])) (\<lambda>j. rbind (as_str j) (\<lambda>ref. Inr
       (if startswith ref ''refs/heads/'' then On_Branch (JStr (removeprefix ref ''refs/heads/'')) ''push'' JNull JNull
        else if startswith ref ''refs/tags/'' then
          On_Branch (JStr (''tag/'' @ removeprefix ref ''refs/tags/'')) ''tag'' (JStr (removeprefix ref ''refs/tags/'')) JNull
        else Final (Skipped (NonBranchRef ref)))))"

definition pull_request_event :: "json \<Rightarrow> github_event res" where
  "pull_request_event p =
     rbind (jget p ''action'' (JStr [])) (\<lambda>action.
       if action \<notin> {JStr ''opened'', JStr ''synchronize'', JStr ''reopened''} then Inr (Final (Skipped (IgnoredPR action)))
       else rbind (jget p ''pull_request'' (JObj [])) (\<lambda>pr. rbind (jget pr ''head'' (JObj [])) (\<lambda>head.
            rbind (jget head ''ref'' (JStr [])) (\<lambda>ref. Inr (On_Branch ref ''pull_request'' JNull JNull)))))"

definition release_event :: "json \<Rightarrow> json \<Rightarrow> github_event res" where
  "release_event repo p =
     rbind (jget p ''action'' (JStr [])) (\<lambda>action.
       if action \<notin> {JStr ''created'', JStr ''published'', JStr ''released'', JStr ''prereleased''}
       then Inr (Final (Skipped (IgnoredRelease action)))
       else rbind (release_of p) (\<lambda>release.
            rbind (jget0 release ''tag_name'') (\<lambda>tag.
            rbind (lazy_or (jget0 release ''name'') (Inr tag)) (\<lambda>name.
            rbind (lazy_or (jget0 release ''target_commitish'')
                (lazy_or (jget0 repo ''default_branch'') (Inr (JStr ''main'')))) (\<lambda>branch.
              Inr (On_Branch branch ''release'' tag name))))))"

definition classify_event :: "string \<Rightarrow> json \<Rightarrow> json \<Rightarrow> github_event res" where
  "classify_event event repo p =
     (if event = ''push'' then push_event p
      else if event = ''pull_request'' then pull_request_event p
      else if event = ''release'' then release_event repo p
      else if event = ''ping'' then rbind (jget p ''hook_id'' (JStr ''?'')) (\<lambda>_. Inr (Final Pong))
      else Inr (Final (Skipped (NotHandled event))))"

definition repository_url :: "json \<Rightarrow> json res" where
  "repository_url repo = lazy_or (jget0 repo ''clone_url'') (lazy_or (jget0 repo ''html_url'') (Inr (JStr [])))"

text \<open>The URL made up from the full name where the payload has none.\<close>

definition url_or_fallback :: "json \<Rightarrow> json \<Rightarrow> json option" where
  "url_or_fallback url name =
     (if jtruthy url then Some url
      else if jtruthy name \<and> name \<noteq> JStr ''unknown''
      then Some (JStr (''https://github.com/'' @ format_id name @ ''.git''))
      else None)"

definition event_sha :: "string \<Rightarrow> json \<Rightarrow> json res" where
  "event_sha kind p =
     rbind (lazy_or (jget0 p ''after'')
       (lazy_or (jget2 p ''head_commit'' ''id'') (jget3 p ''pull_request'' ''head'' ''sha''))) (\<lambda>sha.
     if kind = ''release'' then
       rbind (release_of p) (\<lambda>r. rbind (jget0 r ''target_commitish'') (\<lambda>t.
         if \<not> jtruthy t then Inr JNull
         else (case t of
             JStr s \<Rightarrow> Inr (if re_match FULL_SHA_RE s \<noteq> None then t else JNull)
           | _ \<Rightarrow> Inl TypeError)))
     else Inr sha)"

definition event_author :: "json \<Rightarrow> json res" where
  "event_author p =
     lazy_or (jget2 p ''pusher'' ''name'')
    (lazy_or (jget2 p ''sender'' ''login'')
    (lazy_or (jget3 p ''pull_request'' ''user'' ''login'')
      (rbind (jget2 p ''release'' ''author'') (\<lambda>a. jget0 (j_or a (JObj [])) ''login''))))"

text \<open>\<open>(commit_sha or "")[:8]\<close>.\<close>

definition short_sha :: "json \<Rightarrow> json res" where
  "short_sha sha =
     (case j_or sha (JStr []) of
        JStr s \<Rightarrow> Inr (JStr (take 8 s))
      | JArr xs \<Rightarrow> Inr (JArr (take 8 xs))
      | _ \<Rightarrow> Inl TypeError)"

definition accept_event ::
    "json \<Rightarrow> json \<Rightarrow> json \<Rightarrow> json \<Rightarrow> string \<Rightarrow> json \<Rightarrow> json \<Rightarrow> (github_answer \<times> enqueue option) res" where
  "accept_event p name url branch kind tag release =
     rbind (event_sha kind p) (\<lambda>sha.
     rbind (event_author p) (\<lambda>author.
     rbind (changed_files p) (\<lambda>files.
     rbind (short_sha sha) (\<lambda>short.
       Inr (Accepted \<lparr>ac_repo = name, ac_repo_url = url, ac_branch = branch, ac_author = author, ac_commit = short,
              ac_event = kind, ac_tag = tag, ac_release = release, ac_changed_files = length files\<rparr>,
            Some \<lparr>eq_repo_url = url, eq_branch = branch, eq_commit_sha = sha, eq_author = author,
              eq_triggered_by = ''github-'' @ kind, eq_changed_files = files\<rparr>)))))"

definition handle_payload :: "string \<Rightarrow> json \<Rightarrow> (github_answer \<times> enqueue option) res" where
  "handle_payload event p =
     rbind (jget p ''repository'' (JObj [])) (\<lambda>repo.
     rbind (repository_url repo) (\<lambda>url.
     rbind (jget repo ''full_name'' (JStr ''unknown'')) (\<lambda>name.
     rbind (classify_event event repo p) (\<lambda>ev.
       case ev of
         Final answer \<Rightarrow> Inr (answer, None)
       | On_Branch branch kind tag release \<Rightarrow>
           if \<not> jtruthy branch then Inr (Skipped NoBranch, None)
           else (case url_or_fallback url name of
               None \<Rightarrow> Inr (Skipped NoRepository, None)
             | Some u \<Rightarrow> accept_event p name u branch kind tag release)))))"

definition handle_github_event ::
    "settings \<Rightarrow> hmac_fun \<Rightarrow> string \<Rightarrow> string option \<Rightarrow> string option \<Rightarrow> (github_answer \<times> enqueue option) res" where
  "handle_github_event st hmac body sig_header event_header =
     rbind (verify_github_sig st hmac body sig_header) (\<lambda>ok.
       if \<not> ok then Inl (HTTPException 401 ''Invalid webhook signature'')
       else (case json_loads body of
           None \<Rightarrow> Inl (HTTPException 400 ''Malformed JSON payload'')
         | Some p \<Rightarrow> handle_payload (the (or_else event_header (Some ''unknown''))) p))"

section \<open>The background task\<close>

fun opt_text :: "json \<Rightarrow> string option option" where
  "opt_text JNull = Some None"
| "opt_text (JStr s) = Some (Some s)"
| "opt_text _ = None"

text \<open>
  Whatever scheduling raises is caught and logged; values that are no strings
  where the columns need them make it raise.
\<close>

definition schedule_request_of :: "enqueue \<Rightarrow> schedule_request option" where
  "schedule_request_of q =
     (case (eq_repo_url q, eq_branch q, opt_text (eq_commit_sha q), opt_text (eq_author q)) of
        (JStr u, JStr b, Some sha, Some author) \<Rightarrow>
          let files = List.map_filter str_opt (eq_changed_files q) in
          if length files = length (eq_changed_files q)
          then Some \<lparr>sr_repo_url = u, sr_branch = b, sr_commit_sha = sha, sr_author = author,
            sr_triggered_by = eq_triggered_by q, sr_git_token = None, sr_changed_files = Some files\<rparr>
          else None
      | _ \<Rightarrow> None)"

definition enqueue_run ::
    "settings \<Rightarrow> (string \<Rightarrow> (string \<times> string) list \<Rightarrow> http_result) \<Rightarrow> db \<Rightarrow> enqueue \<Rightarrow> time \<Rightarrow> db \<times> effect list" where
  "enqueue_run st http_get d q now =
     (case schedule_request_of q of
        None \<Rightarrow> (d, [])
      | Some r \<Rightarrow> (case schedule_pipeline st http_get d r now of Inl _ \<Rightarrow> (d, []) | Inr (d', run, effs) \<Rightarrow> (d', effs)))"

section \<open>Lemmas\<close>

lemma lazy_or_Inr [simp]: "lazy_or (Inr x) b = (if jtruthy x then Inr x else b)"
  by (simp add: lazy_or_def)

lemma map_filter_str_opt [simp]: "List.map_filter str_opt (map JStr ss) = ss"
  by (induction ss) (simp_all add: List.map_filter_def)

lemma sort_paths_strings: "sort_paths (map JStr ss) = Inr (map JStr (sort (remdups ss)))"
  by (simp add: sort_paths_def Let_def)

lemma mapM_res_map: "(\<And>x. f (g x) = Inr (h x)) \<Longrightarrow> mapM_res f (map g xs) = Inr (map h xs)"
  by (induction xs) simp_all

lemma filter_jtruthy_JStr: "filter jtruthy (map JStr ss) = map JStr (filter (\<lambda>s. s \<noteq> []) ss)"
  by (induction ss) simp_all

section \<open>Properties\<close>

text \<open>A commit and a push as GitHub documents them.\<close>

type_synonym commit = "string list \<times> string list \<times> string list"

fun commit_json :: "commit \<Rightarrow> json" where
  "commit_json (a, m, r) = JObj [(''added'', JArr (map JStr a)), (''modified'', JArr (map JStr m)), (''removed'', JArr (map JStr r))]"

fun commit_files :: "commit \<Rightarrow> string list" where
  "commit_files (a, m, r) = a @ m @ r"

definition push_payload :: "string \<Rightarrow> bool \<Rightarrow> string \<Rightarrow> string \<Rightarrow> string \<Rightarrow> string \<Rightarrow> commit list \<Rightarrow> json" where
  "push_payload ref deleted url name sha author commits = JObj [(''ref'', JStr ref), (''deleted'', JBool deleted), (''after'', JStr sha),
     (''repository'', JObj [(''full_name'', JStr name), (''clone_url'', JStr url)]),
     (''pusher'', JObj [(''name'', JStr author)]), (''commits'', JArr (map commit_json commits))]"

definition pushed_files :: "commit list \<Rightarrow> string list" where
  "pushed_files commits = sort (remdups (filter (\<lambda>f. f \<noteq> []) (concat (map commit_files commits))))"

lemma changed_files_push: "changed_files (push_payload ref del u n sha author commits) = Inr (map JStr (pushed_files commits))"
proof -
  have "commit_paths (commit_json c) = Inr (map JStr (commit_files c))" for c
    by (cases c) (simp add: commit_paths_def)
  then have m: "mapM_res commit_paths (map commit_json commits) = Inr (map (\<lambda>c. map JStr (commit_files c)) commits)"
    by (rule mapM_res_map)
  have c: "concat (map (\<lambda>c. map JStr (commit_files c)) commits) = map JStr (concat (map commit_files commits))"
    by (induction commits) simp_all
  have "j_or (JArr (map commit_json commits)) (JArr []) = JArr (map commit_json commits)"
    by (simp add: j_or_def)
  then show ?thesis
    by (simp add: changed_files_def push_payload_def m c filter_jtruthy_JStr sort_paths_strings pushed_files_def)
qed

lemma pushed_files_set:
  "distinct (pushed_files commits) \<and> sorted (pushed_files commits)
   \<and> set (pushed_files commits) = (\<Union>c \<in> set commits. set (commit_files c)) - {[]}"
  by (auto simp: pushed_files_def)

lemma handle_push:
  assumes "startswith ref ''refs/heads/''" "removeprefix ref ''refs/heads/'' = b" "b \<noteq> []" "url \<noteq> []" "author \<noteq> []" "sha \<noteq> []"
  shows "\<exists>answer. handle_payload ''push'' (push_payload ref deleted url name sha author commits) = Inr (answer,
      Some \<lparr>eq_repo_url = JStr url, eq_branch = JStr b, eq_commit_sha = JStr sha, eq_author = JStr author,
        eq_triggered_by = ''github-push'', eq_changed_files = map JStr (pushed_files commits)\<rparr>)"
proof -
  let ?p = "push_payload ref deleted url name sha author commits"
  have ev: "classify_event ''push'' repo ?p = Inr (On_Branch (JStr b) ''push'' JNull JNull)" for repo
    using assms(1,2) by (simp add: classify_event_def push_event_def push_payload_def)
  have sha: "event_sha ''push'' ?p = Inr (JStr sha)"
    using assms(6) by (simp add: event_sha_def push_payload_def)
  have author: "event_author ?p = Inr (JStr author)"
    using assms(5) by (simp add: event_author_def push_payload_def jget2_def)
  have short: "short_sha (JStr sha) = Inr (JStr (take 8 sha))"
    using assms(6) by (simp add: short_sha_def j_or_def)
  have "jget ?p ''repository'' (JObj []) = Inr (JObj [(''full_name'', JStr name), (''clone_url'', JStr url)])"
    by (simp add: push_payload_def)
  then show ?thesis using assms(3,4)
    by (simp add: handle_payload_def repository_url_def ev url_or_fallback_def accept_event_def sha author short
        changed_files_push)
qed

text \<open>
  C18: A push to a branch, also one that deletes it, is accepted and handed on with
  the branch read from its ref, the repository, the pushed commit, the author and
  the changed files, each once and in order; if the repository yields stages, the
  background task then stores one QUEUED run with exactly these data, whose
  priority is the policy's for that branch and those files, and triggers its
  build.
\<close>

theorem github_push_enqueued:
  assumes "db_ok d" "b \<noteq> []" "url \<noteq> []" "author \<noteq> []" "sha \<noteq> []"
    "found_stages st http_get \<lparr>sr_repo_url = url, sr_branch = b, sr_commit_sha = Some sha, sr_author = Some author,
      sr_triggered_by = ''github-push'', sr_git_token = None, sr_changed_files = Some (pushed_files commits)\<rparr> \<noteq> []"
  shows "\<exists>answer q d' run. handle_payload ''push'' (push_payload (''refs/heads/'' @ b) deleted url name sha author commits)
        = Inr (answer, Some q)
    \<and> enqueue_run st http_get d q now = (d', [TriggerBuild (next_run d) (derive_job_name url b) b (Some sha)])
    \<and> get_run d (next_run d) = None \<and> get_run d' (next_run d) = Some run
    \<and> pr_repo_url run = url \<and> pr_branch run = b \<and> pr_commit_sha run = Some sha \<and> pr_author run = Some author
    \<and> pr_status run = RS_QUEUED
    \<and> pr_scheduling_priority run = pp_value (calculate_pipeline_priority url b (Some (pushed_files commits)))
    \<and> distinct (pushed_files commits) \<and> sorted (pushed_files commits)
    \<and> set (pushed_files commits) = (\<Union>c \<in> set commits. set (commit_files c)) - {[]}
    \<and> (\<forall>i. i \<noteq> next_run d \<longrightarrow> get_run d' i = get_run d i)"
proof -
  let ?p = "push_payload (''refs/heads/'' @ b) deleted url name sha author commits"
  let ?files = "pushed_files commits"
  let ?req = "\<lparr>sr_repo_url = url, sr_branch = b, sr_commit_sha = Some sha, sr_author = Some author,
      sr_triggered_by = ''github-push'', sr_git_token = None, sr_changed_files = Some ?files\<rparr>"
  let ?q = "\<lparr>eq_repo_url = JStr url, eq_branch = JStr b, eq_commit_sha = JStr sha, eq_author = JStr author,
      eq_triggered_by = ''github-push'', eq_changed_files = map JStr ?files\<rparr>"
  have ref: "startswith (''refs/heads/'' @ b) ''refs/heads/''" "removeprefix (''refs/heads/'' @ b) ''refs/heads/'' = b"
    by (simp_all add: removeprefix_def startswith_def)
  obtain answer where h: "handle_payload ''push'' ?p = Inr (answer, Some ?q)"
    using handle_push [OF ref assms(2-5)] by blast
  have rq: "schedule_request_of ?q = Some ?req"
    by (simp add: schedule_request_of_def Let_def)
  have "found_stages st http_get ?req \<noteq> [] \<or> ALLOW_SYNTHETIC_PIPELINE_STAGES st" using assms(6) by blast
  from schedule_pipeline_stored [OF assms(1) this, of now] show ?thesis
  proof cases
    case (1 d')
    have "enqueue_run st http_get d ?q now = (d', [TriggerBuild (next_run d) (derive_job_name url b) b (Some sha)])"
      using 1(1) by (simp add: enqueue_run_def rq)
    then show ?thesis using h 1(3,4,7) pushed_files_set [of commits]
      by (intro exI [of _ answer] exI [of _ ?q] exI [of _ d'] exI [of _ "scheduled_run st http_get d ?req now"])
        (simp add: scheduled_run_def new_run_def)
  qed
qed

text \<open>A deleted branch: GitHub sends the zero commit and no commits.\<close>

theorem github_push_enqueued_witness:
  "\<exists>answer q d' run. handle_payload ''push'' (push_payload (''refs/heads/'' @ ''main'') True ''https://github.com/acme/app'' ''acme/app''
        ''0000000000000000000000000000000000000000'' ''me'' []) = Inr (answer, Some q)
    \<and> enqueue_run default_settings jenkinsfile_server empty_db q 5 = (d', [TriggerBuild 1 (derive_job_name ''https://github.com/acme/app'' ''main'') ''main''
        (Some ''0000000000000000000000000000000000000000'')])
    \<and> get_run d' 1 = Some run \<and> pr_status run = RS_QUEUED"
proof -
  let ?req = "\<lparr>sr_repo_url = ''https://github.com/acme/app'', sr_branch = ''main'', sr_commit_sha = Some ''0000000000000000000000000000000000000000'',
      sr_author = Some ''me'', sr_triggered_by = ''github-push'', sr_git_token = None,
      sr_changed_files = Some (pushed_files [])\<rparr>"
  have "found_stages default_settings jenkinsfile_server ?req \<noteq> []" by code_simp
  moreover have "next_run empty_db = 1" by (simp add: empty_db_def)
  ultimately show ?thesis
    using github_push_enqueued [OF db_ok_empty, of "''main''" "''https://github.com/acme/app''" "''me''" "''0000000000000000000000000000000000000000''"
        default_settings jenkinsfile_server "[]" True "''acme/app''" 5]
    by (simp del: append_Cons) blast
qed

text \<open>
  C19: With a secret configured nothing is accepted, and no run is handed on, unless
  the header is the prefixed hex HMAC of the body; unlike the Jenkins webhook the
  bare digest is refused.
\<close>

theorem github_event_authentic:
  assumes "GITHUB_WEBHOOK_SECRET st \<noteq> []" "handle_github_event st hmac body header event = Inr r"
  shows "header = Some (''sha256='' @ hmac (GITHUB_WEBHOOK_SECRET st) body)
    \<and> (\<exists>p. json_loads body = Some p \<and> handle_payload (the (or_else event (Some ''unknown''))) p = Inr r)"
proof -
  have v: "verify_github_sig st hmac body header = Inr True"
    using assms(2) by (auto simp: handle_github_event_def split: if_splits)
  then obtain h where h: "header = Some h" using assms(1) by (cases header) (auto simp: verify_github_sig_def)
  have "h = ''sha256='' @ hmac (GITHUB_WEBHOOK_SECRET st) body"
    using v assms(1) h by (simp add: verify_github_sig_def compare_digest_def del: append_Cons split: if_splits)
  then show ?thesis using h v assms(2) by (simp add: handle_github_event_def del: or_else.simps split: option.splits)
qed

definition github_settings :: settings where
  "github_settings = default_settings\<lparr>GITHUB_WEBHOOK_SECRET := ''s''\<rparr>"

theorem github_event_authentic_witness:
  "\<exists>p. json_loads ''{}'' = Some p \<and> handle_payload ''ping'' p = Inr (Pong, None)"
proof -
  have "json_loads ''{}'' = Some (JObj [])" by code_simp
  then have "handle_github_event github_settings toy_hmac ''{}'' (Some ''sha256=00ff'') (Some ''ping'') = Inr (Pong, None)"
    by (simp add: handle_github_event_def verify_github_sig_def github_settings_def startswith_def compare_digest_def
        toy_hmac_def is_ascii_def cp_def handle_payload_def repository_url_def classify_event_def)
  from github_event_authentic [OF _ this] show ?thesis by (simp add: github_settings_def)
qed

end
