(* ===== verification/UI_Actions.thy ===== *)
theory UI_Actions
  imports Scheduler Metrics Serialise Webhook_Router
begin

text \<open>
  The endpoints of \<open>app/routers/ui.py\<close> that change state: cancelling a run,
  flushing the queue, setting the routing mode and the live metrics, which store
  a row at most every 30 seconds.
\<close>

section \<open>Cancelling and flushing\<close>

definition cancel_run :: "settings \<Rightarrow> db \<Rightarrow> int \<Rightarrow> time \<Rightarrow> (db \<times> json \<times> effect list) res" where
  "cancel_run st d run_id now =
     (case get_run_row d run_id of
        None \<Rightarrow> Inl (HTTPException 404 (''Run '' @ str_int run_id @ '' not found''))
      | Some r \<Rightarrow>
          if pr_status r \<notin> {RS_QUEUED, RS_IN_PROGRESS}
          then Inl (HTTPException 400 (''Run '' @ str_int run_id @ '' is not active (status: '' @ run_status_value (pr_status r) @ '')''))
          else
            let answer = JObj [(''cancelled'', JInt run_id), (''status'', JStr ''ABORTED'')] in
            if pr_status r = RS_IN_PROGRESS
            then (case on_build_completed st d run_id ''ABORTED'' now of (d', effs) \<Rightarrow> Inr (d', answer, effs))
            else Inr (upd_run run_id (\<lambda>r. r\<lparr>pr_status := RS_ABORTED\<rparr>) d, answer, []))"

definition queued_ids :: "db \<Rightarrow> int list" where
  "queued_ids d = map pr_id (filter (\<lambda>r. pr_status r = RS_QUEUED) (runs_t d))"

text \<open>The three bulk \<open>DELETE\<close>s.\<close>

definition delete_runs :: "int list \<Rightarrow> db \<Rightarrow> db" where
  "delete_runs ids d =
     d\<lparr>assigns_t := filter (\<lambda>a. wa_run_id a \<notin> set ids) (assigns_t d),
       stages_t := filter (\<lambda>s. se_run_id s \<notin> set ids) (stages_t d),
       runs_t := filter (\<lambda>r. pr_id r \<notin> set ids) (runs_t d)\<rparr>"

definition flush_queue :: "db \<Rightarrow> db \<times> json" where
  "flush_queue d =
     (let ids = queued_ids d in
      (if ids \<noteq> [] then delete_runs ids d else d,
       JObj [(''flushed'', JInt (int (length ids))), (''run_ids'', JArr (map JInt ids))]))"

section \<open>Routing mode\<close>

text \<open>The body is a JSON object.  The detail of the exception quotes the mode, which is left out here.\<close>

definition set_scheduler_mode :: "string \<Rightarrow> (string \<times> json) list \<Rightarrow> string \<times> json res" where
  "set_scheduler_mode current body =
     (case map_of (rev body) ''mode'' of
        None \<Rightarrow> (''Priority'', Inr (JObj [(''mode'', JStr ''Priority'')]))
      | Some m \<Rightarrow>
          (case m of
             JStr mode \<Rightarrow>
               if mode \<in> {''FIFO'', ''Priority'', ''Load-Balanced''} then (mode, Inr (JObj [(''mode'', m)]))
               else (current, Inl (HTTPException 400 ''Unknown routing mode''))
           | _ \<Rightarrow> (current, Inl (HTTPException 400 ''Unknown routing mode''))))"

definition get_scheduler_mode :: "string \<Rightarrow> json" where
  "get_scheduler_mode current = JObj [(''mode'', JStr current)]"

section \<open>Live metrics\<close>

text \<open>
  \<open>AsyncSession.delete\<close> is a coroutine function.  The endpoint calls it without
  \<open>await\<close>, so its body never runs.
\<close>

definition unawaited_delete :: "system_metrics \<Rightarrow> db \<Rightarrow> db" where
  "unawaited_delete m d = d"

definition oldest_metrics :: "db \<Rightarrow> system_metrics list" where
  "oldest_metrics d =
     (if 1000 \<le> length (metrics_t d)
      then take (length (metrics_t d) - 999) (sort_key sm_timestamp (metrics_t d)) else [])"

definition persist_live :: "process_stats \<Rightarrow> time \<Rightarrow> db \<times> time option \<Rightarrow> db \<times> time option" where
  "persist_live ps now s =
     (case s of (d, prev) \<Rightarrow>
        if (case prev of None \<Rightarrow> True | Some t \<Rightarrow> seconds 30 \<le> now - t)
        then (add_metric (new_metric d ps now) (fold unawaited_delete (oldest_metrics d) d), Some now)
        else (d, prev))"

definition queue_pressure :: "db \<Rightarrow> nat" where
  "queue_pressure d =
     (let snapshot = get_dashboard_snapshot d 200 in
      length (bucket snapshot RS_QUEUED) + length (bucket snapshot RS_IN_PROGRESS) + busy_count d * 2
        + min (length (bucket snapshot RS_FAILED)) 5)"

definition get_live_metrics :: "process_stats \<Rightarrow> time \<Rightarrow> db \<times> time option \<Rightarrow> (db \<times> time option) \<times> system_metrics \<times> nat" where
  "get_live_metrics ps now s = (persist_live ps now s, new_metric (fst s) ps now, queue_pressure (fst s))"

section \<open>Lemmas\<close>

lemma db_ok_delete_runs:
  assumes "db_ok d"
  shows "db_ok (delete_runs ids d)"
proof -
  have run: "get_run_row (delete_runs ids d) i = (if i \<in> set ids then None else get_run_row d i)" for i
  proof -
    have row: "get_row pr_id i (filter (\<lambda>r. pr_id r \<notin> set ids) rs) = (if i \<in> set ids then None else get_row pr_id i rs)" for rs
      by (induction rs) (auto simp: get_row_def)
    show ?thesis by (simp add: get_run_row_def delete_runs_def row)
  qed
  have worker: "get_worker (delete_runs ids d) = get_worker d" by (simp add: get_worker_def delete_runs_def fun_eq_iff)
  have "tables_ok (delete_runs ids d)"
    using assms by (simp add: db_ok_def tables_ok_def delete_runs_def keys_ok_filter)
  moreover have "refs_ok (delete_runs ids d)"
    using assms unfolding refs_ok_def run worker by (auto simp: delete_runs_def db_ok_def refs_ok_def)
  ultimately show ?thesis by (simp add: db_ok_def)
qed

lemma queued_ids_iff:
  assumes "db_ok d" "r \<in> set (runs_t d)"
  shows "pr_id r \<in> set (queued_ids d) \<longleftrightarrow> pr_status r = RS_QUEUED"
proof -
  have "inj_on pr_id (set (runs_t d))"
    using keys_ok_distinct [OF db_ok_keys(1) [OF assms(1)]] by (simp add: distinct_map)
  then show ?thesis using assms(2) by (auto simp: queued_ids_def dest: inj_onD)
qed

lemma flushed_db: "fst (flush_queue d) = delete_runs (queued_ids d) d"
  by (simp add: flush_queue_def Let_def delete_runs_def)

lemma fold_unawaited [simp]: "fold unawaited_delete ms d = d"
  by (induction ms arbitrary: d) (simp_all add: unawaited_delete_def)

lemma cancelled_runs:
  assumes "db_ok d" "get_run d i = Some r" "cancel_run st d i now = Inr (d', j, effs)"
  shows "db_ok d' \<and> pr_status r \<in> {RS_QUEUED, RS_IN_PROGRESS}
    \<and> get_run d' k = (if k = i then
        Some (if pr_status r = RS_IN_PROGRESS then finish_run ''ABORTED'' now r else r\<lparr>pr_status := RS_ABORTED\<rparr>)
      else get_run d k)"
proof -
  have row: "get_run_row d i = Some r" using assms(2) by (simp add: get_run_def)
  show ?thesis
  proof (cases "pr_status r = RS_IN_PROGRESS")
    case True
    then have "on_build_completed st d i ''ABORTED'' now = (d', effs)"
      using assms(3) by (simp add: cancel_run_def row Let_def split: prod.splits)
    then show ?thesis using True db_ok_completed [OF assms(1), of st i "''ABORTED''" now]
        completed_runs(1) [OF assms(1,2), of st "''ABORTED''" now k] by simp
  next
    case False
    then have "pr_status r = RS_QUEUED" "d' = upd_run i (\<lambda>r. r\<lparr>pr_status := RS_ABORTED\<rparr>) d"
      using assms(3) by (auto simp: cancel_run_def row Let_def split: if_splits)
    moreover have "db_ok (upd_run i (\<lambda>r. r\<lparr>pr_status := RS_ABORTED\<rparr>) d)" by (rule db_ok_upd_run [OF _ assms(1)]) simp
    ultimately show ?thesis using False row by (simp add: get_run_def db_simps)
  qed
qed

section \<open>Properties\<close>

text \<open>
  C28: Cancelling succeeds exactly for a run that is queued or in progress; it is
  ABORTED then and every other run is as before.  Any other run is refused with
  400, a missing one with 404.
\<close>

theorem cancel_run_result:
  assumes "db_ok d"
  shows "case cancel_run st d i now of
      Inr (d', j, effs) \<Rightarrow> db_ok d' \<and> (\<exists>r r'. get_run d i = Some r \<and> pr_status r \<in> {RS_QUEUED, RS_IN_PROGRESS}
          \<and> get_run d' i = Some r' \<and> pr_status r' = RS_ABORTED)
        \<and> (\<forall>k. k \<noteq> i \<longrightarrow> get_run d' k = get_run d k)
    | Inl e \<Rightarrow> (get_run d i = None \<and> (\<exists>m. e = HTTPException 404 m))
        \<or> (\<exists>r m. get_run d i = Some r \<and> pr_status r \<in> {RS_COMPLETED, RS_FAILED, RS_ABORTED} \<and> e = HTTPException 400 m)"
proof (cases "cancel_run st d i now")
  case (Inl e)
  show ?thesis
  proof (cases "get_run d i")
    case None
    then show ?thesis using Inl by (auto simp: cancel_run_def get_run_def)
  next
    case (Some r)
    then have "pr_status r \<notin> {RS_QUEUED, RS_IN_PROGRESS} \<and> (\<exists>m. e = HTTPException 400 m)"
      using Inl by (auto simp: cancel_run_def get_run_def Let_def split: if_splits prod.splits)
    then show ?thesis using Inl Some by (cases "pr_status r") auto
  qed
next
  case (Inr t)
  obtain d' j effs where t: "t = (d', j, effs)" by (cases t)
  obtain r where r: "get_run d i = Some r"
    using Inr by (cases "get_run d i") (simp_all add: cancel_run_def get_run_def)
  have c: "cancel_run st d i now = Inr (d', j, effs)" using Inr t by simp
  have "pr_status (finish_run ''ABORTED'' now r) = RS_ABORTED" by (simp add: status_of_result_def)
  then show ?thesis using cancelled_runs [OF assms r c] r by (simp add: c)
qed

theorem cancel_run_result_witness:
  "db_ok running_db \<and> (\<exists>d' j effs r'. cancel_run default_settings running_db 1 7 = Inr (d', j, effs) \<and> get_run d' 1 = Some r'
     \<and> pr_status r' = RS_ABORTED)"
proof -
  have "get_run_row running_db 1 = Some (hd (runs_t running_db))" "pr_status (hd (runs_t running_db)) = RS_IN_PROGRESS"
    using running_db_run by (simp_all add: get_run_def running_db_def)
  then obtain d' j effs where "cancel_run default_settings running_db 1 7 = Inr (d', j, effs)"
    by (cases "on_build_completed default_settings running_db 1 ''ABORTED'' 7") (simp add: cancel_run_def Let_def)
  then show ?thesis
    using cancel_run_result [OF running_db_ok, where st = default_settings and i = 1 and now = 7] running_db_ok by auto
qed

text \<open>
  C37: A cancelled run is not protected against its own build.  Jenkins is not told
  to stop, and the completion of the build overwrites ABORTED: a failure makes
  the run FAILED, and as its retries are not used up, the next tick schedules its
  retry.
\<close>

theorem cancelled_run_revived:
  assumes "db_ok d" "get_run d i = Some r" "pr_status r = RS_IN_PROGRESS" "pr_retry_count r < pr_max_retries r"
    "real_pipeline_run r" "cancel_run st d i t = Inr (d1, j, effs)"
    "job \<noteq> []" "n \<noteq> 0" "linked_runs d1 job n = [r1]" "pr_id r1 = i"
  shows "\<exists>r2. get_run (fst (handle_build_completion st d1 (jenkins_payload job n ''FINALIZED'' ''FAILURE'') now)) i = Some r2
    \<and> pr_status r1 = RS_ABORTED \<and> pr_status r2 = RS_FAILED \<and> retry_eligible r2"
proof -
  note c = cancelled_runs [OF assms(1,2,6)]
  have g: "get_run d1 i = Some (finish_run ''ABORTED'' t r)" using c assms(3) by simp
  have ok: "db_ok d1" using c by blast
  have r1: "r1 = finish_run ''ABORTED'' t r" using linked_run(1) [OF ok assms(9)] assms(10) g by simp
  have "get_run (fst (handle_build_completion st d1 (jenkins_payload job n ''FINALIZED'' ''FAILURE'') now)) i
      = Some (finish_run ''FAILURE'' now r1)"
    using completed_runs(1) [OF ok g, of st "''FAILURE''" now i]
    using assms(10) by (simp add: completion_of_payload [OF assms(7,8) _ assms(9)]) (simp add: r1)
  moreover have "pr_status (finish_run ''FAILURE'' now r1) = RS_FAILED" by (simp add: status_of_result_def)
  moreover have "pr_status r1 = RS_ABORTED" by (simp add: r1 status_of_result_def)
  moreover have "pr_retry_count (finish_run ''FAILURE'' now r1) < pr_max_retries (finish_run ''FAILURE'' now r1)"
    using assms(4) by (simp add: r1 finish_run_def)
  moreover have "real_pipeline_run (finish_run ''FAILURE'' now r1)"
    using assms(5) by (simp add: r1 finish_run_def real_pipeline_run_def)
  ultimately show ?thesis by (simp add: retry_eligible_def)
qed

theorem cancelled_run_revived_witness:
  "\<exists>d1 j effs r2. cancel_run default_settings running_db 1 7 = Inr (d1, j, effs)
    \<and> get_run (fst (handle_build_completion default_settings d1
        (jenkins_payload ''acme/app/main'' 9 ''FINALIZED'' ''FAILURE'') 8)) 1 = Some r2 \<and> pr_status r2 = RS_FAILED"
proof -
  let ?r = "hd (runs_t running_db)"
  have r: "get_run running_db 1 = Some ?r" "pr_status ?r = RS_IN_PROGRESS" "pr_retry_count ?r < pr_max_retries ?r"
    "real_pipeline_run ?r"
    using running_db_run by (simp_all add: running_db_def new_run_def real_pipeline_run_def ilike_any_def NON_REAL_MARKERS_def
        py_lower_def lower_char_def cp_def is_ascii_letter_def startswith_def)
  have row: "get_run_row running_db 1 = Some ?r" using r(1) by (simp add: get_run_def)
  obtain d1 effs where b: "on_build_completed default_settings running_db 1 ''ABORTED'' 7 = (d1, effs)"
    by (cases "on_build_completed default_settings running_db 1 ''ABORTED'' 7")
  obtain j where c: "cancel_run default_settings running_db 1 7 = Inr (d1, j, effs)"
    using r(2) by (simp add: cancel_run_def Let_def row b)
  have "runs_t d1 = [finish_run ''ABORTED'' 7 ?r]"
  proof -
    have "d1 = fst (on_build_completed default_settings running_db 1 ''ABORTED'' 7)" by (simp add: b)
    then show ?thesis by (simp add: runs_t_completed [OF running_db_ok running_db_run]) (simp add: running_db_def upd_row_def)
  qed
  then have l: "linked_runs d1 ''acme/app/main'' 9 = [finish_run ''ABORTED'' 7 ?r]"
    by (simp add: linked_runs_def finish_run_def running_db_def new_run_def)
  have "pr_id (finish_run ''ABORTED'' 7 ?r) = 1" by (simp add: running_db_def)
  from cancelled_run_revived [OF running_db_ok r c _ _ l this, of 8] c show ?thesis by auto
qed

text \<open>
  C27: Flushing removes exactly the queued runs, with their stages and assignments,
  answers with their number, and leaves the integrity of the database and every
  other run, stage, assignment and worker as they were.
\<close>

theorem flush_queue_result:
  assumes "db_ok d"
  shows "db_ok (fst (flush_queue d)) \<and> runs_t (fst (flush_queue d)) = filter (\<lambda>r. pr_status r \<noteq> RS_QUEUED) (runs_t d)
    \<and> stages_t (fst (flush_queue d)) = filter (\<lambda>s. list_ex (\<lambda>r. pr_id r = se_run_id s \<and> pr_status r \<noteq> RS_QUEUED) (runs_t d)) (stages_t d)
    \<and> assigns_t (fst (flush_queue d)) = filter (\<lambda>a. list_ex (\<lambda>r. pr_id r = wa_run_id a \<and> pr_status r \<noteq> RS_QUEUED) (runs_t d)) (assigns_t d)
    \<and> workers_t (fst (flush_queue d)) = workers_t d
    \<and> length (runs_t (fst (flush_queue d))) + length (queued_ids d) = length (runs_t d)"
proof -
  have runs: "pr_id r \<notin> set (queued_ids d) \<longleftrightarrow> pr_status r \<noteq> RS_QUEUED" if "r \<in> set (runs_t d)" for r
    using queued_ids_iff [OF assms that] by blast
  have kept: "get_run_row d i \<noteq> None \<Longrightarrow> i \<notin> set (queued_ids d) \<longleftrightarrow> list_ex (\<lambda>r. pr_id r = i \<and> pr_status r \<noteq> RS_QUEUED) (runs_t d)" for i
    using runs by (auto simp: list_ex_iff queued_ids_def run_tbl.get_None_iff)
  have len: "length (filter (\<lambda>r. pr_status r \<noteq> RS_QUEUED) (runs_t d)) + length (queued_ids d) = length (runs_t d)"
    using sum_length_filter_compl [of "\<lambda>r. pr_status r \<noteq> RS_QUEUED" "runs_t d"] by (simp add: queued_ids_def)
  have r: "runs_t (fst (flush_queue d)) = filter (\<lambda>r. pr_status r \<noteq> RS_QUEUED) (runs_t d)"
    unfolding flushed_db delete_runs_def using runs by (simp cong: filter_cong)
  have "stages_t (fst (flush_queue d)) = filter (\<lambda>s. list_ex (\<lambda>r. pr_id r = se_run_id s \<and> pr_status r \<noteq> RS_QUEUED) (runs_t d)) (stages_t d)"
    unfolding flushed_db delete_runs_def using kept db_ok_refs(1) [OF assms] by (simp cong: filter_cong)
  moreover have "assigns_t (fst (flush_queue d)) = filter (\<lambda>a. list_ex (\<lambda>r. pr_id r = wa_run_id a \<and> pr_status r \<noteq> RS_QUEUED) (runs_t d)) (assigns_t d)"
    unfolding flushed_db delete_runs_def using kept db_ok_refs(2) [OF assms] by (simp cong: filter_cong)
  moreover have "workers_t (fst (flush_queue d)) = workers_t d" by (simp add: flushed_db delete_runs_def)
  ultimately show ?thesis using r len db_ok_delete_runs [OF assms] by (simp add: flushed_db)
qed

theorem flush_queue_result_witness:
  "length (runs_t (fst (flush_queue (upd_run 1 requeue running_db)))) + length (queued_ids (upd_run 1 requeue running_db)) = 1
    \<and> queued_ids (upd_run 1 requeue running_db) = [1]"
proof -
  have "db_ok (upd_run 1 requeue running_db)" by (rule db_ok_upd_run [OF _ running_db_ok]) simp
  from flush_queue_result [OF this]
  have "length (runs_t (fst (flush_queue (upd_run 1 requeue running_db)))) + length (queued_ids (upd_run 1 requeue running_db))
      = length (runs_t (upd_run 1 requeue running_db))" by blast
  moreover have "runs_t (upd_run 1 requeue running_db) = [requeue (hd (runs_t running_db))]" "pr_id (hd (runs_t running_db)) = 1"
    by (simp_all add: running_db_def upd_run_def upd_row_def)
  ultimately show ?thesis by (simp add: queued_ids_def)
qed

text \<open>The rows a sequence of polls stores.\<close>

definition polls :: "(process_stats \<times> time) list \<Rightarrow> db \<times> time option \<Rightarrow> db \<times> time option" where
  "polls = fold (\<lambda>(ps, now) s. persist_live ps now s)"

lemma polls_grow: "\<exists>new. metrics_t (fst (polls xs s)) = metrics_t (fst s) @ new"
proof (induction xs arbitrary: s)
  case Nil
  then show ?case by (simp add: polls_def)
next
  case (Cons x xs)
  obtain ps now where x: "x = (ps, now)" by (cases x)
  have "\<exists>new. metrics_t (fst (persist_live ps now s)) = metrics_t (fst s) @ new"
    by (cases s) (simp add: persist_live_def add_metric_def)
  moreover have "polls (x # xs) s = polls xs (persist_live ps now s)" by (simp add: polls_def x)
  ultimately show ?case using Cons.IH [of "persist_live ps now s"] by auto
qed

lemma polls_rate:
  assumes "sorted (map snd xs)" "list_all (\<lambda>x. t0 \<le> snd x \<and> snd x \<le> t1) xs" "t0 \<le> t1"
  shows "seconds 30 * int (length (metrics_t (fst (polls xs (d, Some t0)))) - length (metrics_t d)) \<le> t1 - t0"
  using assms
proof (induction xs arbitrary: d t0)
  case Nil
  then show ?case by (simp add: polls_def)
next
  case (Cons x xs)
  obtain ps now where x: "x = (ps, now)" by (cases x)
  have now: "t0 \<le> now" "now \<le> t1" "sorted (map snd xs)" using Cons.prems x by auto
  show ?case
  proof (cases "seconds 30 \<le> now - t0")
    case False
    then have "polls (x # xs) (d, Some t0) = polls xs (d, Some t0)" by (simp add: polls_def x persist_live_def)
    then show ?thesis using Cons.IH [OF now(3), of t0 d] Cons.prems by simp
  next
    case True
    let ?d = "add_metric (new_metric d ps now) d"
    have p: "polls (x # xs) (d, Some t0) = polls xs (?d, Some now)" using True by (simp add: polls_def x persist_live_def)
    have "list_all (\<lambda>y. now \<le> snd y \<and> snd y \<le> t1) xs"
      using Cons.prems x by (auto simp: list_all_iff)
    then have ih: "seconds 30 * int (length (metrics_t (fst (polls xs (?d, Some now)))) - length (metrics_t ?d)) \<le> t1 - now"
      by (rule Cons.IH [OF now(3) _ now(2)])
    obtain new where "metrics_t (fst (polls xs (?d, Some now))) = metrics_t ?d @ new" using polls_grow by fastforce
    then have "length (metrics_t (fst (polls xs (?d, Some now)))) - length (metrics_t d)
        = Suc (length (metrics_t (fst (polls xs (?d, Some now)))) - length (metrics_t ?d))"
      by (simp add: add_metric_def)
    then show ?thesis using ih True unfolding p by (simp add: algebra_simps)
  qed
qed

text \<open>
  Polling the live metrics at any times stores at most one row in 30 seconds,
  but never removes a row: the table grows without bound, also beyond the 1000
  rows that the endpoint means to keep.
\<close>

theorem live_metrics_growth:
  assumes "sorted (map snd xs)" "list_all (\<lambda>x. t0 \<le> snd x \<and> snd x \<le> t1) xs" "t0 \<le> t1"
  shows "seconds 30 * int (length (metrics_t (fst (polls xs (d, Some t0)))) - length (metrics_t d)) \<le> t1 - t0
    \<and> (\<exists>new. metrics_t (fst (polls xs s)) = metrics_t (fst s) @ new)"
  using polls_rate [OF assms] polls_grow by blast

theorem live_metrics_growth_witness:
  "seconds 30 * int (length (metrics_t (fst (polls [(\<lparr>ps_uptime_seconds = 1, ps_memory_rss = 1, ps_memory_total = 2,
      ps_cpu_percent = 0\<rparr>, seconds 31)] (empty_db, Some 0)))) - length (metrics_t empty_db)) \<le> seconds 31 - 0"
  using live_metrics_growth [of "[(\<lparr>ps_uptime_seconds = 1, ps_memory_rss = 1, ps_memory_total = 2, ps_cpu_percent = 0\<rparr>,
    seconds 31)]" 0 "seconds 31" empty_db] by (simp add: seconds_def)

end
