(* ===== verification/UI_Helpers.thy ===== *)
theory UI_Helpers
  imports Serialise Job_Scheduler
begin

text \<open>
  The helpers of \<open>app/routers/ui.py\<close>: names of repositories, triggers, durations,
  priorities and the labels of the activity stream.
\<close>

section \<open>Definitions\<close>

abbreviation rstrip_slash :: "string \<Rightarrow> string" where
  "rstrip_slash \<equiv> rstrip_by (\<lambda>c. c = CHR ''/'')"

definition repo_short_name :: "string \<Rightarrow> string" where
  "repo_short_name url =
     (let name = rstrip_slash (removesuffix (rstrip_slash url) ''.git'') in
      if name \<noteq> [] then last (py_split CHR ''/'' name) else ''unknown'')"

definition repo_canonical_url :: "string \<Rightarrow> string" where
  "repo_canonical_url url = removesuffix (rstrip_slash url) ''.git''"

definition clean_trigger :: "string \<Rightarrow> string" where
  "clean_trigger t =
     (if contains ''github'' t then ''github''
      else if contains ''jenkins'' t then ''jenkins''
      else if t \<noteq> [] then t else ''system'')"

definition format_duration :: "int \<Rightarrow> string" where
  "format_duration n =
     (let s = max 0 n; days = s div 86400; remainder = s mod 86400;
          hours = remainder div 3600; remainder = remainder mod 3600;
          minutes = remainder div 60; secs = remainder mod 60;
          parts = (if days \<noteq> 0 then [str_int days @ ''d''] else []);
          parts = parts @ (if hours \<noteq> 0 \<or> parts \<noteq> [] then [pad_int 2 hours @ ''h''] else []);
          parts = parts @ [pad_int 2 minutes @ ''m''];
          parts = parts @ (if days = 0 then [pad_int 2 secs @ ''s''] else [])
      in py_join '' '' parts)"

definition branch_priority :: "string \<Rightarrow> int" where
  "branch_priority branch = pp_value (calculate_pipeline_priority [] branch None)"

text \<open>\<open>run.scheduling_priority or _branch_priority(run.branch or "")\<close>, its label and its reason.\<close>

definition shown_priority :: "pipeline_run \<Rightarrow> int" where
  "shown_priority r = (if pr_scheduling_priority r \<noteq> 0 then pr_scheduling_priority r else branch_priority (pr_branch r))"

definition shown_reason :: "pipeline_run \<Rightarrow> string" where
  "shown_reason r = (if truthy (pr_priority_reason r) then the (pr_priority_reason r) else ''legacy branch priority'')"

definition PRIORITY_COLORS :: "(int \<times> string) list" where
  "PRIORITY_COLORS =
     [(1, ''bg-red-600 text-white''), (2, ''bg-blue-600 text-white''), (3, ''bg-violet-600 text-white''),
      (4, ''bg-amber-500 text-white''), (5, ''bg-teal-500 text-white''), (6, ''bg-slate-400 text-white'')]"

definition priority_color :: "int \<Rightarrow> string" where
  "priority_color p = (case map_of PRIORITY_COLORS p of Some c \<Rightarrow> c | None \<Rightarrow> ''bg-slate-400 text-white'')"

definition activity_event_label :: "pipeline_run \<Rightarrow> string" where
  "activity_event_label r =
     (let repo = repo_short_name (pr_repo_url r); branch = pr_branch r;
          suffix = (if truthy (pr_commit_sha r) then '' ('' @ take 7 (the (pr_commit_sha r)) @ '')'' else []);
          tail = '' - '' @ repo @ suffix
      in if pr_triggered_by r = ''github-tag'' then ''Tag '' @ removeprefix branch ''tag/'' @ tail
         else if pr_triggered_by r = ''github-release'' then ''Release on '' @ branch @ tail
         else if pr_triggered_by r = ''github-pull_request'' then ''Pull request on '' @ branch @ tail
         else ''Push to '' @ branch @ tail)"

section \<open>Lemmas\<close>

text \<open>A clone URL and the page of a repository have one canonical URL and one name.\<close>

lemma rstrip_slash_append:
  assumes "s \<noteq> []" "last s \<noteq> CHR ''/''"
  shows "rstrip_slash (s @ replicate n CHR ''/'') = s"
proof -
  have drop: "dropWhile P (replicate n x @ ys) = dropWhile P ys" if "P x" for P x and ys :: string
    using that by (induction n) simp_all
  obtain c cs where r: "rev s = c # cs" "c \<noteq> CHR ''/''"
    using assms by (cases "rev s") (auto simp: last_rev [of "rev s", simplified, symmetric])
  then show ?thesis by (simp add: rstrip_by_def drop)
qed

lemma removesuffix_append: "t \<noteq> [] \<Longrightarrow> removesuffix (s @ t) t = s"
  by (simp add: removesuffix_def endswith_def)

lemma canonical_variants:
  assumes "u \<noteq> []" "last u \<noteq> CHR ''/''" "\<not> endswith u ''.git''"
  shows "repo_canonical_url (u @ replicate n CHR ''/'') = u"
    and "repo_canonical_url ((u @ ''.git'') @ replicate n CHR ''/'') = u"
proof -
  show "repo_canonical_url (u @ replicate n CHR ''/'') = u"
    using assms(3) by (simp add: repo_canonical_url_def removesuffix_def rstrip_slash_append [OF assms(1,2)])
  have "rstrip_slash ((u @ ''.git'') @ replicate n CHR ''/'') = u @ ''.git''"
    by (rule rstrip_slash_append) simp_all
  then show "repo_canonical_url ((u @ ''.git'') @ replicate n CHR ''/'') = u"
    by (simp only: repo_canonical_url_def) (rule removesuffix_append, simp)
qed

end
