(* ===== verification/UI_Config.thy ===== *)
theory UI_Config
  imports UI_Helpers Json_Text Analysis_Task
begin

text \<open>
  Endpoints of \<open>app/routers/ui.py\<close> that read configuration and history: the build
  events, the stored metrics, the webhook configuration with the detection of an
  ngrok tunnel, the configuration status and the event stream with the client
  registry of \<open>app/scheduler.py\<close>.
\<close>

section \<open>Build events\<close>

definition shown_fixes :: "build_event \<Rightarrow> json" where
  "shown_fixes e =
     (if be_fix_suggestions e = [] then JArr []
      else (case json_loads (be_fix_suggestions e) of Some j \<Rightarrow> j | None \<Rightarrow> JArr []))"

definition event_repo_name :: "build_event \<Rightarrow> string" where
  "event_repo_name e =
     (let parts = py_split CHR ''/'' (be_job_name e) in if 2 \<le> length parts then parts ! 1 else be_job_name e)"

definition build_event_item :: "build_event \<Rightarrow> json" where
  "build_event_item e = JObj
     [(''id'', JInt (be_id e)), (''delivery_id'', JStr (''evt-'' @ str_int (be_id e))),
      (''event_type'', JStr ''build_failure''), (''repo_name'', JStr (event_repo_name e)),
      (''job_name'', JStr (be_job_name e)), (''build_number'', JInt (be_build_number e)),
      (''failure_type'', JStr (be_failure_type e)), (''confidence'', JStr (be_confidence e)),
      (''summary_text'', JStr (be_summary_text e)), (''fix_suggestions'', shown_fixes e),
      (''severity'', JStr (be_severity e)), (''log_url'', JStr (be_log_url e)),
      (''delivery_status'', JStr (be_delivery_status e)), (''processed_at'', JStr (isoformat (be_processed_at e)))]"

text \<open>A negative limit makes the statement fail, which is answered with no events.\<close>

definition latest_events :: "db \<Rightarrow> int \<Rightarrow> build_event list" where
  "latest_events d limit =
     take (nat limit) (sort_key (\<lambda>e. - be_processed_at e) (filter real_build_event (events_t d)))"

definition get_build_events :: "db \<Rightarrow> int \<Rightarrow> json" where
  "get_build_events d limit = JObj [(''events'', JArr (map build_event_item (latest_events d limit)))]"

section \<open>Metrics history\<close>

definition history_sample :: "system_metrics \<Rightarrow> json" where
  "history_sample m = JObj
     [(''timestamp'', JStr (isoformat (sm_timestamp m))), (''uptime_seconds'', JInt (sm_uptime_seconds m)),
      (''memory_used_mb'', JFloat (round2 (of_int (sm_memory_used_bytes m) / (1024 * 1024)))),
      (''memory_total_gb'', JFloat (round2 (of_int (sm_memory_total_bytes m) / (1024 * 1024 * 1024)))),
      (''cpu_percent'', JFloat (sm_cpu_percent m)), (''queue_total'', JInt (int (sm_queue_total m))),
      (''busy_workers'', JInt (int (sm_busy_workers m))), (''chaos_intensity'', JInt (sm_chaos_intensity m))]"

definition metrics_since :: "db \<Rightarrow> time \<Rightarrow> system_metrics list" where
  "metrics_since d cutoff = sort_key sm_timestamp (filter (\<lambda>m. cutoff \<le> sm_timestamp m) (metrics_t d))"

definition get_metrics_history :: "db \<Rightarrow> int \<Rightarrow> int option \<Rightarrow> time \<Rightarrow> json" where
  "get_metrics_history d minutes period_minutes now =
     (let minutes = (case period_minutes of Some p \<Rightarrow> if p \<noteq> 0 then p else minutes | None \<Rightarrow> minutes);
          samples = map history_sample (metrics_since d (now - seconds (60 * minutes)))
      in JObj [(''status'', JStr ''ok''), (''period_minutes'', JInt minutes),
           (''sample_count'', JInt (int (length samples))), (''samples'', JArr samples)])"

section \<open>Webhook configuration and ngrok\<close>

text \<open>\<open>s in x\<close> for a string \<open>s\<close>.\<close>

fun json_contains :: "string \<Rightarrow> json \<Rightarrow> bool res" where
  "json_contains s (JStr x) = Inr (contains s x)"
| "json_contains s (JArr xs) = Inr (JStr s \<in> set xs)"
| "json_contains s (JObj kvs) = Inr (s \<in> fst ` set kvs)"
| "json_contains s _ = Inl TypeError"

text \<open>One tunnel: its URL, if it is the one looked for.\<close>

definition tunnel_url :: "json \<Rightarrow> string option res" where
  "tunnel_url t =
     rbind (jget t ''config'' (JObj [])) (\<lambda>c.
     rbind (jget c ''addr'' (JStr [])) (\<lambda>addr.
     rbind (jget0 t ''proto'') (\<lambda>proto.
       if proto \<noteq> JStr ''https'' then Inr None
       else rbind (json_contains ''8000'' addr) (\<lambda>b.
            rbind (if b then Inr True else json_contains ''localhost'' addr) (\<lambda>ok.
              if \<not> ok then Inr None
              else rbind (jget0 t ''public_url'') (\<lambda>pub.
                if jtruthy pub then rbind (as_str pub) (\<lambda>u. Inr (Some (rstrip_slash u))) else Inr None))))))"

fun first_tunnel :: "json list \<Rightarrow> string option res" where
  "first_tunnel [] = Inr None"
| "first_tunnel (t # ts) = rbind (tunnel_url t) (\<lambda>u. case u of Some x \<Rightarrow> Inr (Some x) | None \<Rightarrow> first_tunnel ts)"

text \<open>Every exception is swallowed.\<close>

definition detect_ngrok_public_url :: "settings \<Rightarrow> (string \<Rightarrow> http_result) \<Rightarrow> string option" where
  "detect_ngrok_public_url st get =
     (case get (NGROK_API_URL st @ ''/api/tunnels'') of
        Inl _ \<Rightarrow> None
      | Inr r \<Rightarrow>
          if status_code r \<noteq> 200 then None
          else (case response_json r of
              None \<Rightarrow> None
            | Some j \<Rightarrow>
                (case rbind (jget j ''tunnels'' (JArr [])) (\<lambda>ts. rbind (json_items ts) first_tunnel) of
                   Inr u \<Rightarrow> u | Inl _ \<Rightarrow> None)))"

definition secret_hint :: "string \<Rightarrow> string" where
  "secret_hint secret = (if secret \<noteq> [] then take 4 secret @ replicate (length secret - 4) CHR ''*'' else [])"

definition get_webhook_config :: "settings \<Rightarrow> (string \<Rightarrow> http_result) \<Rightarrow> string \<Rightarrow> json" where
  "get_webhook_config st get base_url =
     (let secret = GITHUB_WEBHOOK_SECRET st; ngrok = detect_ngrok_public_url st get;
          base = (if truthy ngrok then the ngrok else rstrip_slash base_url)
      in JObj [(''webhook_url'', JStr (base @ ''/github-webhook/'')), (''secret_configured'', JBool (secret \<noteq> [])),
           (''secret_hint'', JStr (secret_hint secret)), (''events'', JArr [JStr ''push'', JStr ''pull_request'']),
           (''content_type'', JStr ''application/json'')])"

definition get_ngrok_url :: "settings \<Rightarrow> (string \<Rightarrow> http_result) \<Rightarrow> json" where
  "get_ngrok_url st get =
     (let url = detect_ngrok_public_url st get in
      if truthy url then JObj [(''url'', JStr (the url @ ''/github-webhook/'')), (''active'', JBool True)]
      else JObj [(''url'', JNull), (''active'', JBool False)])"

definition get_config_status :: "settings \<Rightarrow> (string \<Rightarrow> http_result) \<Rightarrow> json" where
  "get_config_status st get =
     JObj [(''vars'', JObj
       [(''DATABASE_URL'', JBool (DATABASE_URL st \<noteq> [])), (''REDIS_URL'', JBool (REDIS_URL st \<noteq> [])),
        (''JENKINS_URL'', JBool (JENKINS_URL st \<noteq> [])), (''JENKINS_USER'', JBool (JENKINS_USER st \<noteq> [])),
        (''JENKINS_TOKEN'', JBool (JENKINS_TOKEN st \<noteq> [])), (''GROQ_API_KEY'', JBool (GROQ_API_KEY st \<noteq> [])),
        (''ANTHROPIC_API_KEY'', JBool (truthy (ANTHROPIC_API_KEY st))),
        (''SLACK_BOT_TOKEN'', JBool (SLACK_BOT_TOKEN st \<noteq> [])),
        (''GITHUB_WEBHOOK_SECRET'', JBool (GITHUB_WEBHOOK_SECRET st \<noteq> [])),
        (''NGROK_URL'', JBool (truthy (detect_ngrok_public_url st get))),
        (''SMTP_HOST'', JBool (SMTP_HOST st \<noteq> [] \<and> SMTP_HOST st \<noteq> ''localhost''))])]"

section \<open>The event stream\<close>

text \<open>The registered queues, by the client they belong to; each holds at most 20 messages.\<close>

type_synonym 'c registry = "'c \<rightharpoonup> string list"

definition register_sse_client :: "'c \<Rightarrow> 'c registry \<Rightarrow> 'c registry" where
  "register_sse_client c reg = reg(c \<mapsto> [])"

definition unregister_sse_client :: "'c \<Rightarrow> 'c registry \<Rightarrow> 'c registry" where
  "unregister_sse_client c reg = reg(c := None)"

text \<open>The data are given as their JSON text; a full queue loses the message.\<close>

definition sse_message :: "string \<Rightarrow> string \<Rightarrow> string" where
  "sse_message event_type data = ''event: '' @ event_type @ [LF] @ ''data: '' @ data @ [LF, LF]"

definition put_nowait :: "string \<Rightarrow> string list \<Rightarrow> string list" where
  "put_nowait m q = (if length q < 20 then q @ [m] else q)"

definition broadcast_sse :: "string \<Rightarrow> string \<Rightarrow> 'c registry \<Rightarrow> 'c registry" where
  "broadcast_sse event_type data reg = (\<lambda>c. map_option (put_nowait (sse_message event_type data)) (reg c))"

definition CONNECTED :: string where
  "CONNECTED = sse_message ''connected'' ''{\"status\":\"ok\"}''"

definition PING :: string where
  "PING = sse_message ''ping'' ''{}''"

text \<open>One round of the generator: the text it yields; it ends when the client is gone.\<close>

definition stream_round :: "bool \<Rightarrow> 'c \<Rightarrow> 'c registry \<Rightarrow> string option \<times> 'c registry" where
  "stream_round disconnected c reg =
     (if disconnected then (None, unregister_sse_client c reg)
      else (case reg c of
          Some (m # q) \<Rightarrow> (Some m, reg(c \<mapsto> q))
        | _ \<Rightarrow> (Some PING, reg)))"

section \<open>Lemmas\<close>

datatype stream_step = Broadcast string string | Round

text \<open>
  What the generator of a connected client yields in a sequence of broadcasts and
  rounds, and the registry afterwards.
\<close>

fun received :: "'c \<Rightarrow> stream_step list \<Rightarrow> 'c registry \<Rightarrow> string list \<times> 'c registry" where
  "received c [] reg = ([], reg)"
| "received c (Broadcast t x # ss) reg = received c ss (broadcast_sse t x reg)"
| "received c (Round # ss) reg =
     (case stream_round False c reg of (y, reg1) \<Rightarrow>
      case received c ss reg1 of (ys, reg2) \<Rightarrow> ((case y of None \<Rightarrow> ys | Some m \<Rightarrow> m # ys), reg2))"

fun broadcasts :: "stream_step list \<Rightarrow> string list" where
  "broadcasts [] = []"
| "broadcasts (Broadcast t x # ss) = sse_message t x # broadcasts ss"
| "broadcasts (Round # ss) = broadcasts ss"

text \<open>The messages among the yielded texts: without the pings of the idle rounds.\<close>

definition messages :: "string list \<Rightarrow> string list" where
  "messages ys = filter (\<lambda>y. y \<noteq> PING) ys"

lemma messages_simps [simp]:
  "messages [] = []" "messages (PING # ys) = messages ys" "messages (ys @ zs) = messages ys @ messages zs"
  "messages (y # ys) = (if y = PING then messages ys else y # messages ys)"
  by (simp_all add: messages_def)

lemma received_order:
  assumes "reg c = Some q" "length q \<le> 20" "received c ss reg = (ys, reg')"
  shows "\<exists>q'. reg' c = Some q' \<and> length q' \<le> 20 \<and> subseq (messages (ys @ q')) (messages (q @ broadcasts ss))
    \<and> (length q + length (broadcasts ss) \<le> 20 \<longrightarrow> messages (ys @ q') = messages (q @ broadcasts ss))"
  using assms
proof (induction c ss reg arbitrary: q ys reg' rule: received.induct)
  case (1 c reg)
  then show ?case by simp
next
  case (2 c t x ss reg)
  let ?q = "put_nowait (sse_message t x) q"
  have reg: "broadcast_sse t x reg c = Some ?q" using 2(2) by (simp add: broadcast_sse_def)
  have len: "length ?q \<le> 20" using 2(3) by (simp add: put_nowait_def)
  have "received c ss (broadcast_sse t x reg) = (ys, reg')" using 2(4) by simp
  from 2(1) [OF reg len this] obtain q' where q': "reg' c = Some q'" "length q' \<le> 20"
    "subseq (messages (ys @ q')) (messages (?q @ broadcasts ss))"
    "length ?q + length (broadcasts ss) \<le> 20 \<longrightarrow> messages (ys @ q') = messages (?q @ broadcasts ss)"
    by blast
  have "subseq (messages (?q @ broadcasts ss)) (messages (q @ sse_message t x # broadcasts ss))"
    unfolding messages_def by (rule subseq_filter) (simp add: put_nowait_def list_emb_append_mono list_emb_Cons)
  then have "subseq (messages (ys @ q')) (messages (q @ broadcasts (Broadcast t x # ss)))"
    unfolding broadcasts.simps by (rule subseq_order.order_trans [OF q'(3)])
  moreover have "messages (ys @ q') = messages (q @ broadcasts (Broadcast t x # ss))"
    if "length q + length (broadcasts (Broadcast t x # ss)) \<le> 20"
    using that q'(4) by (simp add: put_nowait_def)
  ultimately show ?case using q'(1,2) by blast
next
  case (3 c ss reg)
  obtain y reg1 where r: "stream_round False c reg = (y, reg1)" by (cases "stream_round False c reg")
  obtain zs where zs: "received c ss reg1 = (zs, reg')" "ys = (case y of None \<Rightarrow> zs | Some m \<Rightarrow> m # zs)"
    using 3(4) r by (auto split: prod.splits)
  show ?case
  proof (cases q)
    case Nil
    have "y = Some PING" "reg1 c = Some []" using r 3(2) Nil by (auto simp: stream_round_def)
    then show ?thesis using 3(1) [OF r [symmetric] _ _ zs(1), of "[]"] zs(2) Nil by simp
  next
    case (Cons m q1)
    have y: "y = Some m" "reg1 c = Some q1" using r 3(2) Cons by (auto simp: stream_round_def)
    have "length q1 \<le> 20" using 3(3) Cons by simp
    from 3(1) [OF r [symmetric] y(2) this zs(1)] obtain q' where q': "reg' c = Some q'" "length q' \<le> 20"
      "subseq (messages (zs @ q')) (messages (q1 @ broadcasts ss))"
      "length q1 + length (broadcasts ss) \<le> 20 \<longrightarrow> messages (zs @ q') = messages (q1 @ broadcasts ss)" by blast
    have ys: "ys = m # zs" using zs(2) y(1) by simp
    show ?thesis using q' by (intro exI [of _ q']) (simp add: ys Cons)
  qed
qed

text \<open>A queue is delivered message by message.\<close>

lemma received_queue:
  "reg c = Some q \<Longrightarrow> \<exists>reg'. received c (replicate (length q) Round) reg = (q, reg') \<and> reg' c = Some []"
proof (induction q arbitrary: reg)
  case (Cons m q)
  have r: "stream_round False c reg = (Some m, reg(c \<mapsto> q))" using Cons.prems by (simp add: stream_round_def)
  have "\<exists>reg'. received c (replicate (length q) Round) (reg(c \<mapsto> q)) = (q, reg') \<and> reg' c = Some []"
    by (rule Cons.IH) simp
  then obtain reg' where "received c (replicate (length q) Round) (reg(c \<mapsto> q)) = (q, reg')" "reg' c = Some []" by blast
  then show ?case using r by (intro exI [of _ reg']) (simp del: fun_upd_apply)
qed simp

section \<open>Properties\<close>

text \<open>
  C31: the texts the generator of a client has yielded, pings apart, followed by the
  messages that wait in its queue are, in order, a selection of the messages
  broadcast since the client registered: all of them as long as they are at most
  20, and the queue never holds more.  The rounds that follow yield the waiting
  messages one by one, in their order, and leave the queue empty.
\<close>

theorem stream_in_order:
  assumes "received c ss (register_sse_client c reg) = (ys, reg')"
  shows "\<exists>q. reg' c = Some q \<and> length q \<le> 20 \<and> subseq (messages (ys @ q)) (messages (broadcasts ss))
    \<and> (if length (broadcasts ss) \<le> 20 then messages (ys @ q) = messages (broadcasts ss) else True)
    \<and> fst (received c (replicate (length q) Round) reg') = q
    \<and> snd (received c (replicate (length q) Round) reg') c = Some []"
proof -
  obtain q where q: "reg' c = Some q" "length q \<le> 20" "subseq (messages (ys @ q)) (messages (broadcasts ss))"
    "length (broadcasts ss) \<le> 20 \<longrightarrow> messages (ys @ q) = messages (broadcasts ss)"
    using received_order [OF _ _ assms, of "[]"] by (auto simp: register_sse_client_def)
  moreover obtain r where "received c (replicate (length q) Round) reg' = (q, r)" "r c = Some []"
    using received_queue [where reg = reg' and c = c and q = q] q(1) by blast
  ultimately show ?thesis by auto
qed

text \<open>An idle round, two broadcasts and a round: a ping and the first message; the second one waits.\<close>

theorem stream_in_order_witness:
  "\<exists>reg' q. received (0::nat) [Round, Broadcast ''tick'' ''{}'', Broadcast ''tick'' ''1'', Round] (register_sse_client 0 (\<lambda>_. None))
       = ([PING, sse_message ''tick'' ''{}''], reg')
     \<and> fst (received 0 (replicate (length q) Round) reg') = q
     \<and> messages ([PING, sse_message ''tick'' ''{}''] @ q) = messages [sse_message ''tick'' ''{}'', sse_message ''tick'' ''1'']"
proof -
  let ?ss = "[Round, Broadcast ''tick'' ''{}'', Broadcast ''tick'' ''1'', Round]"
  obtain ys reg' where r: "received (0::nat) ?ss (register_sse_client 0 (\<lambda>_. None)) = (ys, reg')"
    by (cases "received (0::nat) ?ss (register_sse_client 0 (\<lambda>_. None))")
  have ys: "ys = [PING, sse_message ''tick'' ''{}'']"
    using r by (auto simp: stream_round_def register_sse_client_def broadcast_sse_def put_nowait_def)
  from stream_in_order [OF r] obtain q where "fst (received 0 (replicate (length q) Round) reg') = q"
    "messages (ys @ q) = messages (broadcasts ?ss)" by (auto simp del: messages_simps)
  then show ?thesis using r unfolding ys by (intro exI [of _ reg'] exI [of _ q]) (simp del: messages_simps)
qed

text \<open>
  The hint for the webhook secret has the length of the secret and hides
  everything after the fourth character; a secret of up to four characters is
  shown whole.
\<close>

theorem secret_hint_hides:
  "length (secret_hint s) = length s \<and> take 4 (secret_hint s) = take 4 s
    \<and> set (drop 4 (secret_hint s)) \<subseteq> {CHR ''*''} \<and> (secret_hint s = s \<longleftrightarrow> set (drop 4 s) \<subseteq> {CHR ''*''})"
proof (cases "s = []")
  case True
  then show ?thesis by (simp add: secret_hint_def)
next
  case False
  let ?t = "replicate (length s - 4) CHR ''*''"
  have eq: "secret_hint s = take 4 s @ ?t" using False by (simp add: secret_hint_def)
  have "secret_hint s = s \<longleftrightarrow> ?t = drop 4 s"
    unfolding eq by (metis append_take_drop_id same_append_eq)
  moreover have "?t = drop 4 s \<longleftrightarrow> set (drop 4 s) \<subseteq> {CHR ''*''}"
    using replicate_eqI [of "drop 4 s" "length s - 4" "CHR ''*''"] by (auto simp: eq_commute [of _ "drop 4 s"])
  ultimately show ?thesis by (auto simp: eq min_def)
qed

text \<open>
  The dashboard gets the analysed events newest first, at most as many as it
  asks for and no newer one left out, and for an event the analysis stored it
  gets exactly the list of suggestions that was stored as JSON text.
\<close>

theorem build_events_roundtrip:
  "jget0 (build_event_item (new_event b t summary fs severity url raw now)) ''fix_suggestions'' = Inr (JArr (map JStr fs))
    \<and> sorted_wrt (\<lambda>e f. be_processed_at f \<le> be_processed_at e) (latest_events d n)
    \<and> length (latest_events d n) \<le> nat n
    \<and> set (latest_events d n) \<subseteq> {e \<in> set (events_t d). real_build_event e}
    \<and> list_all (\<lambda>e. list_all (\<lambda>f. be_processed_at e \<le> be_processed_at f) (latest_events d n))
        (filter (\<lambda>e. real_build_event e \<and> e \<notin> set (latest_events d n)) (events_t d))"
proof (intro conjI)
  have "shown_fixes (new_event b t summary fs severity url raw now) = JArr (map JStr fs)"
    using loads_dumps_strings [of fs] by (simp add: shown_fixes_def new_event_def dumps_strings_def)
  then show "jget0 (build_event_item (new_event b t summary fs severity url raw now)) ''fix_suggestions'' = Inr (JArr (map JStr fs))"
    by (simp add: build_event_item_def)
  let ?f = "\<lambda>e. - be_processed_at e" and ?xs = "filter real_build_event (events_t d)"
  show "sorted_wrt (\<lambda>e f. be_processed_at f \<le> be_processed_at e) (latest_events d n)"
    using take_sort_key(1) [of ?f "nat n" ?xs] by (simp add: latest_events_def sorted_map)
  show "length (latest_events d n) \<le> nat n" by (simp add: latest_events_def)
  show "set (latest_events d n) \<subseteq> {e \<in> set (events_t d). real_build_event e}"
    using take_sort_key(3) [of "nat n" ?f ?xs] by (auto simp: latest_events_def)
  show "list_all (\<lambda>e. list_all (\<lambda>f. be_processed_at e \<le> be_processed_at f) (latest_events d n))
        (filter (\<lambda>e. real_build_event e \<and> e \<notin> set (latest_events d n)) (events_t d))"
    using take_sort_key(4) [of _ ?xs "nat n" ?f] by (force simp: latest_events_def list_all_iff)
qed

end
