(* ===== verification/UI_Queue.thy ===== *)
theory UI_Queue
  imports UI_Helpers Scheduler "HOL-Library.Multiset"
begin

text \<open>
  The pages of \<open>app/routers/ui.py\<close> about the queue: the explorer
  (\<open>get_queue_data\<close>), the scheduler page (\<open>get_scheduler_data\<close>) and the priority
  queue (\<open>get_priority_queue\<close>).  Which runs a page shows, and in which order, is a
  function on the database; the JSON of a run is a separate one.  Times in
  descending order put nulls first, as PostgreSQL does.
\<close>

section \<open>The explorer\<close>

definition UI_RUN_LIMIT :: nat where "UI_RUN_LIMIT = 500"

abbreviation real_runs :: "db \<Rightarrow> pipeline_run list" where
  "real_runs d \<equiv> filter real_pipeline_run (runs_t d)"

definition queue_item :: "pipeline_run \<Rightarrow> json" where
  "queue_item r = JObj
     [(''id'', JInt (pr_id r)), (''repo'', JStr (repo_short_name (pr_repo_url r))), (''repo_url'', JStr (pr_repo_url r)),
      (''branch'', JStr (pr_branch r)),
      (''commit'', JStr (if truthy (pr_commit_sha r) then take 8 (the (pr_commit_sha r)) else [])),
      (''commit_sha'', j_opt JStr (pr_commit_sha r)), (''author'', j_opt JStr (pr_author r)),
      (''triggered_by'', JStr (pr_triggered_by r)), (''job_name'', j_opt JStr (pr_jenkins_job_name r)),
      (''scheduling_priority'', JInt (pr_scheduling_priority r)),
      (''priority_label'', JStr (priority_label (shown_priority r))), (''priority_reason'', JStr (shown_reason r)),
      (''status'', JStr (run_status_value (pr_status r))), (''queued_at'', JStr (isoformat (pr_queued_at r))),
      (''started_at'', j_time (pr_started_at r)), (''completed_at'', j_time (pr_completed_at r)),
      (''duration_s'', j_opt JInt (pr_duration_s r)), (''retry_count'', JInt (pr_retry_count r)),
      (''max_retries'', JInt (pr_max_retries r)), (''retry_after'', j_time (pr_retry_after r))]"

definition explorer_runs :: "db \<Rightarrow> pipeline_run list" where
  "explorer_runs d = take UI_RUN_LIMIT (sort_key (\<lambda>r. - pr_queued_at r) (real_runs d))"

definition count_by_status :: "pipeline_run list \<Rightarrow> run_status \<Rightarrow> nat" where
  "count_by_status rs s = length (filter (\<lambda>r. pr_status r = s) rs)"

definition runs_by_status :: "db \<Rightarrow> (run_status \<times> pipeline_run list) list" where
  "runs_by_status d = map (\<lambda>s. (s, filter (\<lambda>r. pr_status r = s) (explorer_runs d))) Enum.enum"

definition get_queue_data :: "db \<Rightarrow> json" where
  "get_queue_data d =
     (let counts = count_by_status (real_runs d) in JObj
       [(''runs_by_status'', JObj (map (\<lambda>(s, rs). (run_status_value s, JArr (map queue_item rs))) (runs_by_status d))),
        (''counts_by_status'', JObj (map (\<lambda>s. (run_status_value s, JInt (int (counts s)))) Enum.enum)),
        (''active_total'', JInt (int (counts RS_QUEUED + counts RS_IN_PROGRESS))),
        (''total'', JInt (int (length (real_runs d)))), (''returned'', JInt (int (length (explorer_runs d))))])"

section \<open>The priority queue\<close>

definition priority_queue_runs :: "string \<Rightarrow> db \<Rightarrow> pipeline_run list" where
  "priority_queue_runs mode d =
     take 50 (if mode = ''Priority'' then sort_key (\<lambda>r. (run_priority r, pr_queued_at r)) (filter waiting (runs_t d))
       else sort_key pr_queued_at (filter waiting (runs_t d)))"

definition priority_job :: "time \<Rightarrow> nat \<Rightarrow> pipeline_run \<Rightarrow> json" where
  "priority_job now rank r =
     (let prio = shown_priority r in JObj
       [(''rank'', JInt (int rank)), (''id'', JInt (pr_id r)), (''repo_url'', JStr (pr_repo_url r)),
        (''repo'', JStr (last (py_split CHR ''/'' (removesuffix (rstrip_slash (pr_repo_url r)) ''.git'')))),
        (''branch'', JStr (pr_branch r)), (''author'', JStr (the (or_else (pr_author r) (Some ''system'')))),
        (''priority'', JInt prio), (''priority_label'', JStr (priority_label prio)),
        (''priority_reason'', JStr (shown_reason r)), (''priority_color'', JStr (priority_color prio)),
        (''wait_seconds'', JInt (max 0 (trunc_seconds (now - pr_queued_at r)))),
        (''queued_at'', JStr (isoformat (pr_queued_at r)))])"

definition get_priority_queue :: "string \<Rightarrow> db \<Rightarrow> time \<Rightarrow> json" where
  "get_priority_queue mode d now =
     (let jobs = map (\<lambda>(k, r). priority_job now k r) (enumerate 1 (priority_queue_runs mode d)) in
      JObj [(''mode'', JStr mode), (''jobs'', JArr jobs), (''total'', JInt (int (length jobs)))])"

section \<open>The scheduler page\<close>

definition scheduled_runs :: "db \<Rightarrow> pipeline_run list" where
  "scheduled_runs d = take 50 (sort_key (\<lambda>r. (run_priority r, pr_queued_at r)) (filter waiting (runs_t d)))"

definition arrivals :: "db \<Rightarrow> pipeline_run list" where
  "arrivals d = take 20 (sort_key (\<lambda>r. - pr_queued_at r) (filter waiting (runs_t d)))"

definition inprogress_runs :: "db \<Rightarrow> pipeline_run list" where
  "inprogress_runs d =
     sort_key (\<lambda>r. map_option uminus (pr_started_at r)) (filter (\<lambda>r. pr_status r = RS_IN_PROGRESS) (real_runs d))"

definition running_ids :: "db \<Rightarrow> int list" where
  "running_ids d = map wa_run_id (filter (\<lambda>a. wa_status a = AS_RUNNING) (assigns_t d))"

definition assigned_only :: "db \<Rightarrow> pipeline_run list" where
  "assigned_only d = filter (\<lambda>r. pr_id r \<notin> set (running_ids d)) (inprogress_runs d)"

definition running_runs :: "db \<Rightarrow> pipeline_run list" where
  "running_runs d = filter (\<lambda>r. pr_id r \<in> set (running_ids d)) (inprogress_runs d)"

definition completed_runs_by_time :: "db \<Rightarrow> pipeline_run list" where
  "completed_runs_by_time d =
     sort_key (\<lambda>r. map_option uminus (pr_completed_at r)) (filter (\<lambda>r. pr_status r = RS_COMPLETED) (real_runs d))"

definition avg_duration_s :: "db \<Rightarrow> rat option" where
  "avg_duration_s d =
     (let sample = take 20 (filter (\<lambda>r. pr_duration_s r \<noteq> None) (completed_runs_by_time d)) in
      if sample = [] then None
      else Some (of_int (sum_list (map (\<lambda>r. the (pr_duration_s r)) sample)) / of_nat (length sample)))"

text \<open>\<open>int(x)\<close> of a number rounds towards zero; \<open>//\<close> and \<open>%\<close> round down.\<close>

definition int_of_float :: "rat \<Rightarrow> int" where
  "int_of_float x = (if 0 \<le> x then \<lfloor>x\<rfloor> else \<lceil>x\<rceil>)"

definition fmt_wait :: "rat \<Rightarrow> string" where
  "fmt_wait x =
     (let s = int_of_float x in
      if s < 60 then str_int s @ ''s'' else str_int (s div 60) @ ''m '' @ str_int (s mod 60) @ ''s'')"

definition priority_payload :: "pipeline_run \<Rightarrow> (string \<times> json) list" where
  "priority_payload r =
     [(''priority'', JInt (shown_priority r)), (''priority_label'', JStr (priority_label (shown_priority r))),
      (''priority_reason'', JStr (shown_reason r))]"

definition branch_or_main :: "pipeline_run \<Rightarrow> string" where
  "branch_or_main r = (if pr_branch r \<noteq> [] then pr_branch r else ''main'')"

text \<open>\<open>f"{repo or job or 'job'} / {branch}"\<close>.\<close>

definition run_summary :: "pipeline_run \<Rightarrow> string" where
  "run_summary r =
     (let repo = repo_short_name (pr_repo_url r) in
      (if repo \<noteq> [] then repo else the (or_else (pr_jenkins_job_name r) (Some ''job''))) @ '' / '' @ branch_or_main r)"

definition run_card :: "pipeline_run \<Rightarrow> string \<Rightarrow> json" where
  "run_card r estimated_wait = JObj
     ([(''id'', JInt (pr_id r)), (''repo'', JStr (repo_short_name (pr_repo_url r))), (''branch'', JStr (branch_or_main r)),
       (''author'', j_opt JStr (pr_author r)), (''job_name'', j_opt JStr (pr_jenkins_job_name r)),
       (''estimated_wait'', JStr estimated_wait), (''queued_at'', JStr (isoformat (pr_queued_at r)))]
      @ priority_payload r
      @ [(''summary'', JStr (run_summary r)),
         (''description'', JStr (repo_short_name (pr_repo_url r) @ '' triggered by ''
            @ the (or_else (pr_author r) (Some ''system''))))])"

definition NO_ESTIMATE :: string where "NO_ESTIMATE = [REPLACEMENT]"

definition scheduled_jobs :: "db \<Rightarrow> json list" where
  "scheduled_jobs d =
     map (\<lambda>(k, r). run_card r (case avg_duration_s d of Some a \<Rightarrow> fmt_wait (of_nat k * a) | None \<Rightarrow> NO_ESTIMATE))
       (enumerate 0 (take 20 (scheduled_runs d)))"

definition in_progress_job :: "time \<Rightarrow> pipeline_run \<Rightarrow> json" where
  "in_progress_job now r = JObj
     ([(''id'', JInt (pr_id r)), (''repo'', JStr (repo_short_name (pr_repo_url r))), (''branch'', JStr (branch_or_main r)),
       (''job_name'', j_opt JStr (pr_jenkins_job_name r)), (''started'', j_time (pr_started_at r)),
       (''duration_s'', JInt (case pr_started_at r of Some t \<Rightarrow> trunc_seconds (now - t) | None \<Rightarrow> 0)),
       (''summary'', JStr (run_summary r))] @ priority_payload r)"

definition running_job :: "time \<Rightarrow> pipeline_run \<Rightarrow> json" where
  "running_job now r = JObj
     ([(''id'', JInt (pr_id r)), (''repo'', JStr (repo_short_name (pr_repo_url r))), (''branch'', JStr (branch_or_main r)),
       (''job_name'', j_opt JStr (pr_jenkins_job_name r)), (''started'', j_time (pr_started_at r)),
       (''duration_s'', JInt (case pr_duration_s r of Some s \<Rightarrow> s
          | None \<Rightarrow> (case pr_started_at r of Some t \<Rightarrow> trunc_seconds (now - t) | None \<Rightarrow> 0))),
       (''summary'', JStr (run_summary r))] @ priority_payload r)"

definition completed_job :: "pipeline_run \<Rightarrow> json" where
  "completed_job r = JObj
     ([(''id'', JInt (pr_id r)), (''repo'', JStr (repo_short_name (pr_repo_url r))), (''branch'', JStr (branch_or_main r)),
       (''job_name'', j_opt JStr (pr_jenkins_job_name r)), (''completed'', j_time (pr_completed_at r)),
       (''duration_s'', JInt (case pr_duration_s r of Some s \<Rightarrow> s | None \<Rightarrow> 0)),
       (''summary'', JStr (run_summary r))] @ priority_payload r)"

definition get_scheduler_data :: "db \<Rightarrow> time \<Rightarrow> json" where
  "get_scheduler_data d now =
     (let running = JArr (map (running_job now) (take 10 (running_runs d))) in JObj
       [(''queued'', JArr (map (\<lambda>r. run_card r NO_ESTIMATE) (arrivals d))),
        (''scheduled'', JArr (scheduled_jobs d)),
        (''in_progress'', JArr (map (in_progress_job now) (take 10 (assigned_only d)))),
        (''running'', running),
        (''completed'', JArr (map completed_job (take 10 (completed_runs_by_time d)))),
        (''active'', running)])"

section \<open>Properties\<close>

text \<open>
  The explorer shows the newest real runs, at most 500, each in the column of
  its status, and its counters add up to the number of real runs.
\<close>

theorem explorer_partition:
  "sum_list (map (count_by_status (real_runs d)) Enum.enum) = length (real_runs d)
    \<and> length (explorer_runs d) = min 500 (length (real_runs d))
    \<and> mset (concat (map snd (runs_by_status d))) = mset (explorer_runs d)
    \<and> list_all (\<lambda>(s, rs). list_all (\<lambda>r. pr_status r = s) rs \<and> sorted_wrt (\<lambda>r r'. pr_queued_at r' \<le> pr_queued_at r) rs)
        (runs_by_status d)
    \<and> list_all (\<lambda>r. list_all (\<lambda>r'. pr_queued_at r \<le> pr_queued_at r') (explorer_runs d))
        (filter (\<lambda>r. r \<notin> set (explorer_runs d)) (real_runs d))"
proof (intro conjI)
  show "sum_list (map (count_by_status (real_runs d)) Enum.enum) = length (real_runs d)"
    using length_by_status [of "real_runs d"] by (simp add: enum_run_status_def count_by_status_def)
  show "length (explorer_runs d) = min 500 (length (real_runs d))"
    by (simp add: explorer_runs_def UI_RUN_LIMIT_def)
  have "mset (concat (map (\<lambda>s. filter (\<lambda>r. pr_status r = s) rs) Enum.enum)) = mset rs" for rs :: "pipeline_run list"
  proof (induction rs)
    case (Cons r rs)
    then show ?case by (cases "pr_status r") (simp_all add: enum_run_status_def)
  qed (simp add: enum_run_status_def)
  then show "mset (concat (map snd (runs_by_status d))) = mset (explorer_runs d)"
    by (simp add: runs_by_status_def comp_def)
  let ?f = "\<lambda>r. - pr_queued_at r"
  have "sorted_wrt (\<lambda>r r'. pr_queued_at r' \<le> pr_queued_at r) (explorer_runs d)"
    using take_sort_key(1) [of ?f UI_RUN_LIMIT "real_runs d"] by (simp add: explorer_runs_def sorted_map)
  then show "list_all (\<lambda>(s, rs). list_all (\<lambda>r. pr_status r = s) rs
      \<and> sorted_wrt (\<lambda>r r'. pr_queued_at r' \<le> pr_queued_at r) rs) (runs_by_status d)"
    by (simp add: runs_by_status_def list_all_iff sorted_wrt_filter)
  show "list_all (\<lambda>r. list_all (\<lambda>r'. pr_queued_at r \<le> pr_queued_at r') (explorer_runs d))
        (filter (\<lambda>r. r \<notin> set (explorer_runs d)) (real_runs d))"
    using take_sort_key(4) [of _ "real_runs d" UI_RUN_LIMIT ?f] by (force simp: explorer_runs_def list_all_iff)
qed

text \<open>
  C29: The priority queue shows the waiting runs in the order of dispatch: the runs
  the next tick reads are its first ones, in either mode.  The scheduler page
  promises the same, but always shows the order of the mode \<open>Priority\<close>.
\<close>

theorem priority_queue_is_dispatch_order:
  assumes "MAX_CONCURRENT_EXECUTIONS st \<le> 50"
  shows "queued_runs st mode d = take (MAX_CONCURRENT_EXECUTIONS st) (priority_queue_runs mode d)
    \<and> scheduled_runs d = priority_queue_runs ''Priority'' d"
  using assms by (simp add: queued_runs_def priority_queue_runs_def queue_order_def scheduled_runs_def min_def)

theorem priority_queue_is_dispatch_order_witness:
  "MAX_CONCURRENT_EXECUTIONS default_settings \<le> 50
    \<and> queued_runs default_settings ''FIFO'' queue_db = take (MAX_CONCURRENT_EXECUTIONS default_settings) (priority_queue_runs ''FIFO'' queue_db)
    \<and> map pr_id (priority_queue_runs ''FIFO'' queue_db) \<noteq> map pr_id (scheduled_runs queue_db)"
proof -
  have "MAX_CONCURRENT_EXECUTIONS default_settings \<le> 50" by (simp add: default_settings_def)
  moreover have "map pr_id (priority_queue_runs ''FIFO'' queue_db) \<noteq> map pr_id (scheduled_runs queue_db)" by code_simp
  ultimately show ?thesis using priority_queue_is_dispatch_order [of default_settings "''FIFO''" queue_db] by blast
qed

end
