(* ===== verification/Request_Log.thy ===== *)
theory Request_Log
  imports Serialise
begin

text \<open>
  \<open>app/request_log.py\<close>: the in-memory log of requests, a deque of the newest 100
  entries and per route the newest 50 latencies and error marks, newest first.
  The middleware of \<open>main.py\<close> fills it.
\<close>

section \<open>Definitions\<close>

record request =
  rq_method :: string
  rq_path :: string
  rq_status :: int
  rq_latency :: rat
  rq_time :: time

record log_entry =
  le_id :: string
  le_timestamp :: string
  le_method :: string
  le_route :: string
  le_status :: string
  le_latency :: rat

record request_log =
  rl_log :: "log_entry list"
  rl_latencies :: "string \<Rightarrow> rat list"
  rl_errors :: "string \<Rightarrow> nat list"
  rl_counter :: nat

definition empty_log :: request_log where
  "empty_log = \<lparr>rl_log = [], rl_latencies = (\<lambda>_. []), rl_errors = (\<lambda>_. []), rl_counter = 0\<rparr>"

text \<open>\<open>appendleft\<close> on a \<open>deque(maxlen=n)\<close>.\<close>

definition push_front :: "nat \<Rightarrow> 'a \<Rightarrow> 'a list \<Rightarrow> 'a list" where
  "push_front n x xs = take n (x # xs)"

definition round1 :: "rat \<Rightarrow> rat" where
  "round1 x = of_int (round_half_even (x * 10)) / 10"

definition entry_of :: "nat \<Rightarrow> request \<Rightarrow> log_entry" where
  "entry_of k q = \<lparr>le_id = ''#'' @ pad_int 4 (int k), le_timestamp = isoformat (rq_time q), le_method = rq_method q,
     le_route = rq_path q, le_status = str_int (rq_status q), le_latency = round1 (rq_latency q)\<rparr>"

definition error_mark :: "request \<Rightarrow> nat" where
  "error_mark q = (if 400 \<le> rq_status q then 1 else 0)"

definition log_request :: "request_log \<Rightarrow> request \<Rightarrow> request_log" where
  "log_request l q =
     l\<lparr>rl_counter := rl_counter l + 1,
       rl_log := push_front 100 (entry_of (rl_counter l + 1) q) (rl_log l),
       rl_latencies := (rl_latencies l)(rq_path q := push_front 50 (rq_latency q) (rl_latencies l (rq_path q))),
       rl_errors := (rl_errors l)(rq_path q := push_front 50 (error_mark q) (rl_errors l (rq_path q)))\<rparr>"

definition get_recent :: "request_log \<Rightarrow> nat \<Rightarrow> log_entry list" where
  "get_recent l n = take n (rl_log l)"

text \<open>A nonnegative number with one decimal.\<close>

definition one_decimal :: "rat \<Rightarrow> string" where
  "one_decimal x = (let t = round_half_even (x * 10) in str_int (t div 10) @ ''.'' @ str_int (t mod 10))"

definition error_rate :: "nat list \<Rightarrow> rat" where
  "error_rate errs = rat_of_nat (sum_list errs) / rat_of_nat (length errs) * 100"

definition get_route_stats :: "request_log \<Rightarrow> string \<Rightarrow> string \<times> string" where
  "get_route_stats l path =
     (let lats = rl_latencies l path; errs = rl_errors l path in
      (if lats \<noteq> [] then str_int (round_half_even (sum_list lats / rat_of_nat (length lats))) @ ''ms'' else ''-'',
       if errs \<noteq> [] then one_decimal (error_rate errs) @ ''%'' else ''-''))"

text \<open>The middleware: static assets and the icon are not logged.\<close>

definition tracked :: "string \<Rightarrow> bool" where
  "tracked path \<longleftrightarrow> \<not> startswith path ''/assets'' \<and> path \<noteq> ''/favicon.ico''"

definition track_http_request :: "request_log \<Rightarrow> request \<Rightarrow> request_log" where
  "track_http_request l q = (if tracked (rq_path q) then log_request l q else l)"

section \<open>Lemmas\<close>

lemma push_front_take: "push_front n x (take n xs) = take n (x # xs)"
  by (cases n) (simp_all add: push_front_def min_def)

lemma rev_numbered:
  "map (\<lambda>(k, q). entry_of k q) (rev (enumerate 1 (qs @ [q]))) =
   entry_of (length qs + 1) q # map (\<lambda>(k, q). entry_of k q) (rev (enumerate 1 qs))"
  by (simp add: enumerate_append_eq)

lemma log_after:
  "fold (\<lambda>q l. log_request l q) qs empty_log =
    \<lparr>rl_log = take 100 (map (\<lambda>(k, q). entry_of k q) (rev (enumerate 1 qs))),
     rl_latencies = (\<lambda>p. take 50 (map rq_latency (rev (filter (\<lambda>q. rq_path q = p) qs)))),
     rl_errors = (\<lambda>p. take 50 (map error_mark (rev (filter (\<lambda>q. rq_path q = p) qs)))),
     rl_counter = length qs\<rparr>"
proof (induction qs rule: rev_induct)
  case Nil
  then show ?case by (simp add: empty_log_def)
next
  case (snoc q qs)
  show ?case
    unfolding fold_append o_apply snoc.IH rev_numbered
    by (simp add: log_request_def push_front_take fun_eq_iff)
qed

lemma tracked_log: "fold (\<lambda>q l. track_http_request l q) qs l = fold (\<lambda>q l. log_request l q) (filter (\<lambda>q. tracked (rq_path q)) qs) l"
  by (induction qs arbitrary: l) (simp_all add: track_http_request_def)

lemma marks_le: "list_all (\<lambda>e. e \<le> 1) es \<Longrightarrow> sum_list es \<le> length es"
  by (induction es) auto

lemma error_rate_range:
  assumes "es \<noteq> []" "list_all (\<lambda>e. e \<le> 1) es"
  shows "0 \<le> error_rate es \<and> error_rate es \<le> 100"
proof -
  have "rat_of_nat (sum_list es) \<le> rat_of_nat (length es)" using marks_le [OF assms(2)] by simp
  then have "rat_of_nat (sum_list es) / rat_of_nat (length es) \<le> 1"
    using assms(1) by (simp add: divide_le_eq)
  then have "0 \<le> 100 * (1 - rat_of_nat (sum_list es) / rat_of_nat (length es))" by simp
  then show ?thesis by (simp add: error_rate_def algebra_simps)
qed

section \<open>Properties\<close>

text \<open>
  C30: After any sequence of requests the feed shows the newest tracked ones, at
  most 100, newest first and numbered in the order of their arrival, and the
  statistics of a route are those of its newest 50 requests, whose error rate is
  a percentage.
\<close>

theorem request_feed:
  fixes qs :: "request list"
  defines "seen \<equiv> filter (\<lambda>q. tracked (rq_path q)) qs"
  defines "l \<equiv> fold (\<lambda>q l. track_http_request l q) qs empty_log"
  shows "get_recent l n = take (min n 100) (map (\<lambda>(k, q). entry_of k q) (rev (enumerate 1 seen)))
    \<and> rl_latencies l p = take 50 (map rq_latency (rev (filter (\<lambda>q. rq_path q = p) seen)))
    \<and> rl_errors l p = take 50 (map error_mark (rev (filter (\<lambda>q. rq_path q = p) seen)))
    \<and> (rl_errors l p = [] \<or> 0 \<le> error_rate (rl_errors l p) \<and> error_rate (rl_errors l p) \<le> 100)"
proof -
  have l: "l = fold (\<lambda>q l. log_request l q) seen empty_log" unfolding l_def seen_def by (rule tracked_log)
  have "list_all (\<lambda>e. e \<le> 1) (rl_errors l p)"
    by (auto simp: l log_after list_all_iff error_mark_def dest!: in_set_takeD)
  then have "rl_errors l p = [] \<or> 0 \<le> error_rate (rl_errors l p) \<and> error_rate (rl_errors l p) \<le> 100"
    using error_rate_range by blast
  then show ?thesis by (simp add: l log_after get_recent_def)
qed

end
