(* ===== verification/UI_Reports.thy ===== *)
theory UI_Reports
  imports UI_Queue Metrics Request_Log "HOL-Library.List_Lexorder" "HOL-Library.Char_ord"
begin

text \<open>
  The pages of \<open>app/routers/ui.py\<close> that aggregate: repositories and branches,
  failure analytics and the bootstrap document.  \<open>GROUP BY\<close> is a count per
  distinct key; where the query gives no order the keys come in the order of
  their first rows.
\<close>

section \<open>Repositories\<close>

type_synonym count_row = "(string \<times> string \<times> run_status) \<times> nat"

definition group_count :: "('a \<Rightarrow> 'k) \<Rightarrow> 'a list \<Rightarrow> ('k \<times> nat) list" where
  "group_count f xs = map (\<lambda>k. (k, length (filter (\<lambda>x. f x = k) xs))) (dedup (map f xs))"

definition repository_rows :: "db \<Rightarrow> count_row list" where
  "repository_rows d =
     sort_key (\<lambda>((u, b, s), n). u) (group_count (\<lambda>r. (pr_repo_url r, pr_branch r, pr_status r)) (real_runs d))"

definition branch_or_unknown :: "string \<Rightarrow> string" where
  "branch_or_unknown b = (if b \<noteq> [] then b else ''unknown'')"

text \<open>The nested dictionaries: the rows of a canonical URL, of a branch, of a status.\<close>

definition rows_of_repo :: "string \<Rightarrow> count_row list \<Rightarrow> count_row list" where
  "rows_of_repo u rows = filter (\<lambda>((u', b, s), n). repo_canonical_url u' = u) rows"

definition rows_of_branch :: "string \<Rightarrow> count_row list \<Rightarrow> count_row list" where
  "rows_of_branch b rows = filter (\<lambda>((u, b', s), n). branch_or_unknown b' = b) rows"

definition status_total :: "run_status \<Rightarrow> count_row list \<Rightarrow> nat" where
  "status_total s rows = sum_list (map snd (filter (\<lambda>((u, b, s'), n). s' = s) rows))"

record branch_card =
  bc_branch :: string
  bc_priority :: int
  bc_counts :: "(run_status \<times> nat) list"
  bc_total :: nat

record repo_card =
  rc_repo_url :: string
  rc_repo_name :: string
  rc_branches :: "branch_card list"
  rc_total_runs :: nat

definition branch_card_of :: "count_row list \<Rightarrow> string \<Rightarrow> branch_card" where
  "branch_card_of rows b =
     (let rs = rows_of_branch b rows in
      \<lparr>bc_branch = b, bc_priority = branch_priority b, bc_counts = map (\<lambda>s. (s, status_total s rs)) Enum.enum,
       bc_total = sum_list (map snd rs)\<rparr>)"

definition repo_card_of :: "count_row list \<Rightarrow> string \<Rightarrow> repo_card" where
  "repo_card_of rows u =
     (let rs = rows_of_repo u rows;
          branches = sort_key bc_priority (map (branch_card_of rs)
            (sort (remdups (map (\<lambda>((u, b, s), n). branch_or_unknown b) rs))))
      in \<lparr>rc_repo_url = u, rc_repo_name = repo_short_name u, rc_branches = branches,
          rc_total_runs = sum_list (map bc_total branches)\<rparr>)"

definition repo_cards :: "db \<Rightarrow> repo_card list" where
  "repo_cards d =
     (let rows = repository_rows d in
      map (repo_card_of rows) (sort (remdups (map (\<lambda>((u, b, s), n). repo_canonical_url u) rows))))"

definition branch_json :: "branch_card \<Rightarrow> json" where
  "branch_json b = JObj
     [(''branch'', JStr (bc_branch b)), (''priority'', JInt (bc_priority b)),
      (''priority_label'', JStr (priority_label (bc_priority b))),
      (''priority_color'', JStr (priority_color (bc_priority b))),
      (''counts'', JObj (map (\<lambda>(s, n). (run_status_value s, JInt (int n))) (bc_counts b))),
      (''total'', JInt (int (bc_total b)))]"

definition get_repositories :: "db \<Rightarrow> json" where
  "get_repositories d = JObj [(''repositories'', JArr (map (\<lambda>c. JObj
     [(''repo_url'', JStr (rc_repo_url c)), (''repo_name'', JStr (rc_repo_name c)),
      (''branches'', JArr (map branch_json (rc_branches c))), (''total_runs'', JInt (int (rc_total_runs c)))])
     (repo_cards d)))]"

section \<open>Analytics\<close>

abbreviation real_events :: "db \<Rightarrow> build_event list" where
  "real_events d \<equiv> filter real_build_event (events_t d)"

definition day_of :: "time \<Rightarrow> int" where
  "day_of t = t div 86400000000"

definition day_text :: "int \<Rightarrow> string" where
  "day_text day = (let (y, m, d) = civil_of_days day in pad_int 4 y @ ''-'' @ pad_int 2 m @ ''-'' @ pad_int 2 d)"

definition failures_by_day :: "db \<Rightarrow> time \<Rightarrow> (int \<times> nat) list" where
  "failures_by_day d now =
     sort_key fst (group_count (\<lambda>e. day_of (be_processed_at e))
       (filter (\<lambda>e. now - seconds (30 * 86400) \<le> be_processed_at e) (real_events d)))"

definition failure_types :: "db \<Rightarrow> (string \<times> nat) list" where
  "failure_types d = sort_key (\<lambda>(t, n). - int n) (group_count be_failure_type (real_events d))"

definition top_failing_jobs :: "db \<Rightarrow> (string \<times> nat) list" where
  "top_failing_jobs d = take 5 (sort_key (\<lambda>(j, n). - int n) (group_count be_job_name (real_events d)))"

definition timed_runs :: "db \<Rightarrow> pipeline_run list" where
  "timed_runs d = filter (\<lambda>r. pr_duration_s r \<noteq> None) (real_runs d)"

definition durations :: "db \<Rightarrow> run_status \<Rightarrow> int list" where
  "durations d s = map (\<lambda>r. the (pr_duration_s r)) (filter (\<lambda>r. pr_status r = s) (timed_runs d))"

definition avg_durations :: "db \<Rightarrow> (run_status \<times> rat \<times> nat) list" where
  "avg_durations d =
     map (\<lambda>(s, n). (s, round1 (of_int (sum_list (durations d s)) / of_nat n), n)) (group_count pr_status (timed_runs d))"

definition or_unknown :: "string \<Rightarrow> string" where
  "or_unknown s = (if s \<noteq> [] then s else ''unknown'')"

definition get_analytics :: "db \<Rightarrow> time \<Rightarrow> json" where
  "get_analytics d now =
     (let types = failure_types d; jobs = top_failing_jobs d in JObj
       [(''failures_by_day'', JArr (map (\<lambda>(day, n). JObj [(''date'', JStr (day_text day)), (''count'', JInt (int n))])
           (failures_by_day d now))),
        (''failure_type_dist'', JArr (map (\<lambda>(t, n). JObj [(''type'', JStr (or_unknown t)), (''count'', JInt (int n))]) types)),
        (''top_failing_jobs'', JArr (map (\<lambda>(j, n). JObj [(''job'', JStr (or_unknown j)), (''failures'', JInt (int n))]) jobs)),
        (''avg_build_duration'', JArr (map (\<lambda>(s, a, n). JObj [(''status'', JStr (run_status_value s)),
           (''avg_s'', JFloat a), (''count'', JInt (int n))]) (avg_durations d))),
        (''summary'', JObj
          [(''total_failures_30d'', JInt (int (sum_list (map snd (failures_by_day d now))))),
           (''most_common_type'', JStr (case types of [] \<Rightarrow> NO_ESTIMATE | (t, n) # _ \<Rightarrow> or_unknown t)),
           (''worst_job'', JStr (case jobs of [] \<Rightarrow> NO_ESTIMATE | (j, n) # _ \<Rightarrow> or_unknown j))])])"

section \<open>Bootstrap\<close>

definition real_stages :: "db \<Rightarrow> stage_execution list" where
  "real_stages d = filter (\<lambda>s. list_ex (\<lambda>r. pr_id r = se_run_id s) (real_runs d)) (stages_t d)"

text \<open>\<open>sort(reverse=True)\<close> keeps the order of equal elements.\<close>

definition sort_desc :: "('a \<Rightarrow> 'b::linorder) \<Rightarrow> 'a list \<Rightarrow> 'a list" where
  "sort_desc f xs = rev (sort_key f (rev xs))"

definition latest_runs :: "db \<Rightarrow> pipeline_run list" where
  "latest_runs d = sort_desc (\<lambda>r. isoformat (pr_queued_at r)) (concat (map snd (get_dashboard_snapshot d 200)))"

definition avg_wait_seconds :: "db \<Rightarrow> time \<Rightarrow> rat" where
  "avg_wait_seconds d now =
     (let queued = filter (\<lambda>r. pr_status r = RS_QUEUED) (latest_runs d) in
      if queued = [] then 0
      else round1 (sum_list (map (\<lambda>r. max 0 (of_int (now - pr_queued_at r) / 1000000)) queued) / of_nat (max 1 (length queued))))"

definition worker_count :: "db \<Rightarrow> worker_status \<Rightarrow> nat" where
  "worker_count d s = length (filter (\<lambda>w. w_status w = s) (workers_t d))"

definition log_entry_json :: "log_entry \<Rightarrow> json" where
  "log_entry_json e = JObj
     [(''id'', JStr (le_id e)), (''timestamp'', JStr (le_timestamp e)), (''method'', JStr (le_method e)),
      (''route'', JStr (le_route e)), (''status'', JStr (le_status e)), (''latency_ms'', JFloat (le_latency e))]"

definition endpoint_rows :: "request_log \<Rightarrow> json list" where
  "endpoint_rows l =
     map (\<lambda>r. JObj [(''route'', JStr r), (''status'', JStr ''Healthy''), (''latency'', JStr (fst (get_route_stats l r))),
         (''rate'', JStr (snd (get_route_stats l r)))])
       [''/ui/bootstrap'', ''/ui/queue'', ''/ui/scheduler'', ''/ui/build_events'']"

definition bootstrap_event :: "build_event \<Rightarrow> json" where
  "bootstrap_event e = JObj
     [(''id'', JInt (be_id e)), (''job_name'', JStr (be_job_name e)), (''build_number'', JInt (be_build_number e)),
      (''failure_type'', JStr (be_failure_type e)), (''severity'', JStr (be_severity e)),
      (''summary_text'', JStr (be_summary_text e)), (''processed_at'', JStr (isoformat (be_processed_at e)))]"

definition activity :: "pipeline_run \<Rightarrow> json" where
  "activity r = JObj
     [(''timestamp'', JStr (isoformat (pr_queued_at r))),
      (''source'', JStr (if truthy (pr_author r) then the (pr_author r) else clean_trigger (pr_triggered_by r))),
      (''event'', JStr (activity_event_label r)), (''status'', JStr (run_status_value (pr_status r)))]"

definition table_rows :: "db \<Rightarrow> (string \<times> nat) list" where
  "table_rows d =
     [(''pipeline_runs'', length (real_runs d)), (''stage_executions'', length (real_stages d)),
      (''build_events'', length (real_events d)), (''workers'', length (workers_t d))]"

definition queue_section :: "db \<Rightarrow> time \<Rightarrow> json" where
  "queue_section d now =
     (let n = count_by_status (real_runs d) in JObj
       [(''queued'', JInt (int (n RS_QUEUED))), (''in_progress'', JInt (int (n RS_IN_PROGRESS))),
        (''completed'', JInt (int (n RS_COMPLETED))), (''failed'', JInt (int (n RS_FAILED))),
        (''aborted'', JInt (int (n RS_ABORTED))),
        (''total'', JInt (int (sum_list (map n Enum.enum)))), (''avg_wait_seconds'', JFloat (avg_wait_seconds d now)),
        (''latest_runs'', JArr (map (\<lambda>r. serialise_run r (run_stages d (pr_id r))) (take 12 (latest_runs d)))),
        (''database'', JObj
          [(''total_records'', JInt (int (sum_list (map snd (table_rows d))))),
           (''tables'', JArr (map (\<lambda>(t, k). JObj [(''name'', JStr t), (''rows'', JInt (int k))]) (table_rows d)))])])"

definition bootstrap :: "db \<Rightarrow> request_log \<Rightarrow> process_stats \<Rightarrow> string \<Rightarrow> time \<Rightarrow> json" where
  "bootstrap d l ps port now =
     (let chaos = compute_chaos (get_dashboard_snapshot d 200) (busy_count d) in JObj
       [(''health'', JObj [(''status'', JStr ''ok''), (''version'', JStr ''1.2.0''),
           (''chaos_intensity'', JInt (fst chaos)), (''chaos_level'', JStr (snd chaos))]),
        (''backend'', JObj [(''status'', JStr ''RUNNING''), (''technology'', JStr ''FastAPI / Python''),
           (''port'', JStr port), (''uptime'', JStr (format_duration (ps_uptime_seconds ps))),
           (''memory_used'', JInt (ps_memory_rss ps)), (''memory_total'', JInt (ps_memory_total ps)),
           (''cpu_percent'', JFloat (ps_cpu_percent ps))]),
        (''queue'', queue_section d now),
        (''workers'', JObj [(''total'', JInt (int (length (workers_t d)))), (''idle'', JInt (int (worker_count d WS_IDLE))),
           (''busy'', JInt (int (busy_count d))), (''offline'', JInt (int (worker_count d WS_OFFLINE))),
           (''items'', JArr (map serialise_worker (sort_key w_id (workers_t d))))]),
        (''backend_routes'', JArr (endpoint_rows l)),
        (''backend_request_feed'', JArr (map log_entry_json (get_recent l 20))),
        (''build_events'', JArr (map bootstrap_event (take 8 (sort_key (\<lambda>e. - be_processed_at e) (real_events d))))),
        (''activity_stream'', JArr (map activity (take 15 (latest_runs d))))])"

text \<open>\<open>GET /health\<close>, with the answer of the connection test.\<close>

definition health :: "bool \<Rightarrow> json" where
  "health db_up = JObj [(''status'', JStr (if db_up then ''ok'' else ''degraded'')), (''version'', JStr ''1.2.0''),
     (''db'', JStr (if db_up then ''ok'' else ''error''))]"

section \<open>Lemmas\<close>

lemma sum_filter_sort_key: "sum_list (map g (filter P (sort_key f xs))) = (sum_list (map g (filter P xs)) :: nat)"
proof -
  have "mset (map g (filter P (sort_key f xs))) = mset (map g (filter P xs))" by simp
  then show ?thesis by (metis sum_mset_sum_list)
qed

lemma group_count_total:
  "sum_list (map snd (filter (\<lambda>(k, n). P k) (group_count f xs))) = length (filter (\<lambda>x. P (f x)) xs)"
proof -
  let ?ks = "filter P (dedup (map f xs))" and ?xs = "filter (\<lambda>x. P (f x)) xs"
  have "sum_list (map snd (filter (\<lambda>(k, n). P k) (group_count f xs)))
      = sum_list (map (\<lambda>k. length (filter (\<lambda>x. f x = k) xs)) ?ks)"
    by (simp add: group_count_def filter_map comp_def)
  also have "\<dots> = sum_list (map (\<lambda>k. sum_list (map (\<lambda>_. 1) (filter (\<lambda>x. f x = k) ?xs))) ?ks)"
  proof -
    have "filter (\<lambda>x. f x = k) xs = filter (\<lambda>x. f x = k) ?xs" if "P k" for k
      using that by (simp add: conj_commute) (metis (mono_tags, lifting))
    then show ?thesis by (intro arg_cong [where f = sum_list] map_cong) (simp_all add: sum_list_triv)
  qed
  also have "\<dots> = sum_list (map (\<lambda>_. 1) ?xs)"
    by (rule sum_by_key) (auto simp: dedup_facts)
  finally show ?thesis by (simp add: sum_list_triv)
qed

lemma repository_rows_total:
  "sum_list (map snd (filter (\<lambda>(k, n). P k) (repository_rows d))) =
   length (filter (\<lambda>r. P (pr_repo_url r, pr_branch r, pr_status r)) (real_runs d))"
  unfolding repository_rows_def sum_filter_sort_key group_count_total ..

lemma branch_card_totals:
  "bc_total (branch_card_of (rows_of_repo u (repository_rows d)) b) =
     length (filter (\<lambda>r. repo_canonical_url (pr_repo_url r) = u \<and> branch_or_unknown (pr_branch r) = b) (real_runs d))"
  "bc_counts (branch_card_of (rows_of_repo u (repository_rows d)) b) =
     map (\<lambda>s. (s, length (filter (\<lambda>r. repo_canonical_url (pr_repo_url r) = u \<and> branch_or_unknown (pr_branch r) = b
       \<and> pr_status r = s) (real_runs d)))) Enum.enum"
proof -
  let ?P = "\<lambda>(u', b', s). repo_canonical_url u' = u \<and> branch_or_unknown b' = b"
  have rows: "rows_of_branch b (rows_of_repo u rows) = filter (\<lambda>(k, n). ?P k) rows" for rows
    by (auto simp: rows_of_branch_def rows_of_repo_def intro!: filter_cong)
  show "bc_total (branch_card_of (rows_of_repo u (repository_rows d)) b) =
     length (filter (\<lambda>r. repo_canonical_url (pr_repo_url r) = u \<and> branch_or_unknown (pr_branch r) = b) (real_runs d))"
    by (simp add: branch_card_of_def Let_def rows repository_rows_total)
  have "status_total s (filter (\<lambda>(k, n). ?P k) (repository_rows d)) =
      length (filter (\<lambda>r. repo_canonical_url (pr_repo_url r) = u \<and> branch_or_unknown (pr_branch r) = b \<and> pr_status r = s)
        (real_runs d))" for s
  proof -
    have "filter (\<lambda>((u, b, s'), n). s' = s) (filter (\<lambda>(k, n). ?P k) rows)
        = filter (\<lambda>(k, n). (case k of (u', b', s') \<Rightarrow> repo_canonical_url u' = u \<and> branch_or_unknown b' = b \<and> s' = s)) rows" for rows :: "count_row list"
      by (auto intro!: filter_cong)
    then show ?thesis by (simp add: status_total_def repository_rows_total)
  qed
  then show "bc_counts (branch_card_of (rows_of_repo u (repository_rows d)) b) =
     map (\<lambda>s. (s, length (filter (\<lambda>r. repo_canonical_url (pr_repo_url r) = u \<and> branch_or_unknown (pr_branch r) = b
       \<and> pr_status r = s) (real_runs d)))) Enum.enum"
    by (simp add: branch_card_of_def Let_def rows)
qed

lemma repo_total:
  "rc_total_runs (repo_card_of rows u) = sum_list (map snd (rows_of_repo u rows))"
proof -
  let ?rs = "rows_of_repo u rows" and ?key = "\<lambda>((u, b, s), n). branch_or_unknown b"
  have sum: "sum_list (map bc_total (sort_key f xs)) = sum_list (map bc_total xs)" for f :: "branch_card \<Rightarrow> int" and xs
    using sum_filter_sort_key [of bc_total "\<lambda>_. True" f xs] by simp
  have b: "bc_total (branch_card_of ?rs b) = sum_list (map snd (filter (\<lambda>x. ?key x = b) ?rs))" for b
    by (simp add: branch_card_of_def Let_def rows_of_branch_def case_prod_unfold)
  have "rc_total_runs (repo_card_of rows u) = sum_list (map (\<lambda>b. bc_total (branch_card_of ?rs b)) (sort (remdups (map ?key ?rs))))"
    by (simp add: repo_card_of_def Let_def sum comp_def)
  also have "\<dots> = sum_list (map snd ?rs)"
    unfolding b by (rule sum_by_key) auto
  finally show ?thesis .
qed

section \<open>Properties\<close>

text \<open>
  The repository page accounts for every real run exactly once: there is one
  card per canonical URL, a branch of a card counts the runs of that repository
  and branch, by status, and the totals of the cards add up to the number of real
  runs.
\<close>

theorem repositories_account:
  "sorted (map rc_repo_url (repo_cards d)) \<and> distinct (map rc_repo_url (repo_cards d))
    \<and> sum_list (map rc_total_runs (repo_cards d)) = length (real_runs d)
    \<and> list_all (\<lambda>c. sorted (map bc_priority (rc_branches c)) \<and> rc_total_runs c = sum_list (map bc_total (rc_branches c))
        \<and> list_all (\<lambda>b. bc_total b = length (filter (\<lambda>r. repo_canonical_url (pr_repo_url r) = rc_repo_url c
              \<and> branch_or_unknown (pr_branch r) = bc_branch b) (real_runs d))
            \<and> bc_counts b = map (\<lambda>s. (s, length (filter (\<lambda>r. repo_canonical_url (pr_repo_url r) = rc_repo_url c
              \<and> branch_or_unknown (pr_branch r) = bc_branch b \<and> pr_status r = s) (real_runs d)))) Enum.enum)
          (rc_branches c)) (repo_cards d)"
proof -
  let ?rows = "repository_rows d" and ?key = "\<lambda>((u, b, s), n). repo_canonical_url u"
  let ?us = "sort (remdups (map ?key ?rows))"
  have url: "rc_repo_url (repo_card_of rows u) = u" for rows u by (simp add: repo_card_of_def Let_def)
  have cards: "repo_cards d = map (repo_card_of ?rows) ?us" by (simp add: repo_cards_def Let_def)
  have urls: "map rc_repo_url (repo_cards d) = ?us" by (simp add: cards comp_def url)
  have rows: "rows_of_repo u ?rows = filter (\<lambda>x. ?key x = u) ?rows" for u
    by (simp add: rows_of_repo_def case_prod_unfold)
  have "sum_list (map rc_total_runs (repo_cards d)) = sum_list (map (\<lambda>u. sum_list (map snd (filter (\<lambda>x. ?key x = u) ?rows))) ?us)"
    by (simp add: cards comp_def repo_total rows)
  also have "\<dots> = sum_list (map snd ?rows)" by (rule sum_by_key) auto
  also have "\<dots> = length (real_runs d)" using repository_rows_total [of "\<lambda>_. True" d] by (simp add: case_prod_unfold)
  finally have total: "sum_list (map rc_total_runs (repo_cards d)) = length (real_runs d)" .
  have name: "bc_branch (branch_card_of rs b) = b" for rs b by (simp add: branch_card_of_def Let_def)
  have br: "rc_branches (repo_card_of ?rows u) = sort_key bc_priority (map (branch_card_of (rows_of_repo u ?rows))
      (sort (remdups (map (\<lambda>((u, b, s), n). branch_or_unknown b) (rows_of_repo u ?rows)))))" for u
    by (simp add: repo_card_of_def Let_def)
  have sums: "rc_total_runs (repo_card_of ?rows u) = sum_list (map bc_total (rc_branches (repo_card_of ?rows u)))" for u
    by (simp add: repo_card_of_def Let_def)
  show ?thesis
  proof (intro conjI total)
    show "sorted (map rc_repo_url (repo_cards d))" "distinct (map rc_repo_url (repo_cards d))" unfolding urls by simp_all
    show "list_all (\<lambda>c. sorted (map bc_priority (rc_branches c)) \<and> rc_total_runs c = sum_list (map bc_total (rc_branches c))
        \<and> list_all (\<lambda>b. bc_total b = length (filter (\<lambda>r. repo_canonical_url (pr_repo_url r) = rc_repo_url c
              \<and> branch_or_unknown (pr_branch r) = bc_branch b) (real_runs d))
            \<and> bc_counts b = map (\<lambda>s. (s, length (filter (\<lambda>r. repo_canonical_url (pr_repo_url r) = rc_repo_url c
              \<and> branch_or_unknown (pr_branch r) = bc_branch b \<and> pr_status r = s) (real_runs d)))) Enum.enum)
          (rc_branches c)) (repo_cards d)"
      unfolding cards using sums by (simp add: list_all_iff url br name branch_card_totals)
  qed
qed

text \<open>
  The analytics count every real failure once: the types add up to the real
  events, the total of the last 30 days to the events in that window, in order of
  the days, and no job left out of the top five failed more often than one in it.
\<close>

theorem analytics_account:
  "sum_list (map snd (failure_types d)) = length (real_events d)
    \<and> sum_list (map snd (failures_by_day d now)) = length (filter (\<lambda>e. now - seconds (30 * 86400) \<le> be_processed_at e) (real_events d))
    \<and> sorted (map fst (failures_by_day d now)) \<and> distinct (map fst (failures_by_day d now))
    \<and> length (top_failing_jobs d) \<le> 5
    \<and> list_all (\<lambda>(j, n). n = length (filter (\<lambda>e. be_job_name e = j) (real_events d))
        \<and> list_all (\<lambda>e. length (filter (\<lambda>e'. be_job_name e' = be_job_name e) (real_events d)) \<le> n)
            (filter (\<lambda>e. be_job_name e \<notin> fst ` set (top_failing_jobs d)) (real_events d))) (top_failing_jobs d)"
proof (intro conjI)
  show "sum_list (map snd (failure_types d)) = length (real_events d)"
    using sum_filter_sort_key [of snd "\<lambda>_. True" "\<lambda>(t, n). - int n" "group_count be_failure_type (real_events d)"]
      group_count_total [of "\<lambda>_. True" be_failure_type "real_events d"]
    by (simp add: failure_types_def case_prod_unfold)
  let ?w = "filter (\<lambda>e. now - seconds (30 * 86400) \<le> be_processed_at e) (real_events d)"
  show "sum_list (map snd (failures_by_day d now)) = length ?w"
    using sum_filter_sort_key [of snd "\<lambda>_. True" fst "group_count (\<lambda>e. day_of (be_processed_at e)) ?w"]
      group_count_total [of "\<lambda>_. True" "\<lambda>e. day_of (be_processed_at e)" ?w]
    by (simp add: failures_by_day_def case_prod_unfold)
  show "sorted (map fst (failures_by_day d now))" by (simp add: failures_by_day_def)
  have "distinct (map fst (group_count f xs))" for f :: "build_event \<Rightarrow> int" and xs
    by (simp add: group_count_def comp_def dedup_facts)
  then have "distinct (group_count f xs) \<and> inj_on fst (set (group_count f xs))" for f :: "build_event \<Rightarrow> int" and xs
    by (simp add: distinct_map)
  then show "distinct (map fst (failures_by_day d now))" by (simp add: failures_by_day_def distinct_map)
  show "length (top_failing_jobs d) \<le> 5" by (simp add: top_failing_jobs_def)
  let ?g = "group_count be_job_name (real_events d)" and ?f = "\<lambda>(j, n). - int n"
  let ?n = "\<lambda>j. length (filter (\<lambda>e'. be_job_name e' = j) (real_events d))"
  have g: "x \<in> set ?g \<longleftrightarrow> snd x = ?n (fst x) \<and> fst x \<in> be_job_name ` set (real_events d)" for x
    by (cases x) (auto simp: group_count_def dedup_facts)
  have top: "set (top_failing_jobs d) \<subseteq> set ?g" unfolding top_failing_jobs_def by (rule take_sort_key(3))
  have le: "?n (be_job_name e) \<le> n" if "(j, n) \<in> set (top_failing_jobs d)" "e \<in> set (real_events d)"
    "be_job_name e \<notin> fst ` set (top_failing_jobs d)" for j n e
  proof -
    have "(be_job_name e, ?n (be_job_name e)) \<in> set ?g" using that(2) g by auto
    moreover have "(be_job_name e, ?n (be_job_name e)) \<notin> set (top_failing_jobs d)" using that(3) by force
    ultimately have "?f (j, n) \<le> ?f (be_job_name e, ?n (be_job_name e))"
      using that(1) unfolding top_failing_jobs_def by (rule take_sort_key(4))
    then show ?thesis by simp
  qed
  show "list_all (\<lambda>(j, n). n = ?n j \<and> list_all (\<lambda>e. ?n (be_job_name e) \<le> n)
            (filter (\<lambda>e. be_job_name e \<notin> fst ` set (top_failing_jobs d)) (real_events d))) (top_failing_jobs d)"
    using top g le unfolding list_all_iff by fastforce
qed

end
