(* ===== verification/Startup.thy ===== *)
theory Startup
  imports UI_Config Scheduler
begin

text \<open>
  \<open>main.py\<close>: what the application does when it starts (the statements that fill
  columns older databases lack, and the seed of the workers), the configuration
  warnings, and one round of the scheduler loop.  Creating tables and adding
  columns is left to the database.
\<close>

section \<open>Definitions\<close>

definition backfill_priority :: "pipeline_run \<Rightarrow> pipeline_run" where
  "backfill_priority r =
     r\<lparr>pr_scheduling_priority := branch_case (pr_branch r),
       pr_priority_reason := (case pr_priority_reason r of Some p \<Rightarrow> Some p | None \<Rightarrow> Some ''legacy branch priority'')\<rparr>"

definition backfill_priorities :: "db \<Rightarrow> db" where
  "backfill_priorities d = d\<lparr>runs_t := map backfill_priority (runs_t d)\<rparr>"

text \<open>
  \<open>UPDATE ... FROM\<close>: the job of a run the worker holds open; if there are several
  the database may take any, here the first.
\<close>

definition open_job :: "db \<Rightarrow> int \<Rightarrow> string option option" where
  "open_job d w =
     Option.bind (first_row (filter (\<lambda>a. wa_worker_id a = w \<and> wa_completed_at a = None) (assigns_t d)))
       (\<lambda>a. map_option pr_jenkins_job_name (get_run_row d (wa_run_id a)))"

definition backfill_job :: "db \<Rightarrow> worker \<Rightarrow> worker" where
  "backfill_job d w =
     (if w_status w = WS_BUSY \<and> w_current_job w = None
      then (case open_job d (w_id w) of Some j \<Rightarrow> w\<lparr>w_current_job := j\<rparr> | None \<Rightarrow> w)
      else w)"

definition backfill_jobs :: "db \<Rightarrow> db" where
  "backfill_jobs d = d\<lparr>workers_t := map (backfill_job d) (workers_t d)\<rparr>"

definition startup :: "settings \<Rightarrow> bool \<Rightarrow> db \<Rightarrow> time \<Rightarrow> db" where
  "startup st postgresql d now =
     (let d1 = (if postgresql then backfill_jobs (backfill_priorities d) else d) in
      if AUTO_SEED_WORKERS st then seed_workers d1 now else d1)"

text \<open>The settings a warning is given for.\<close>

definition startup_warnings :: "settings \<Rightarrow> string list" where
  "startup_warnings st =
     (if JENKINS_WEBHOOK_SECRET st = [] then [''JENKINS_WEBHOOK_SECRET''] else [])
     @ (if GITHUB_WEBHOOK_SECRET st = [] then [''GITHUB_WEBHOOK_SECRET''] else [])
     @ (if SLACK_BOT_TOKEN st = [] then [''SLACK_BOT_TOKEN''] else [])
     @ (if GROQ_API_KEY st = [] \<and> \<not> truthy (ANTHROPIC_API_KEY st) then [''GROQ_API_KEY, ANTHROPIC_API_KEY''] else [])"

text \<open>
  One round of \<open>_scheduler_loop\<close>: a tick inside the process, then the broadcast of
  the measurements (given as JSON text); a tick that raises broadcasts nothing.
\<close>

definition loop_round ::
    "settings \<Rightarrow> string \<Rightarrow> nat \<Rightarrow> tick_clock \<Rightarrow> string \<Rightarrow> db \<times> 'c registry \<Rightarrow> (db \<times> 'c registry) \<times> effect list" where
  "loop_round st mode exec_threads c measured s =
     (case s of (d, reg) \<Rightarrow>
        (case scheduler_tick st mode False exec_threads d c of
           (d', es, TickError e) \<Rightarrow> ((d', reg), es)
         | (d', es, _) \<Rightarrow> ((d', broadcast_sse ''tick'' measured reg), es)))"

section \<open>Lemmas\<close>

lemma backfill_priority_simps [simp]:
  "pr_id (backfill_priority r) = pr_id r" "pr_branch (backfill_priority r) = pr_branch r"
  "pr_status (backfill_priority r) = pr_status r" "pr_queued_at (backfill_priority r) = pr_queued_at r"
  "pr_scheduling_priority (backfill_priority r) = branch_case (pr_branch r)"
  "real_pipeline_run (backfill_priority r) = real_pipeline_run r"
  by (simp_all add: backfill_priority_def real_pipeline_run_def)

lemma backfill_job_simps [simp]: "w_id (backfill_job d w) = w_id w" "w_status (backfill_job d w) = w_status w"
  "w_load (backfill_job d w) = w_load w"
  by (simp_all add: backfill_job_def split: option.split)

lemma db_ok_map_workers:
  assumes "\<And>w. w_id (f w) = w_id w" "db_ok d"
  shows "db_ok (d\<lparr>workers_t := map f (workers_t d)\<rparr>)"
proof -
  have "map w_id (map f (workers_t d)) = map w_id (workers_t d)" using assms(1) by simp
  then have k: "keys_ok w_id (map f (workers_t d)) (next_worker d)"
    using assms by (auto simp: db_ok_def tables_ok_def keys_ok_def comp_def)
  have "get_row w_id i (map f rs) = map_option f (get_row w_id i rs)" for i rs
    by (induction rs) (auto simp: get_row_def assms(1))
  then show ?thesis using assms k
    by (simp add: db_ok_def tables_ok_def refs_ok_def get_run_row_def get_worker_def)
qed

lemma db_ok_startup: "db_ok d \<Longrightarrow> db_ok (startup st pg d now)"
proof -
  assume "db_ok d"
  then have p: "db_ok (backfill_priorities d)" unfolding backfill_priorities_def by (intro db_ok_map_runs) simp_all
  then have "db_ok (backfill_jobs (backfill_priorities d))" unfolding backfill_jobs_def by (intro db_ok_map_workers) simp_all
  then show ?thesis using \<open>db_ok d\<close> by (simp add: startup_def Let_def db_ok_seed)
qed

lemma runs_startup: "runs_t (startup st pg d now) = (if pg then map backfill_priority (runs_t d) else runs_t d)"
proof -
  have "runs_t (seed_workers d now) = runs_t d" for d
  proof -
    have "runs_t (fold (\<lambda>(n, l, c). add_worker (new_worker n l c now)) xs d) = runs_t d" for xs
      by (induction xs arbitrary: d) (auto simp: db_simps)
    then show ?thesis by (simp add: seed_workers_def split: option.split)
  qed
  then show ?thesis by (simp add: startup_def Let_def backfill_priorities_def backfill_jobs_def)
qed

section \<open>Properties\<close>

text \<open>
  C38: every start on PostgreSQL overwrites the stored priority of every run by the
  priority of its branch alone, so the waiting runs are dispatched in another
  order than before: what the policy derived from the changed files (or from the
  case of the branch name) is lost, although the reason it gave stays.
\<close>

theorem startup_forgets_priorities:
  "filter waiting (runs_t (startup st True d now)) = map backfill_priority (filter waiting (runs_t d))
    \<and> queued_runs st ''Priority'' (startup st True d now) =
      take (MAX_CONCURRENT_EXECUTIONS st) (map backfill_priority
        (sort_key (\<lambda>r. (branch_case (pr_branch r), pr_queued_at r)) (filter waiting (runs_t d))))
    \<and> list_all (\<lambda>r. pr_scheduling_priority r = branch_case (pr_branch r)) (runs_t (startup st True d now))"
proof (intro conjI)
  show w: "filter waiting (runs_t (startup st True d now)) = map backfill_priority (filter waiting (runs_t d))"
  proof -
    have "waiting (backfill_priority r) = waiting r" for r by (simp add: waiting_def)
    then show ?thesis by (simp add: runs_startup filter_map comp_def)
  qed
  have key: "run_priority (backfill_priority r) = branch_case (pr_branch r)" for r
    by (simp add: run_priority_def branch_priority_expr_def)
  have ins: "insort_key f (g x) (map g ys) = map g (insort_key (\<lambda>x. f (g x)) x ys)"
    for f :: "pipeline_run \<Rightarrow> int \<times> time" and g x ys
    by (induction ys) simp_all
  have sk: "sort_key f (map g xs) = map g (sort_key (\<lambda>x. f (g x)) xs)"
    for f :: "pipeline_run \<Rightarrow> int \<times> time" and g xs
    by (induction xs) (simp_all add: ins)
  show "queued_runs st ''Priority'' (startup st True d now) =
      take (MAX_CONCURRENT_EXECUTIONS st) (map backfill_priority
        (sort_key (\<lambda>r. (branch_case (pr_branch r), pr_queued_at r)) (filter waiting (runs_t d))))"
    by (simp add: queued_runs_def queue_order_def w sk key)
  show "list_all (\<lambda>r. pr_scheduling_priority r = branch_case (pr_branch r)) (runs_t (startup st True d now))"
    by (simp add: runs_startup list_all_iff)
qed

end
