(* ===== verification/Application.thy ===== *)
theory Application
  imports Startup UI_Actions
begin

text \<open>
  The rest of \<open>main.py\<close>: the HTML pages and the liveness probe with
  \<open>check_db_health\<close> of \<open>app/utils.py\<close>, and the module variable of \<open>app/scheduler.py\<close>
  that holds the routing mode.  Whether a connection to the database can be made
  and \<open>SELECT 1\<close> run is a parameter (\<open>probe\<close>).
\<close>

section \<open>Pages\<close>

text \<open>The routes of the HTML pages in the order they are registered.\<close>

definition PAGE_NAMES :: "string list" where
  "PAGE_NAMES = [''backend'', ''queue'', ''scheduler'', ''webhooks'', ''workers'', ''explorer'', ''settings'', ''analytics'']"

definition page_routes :: "(string \<times> string) list" where
  "page_routes = (''/'', ''index.html'') #
     concat (map (\<lambda>p. [(''/'' @ p, p @ ''.html''), (''/'' @ p @ ''.html'', p @ ''.html'')]) PAGE_NAMES)"

definition serve_page :: "string \<Rightarrow> string option" where
  "serve_page path = map_of page_routes path"

section \<open>Liveness\<close>

definition check_db_health :: "unit res \<Rightarrow> bool" where
  "check_db_health probe = (case probe of Inr _ \<Rightarrow> True | Inl _ \<Rightarrow> False)"

section \<open>The routing mode\<close>

definition initial_routing_mode :: string where
  "initial_routing_mode = ''Priority''"

definition get_routing_mode :: "string \<Rightarrow> string" where
  "get_routing_mode mode = mode"

definition set_routing_mode :: "string \<Rightarrow> string \<Rightarrow> string" where
  "set_routing_mode mode old = mode"

section \<open>Lemmas\<close>

text \<open>No two routes share a path, so the order of registration does not matter.\<close>

lemma page_routes_distinct: "distinct (map fst page_routes)"
  by (simp add: page_routes_def PAGE_NAMES_def)

lemma pages_by_both_names:
  "list_all (\<lambda>p. serve_page (''/'' @ p) = Some (p @ ''.html'') \<and> serve_page (''/'' @ p @ ''.html'') = Some (p @ ''.html'')) PAGE_NAMES"
  by (simp add: serve_page_def page_routes_def PAGE_NAMES_def)

text \<open>
  The mode that the settings page stores is the one the next tick reads, and an
  unknown one is refused and changes nothing.
\<close>

lemma routing_mode_stored:
  "fst (set_scheduler_mode current body) = current
    \<or> fst (set_scheduler_mode current body) \<in> {''FIFO'', ''Priority'', ''Load-Balanced''}"
  by (auto simp: set_scheduler_mode_def split: option.split json.split)

end
