(* ===== verification/Evolution.thy ===== *)
theory Evolution
  imports Execution Analysis_Task Webhook_Router Github_Webhook UI_Actions Jobs_Router Workers_Router Metrics Startup
begin

text \<open>
  How the database may evolve.  \<open>service_ok\<close> is the invariant of the whole
  service: keys and references (\<open>db_ok\<close>), well-formed workers, retry counters
  within their limit, one pattern per signature.  \<open>evolves d d'\<close> says that a
  change keeps it and respects the history of the runs: a row keeps what
  identifies it, its retry counter does not fall, and a new row has a key never
  handed out before.  It is a preorder, so one rule per elementary update yields
  one lemma per operation of the service.
\<close>

section \<open>The invariant and the history of the runs\<close>

definition retries_ok :: "db \<Rightarrow> bool" where
  "retries_ok d \<longleftrightarrow> list_all (\<lambda>r. 0 \<le> pr_retry_count r \<and> pr_retry_count r \<le> pr_max_retries r) (runs_t d)"

definition service_ok :: "db \<Rightarrow> bool" where
  "service_ok d \<longleftrightarrow> db_ok d \<and> workers_ok d \<and> retries_ok d \<and> signatures_ok d"

definition run_identity ::
    "pipeline_run \<Rightarrow> int \<times> string \<times> string \<times> string option \<times> string option \<times> string \<times> string option \<times> time \<times> string option \<times> int" where
  "run_identity r = (pr_id r, pr_repo_url r, pr_branch r, pr_commit_sha r, pr_author r, pr_triggered_by r,
     pr_jenkins_job_name r, pr_queued_at r, pr_stage_names_csv r, pr_max_retries r)"

definition run_kept :: "pipeline_run \<Rightarrow> pipeline_run \<Rightarrow> bool" where
  "run_kept r r' \<longleftrightarrow> run_identity r' = run_identity r \<and> pr_retry_count r \<le> pr_retry_count r'
     \<and> (pr_retry_count r \<le> pr_max_retries r \<longrightarrow> pr_retry_count r' \<le> pr_max_retries r')"

definition runs_evolve :: "db \<Rightarrow> db \<Rightarrow> bool" where
  "runs_evolve d d' \<longleftrightarrow> next_run d \<le> next_run d'
     \<and> (\<forall>r' \<in> set (runs_t d'). (\<exists>r \<in> set (runs_t d). run_kept r r')
          \<or> next_run d \<le> pr_id r' \<and> 0 \<le> pr_retry_count r' \<and> pr_retry_count r' \<le> pr_max_retries r')"

definition evolves :: "db \<Rightarrow> db \<Rightarrow> bool" where
  "evolves d d' \<longleftrightarrow> (service_ok d \<longrightarrow> service_ok d' \<and> runs_evolve d d')"

lemma run_kept_refl [simp]: "run_kept r r"
  by (simp add: run_kept_def)

lemma run_kept_mem: "r \<in> A \<Longrightarrow> \<exists>q \<in> A. run_kept q r"
  using run_kept_refl by blast

lemma run_kept_trans: "run_kept a b \<Longrightarrow> run_kept b c \<Longrightarrow> run_kept a c"
  by (auto simp: run_kept_def run_identity_def)

lemma run_kept_id: "run_kept r r' \<Longrightarrow> pr_id r' = pr_id r"
  by (simp add: run_kept_def run_identity_def)

lemma run_kept_simps [simp]:
  "run_kept r (requeue r)" "run_kept r (claimed t r)" "run_kept r (finish_run res t r)" "run_kept r (backfill_priority r)"
  by (simp_all add: run_kept_def run_identity_def requeue_def claimed_def finish_run_def backfill_priority_def)

lemma run_kept_retried: "pr_retry_count r < pr_max_retries r \<Longrightarrow> run_kept r (retried r)"
  by (simp add: run_kept_def run_identity_def retried_def)

lemma runs_evolve_refl [simp]: "runs_evolve d d"
  unfolding runs_evolve_def using run_kept_refl by blast

lemma runs_evolve_trans:
  assumes "runs_evolve d e" "runs_evolve e f"
  shows "runs_evolve d f"
  unfolding runs_evolve_def
proof (intro conjI ballI)
  show "next_run d \<le> next_run f" using assms by (simp add: runs_evolve_def)
  fix r assume r: "r \<in> set (runs_t f)"
  show "(\<exists>q \<in> set (runs_t d). run_kept q r)
      \<or> next_run d \<le> pr_id r \<and> 0 \<le> pr_retry_count r \<and> pr_retry_count r \<le> pr_max_retries r"
  proof (cases "\<exists>q \<in> set (runs_t e). run_kept q r")
    case True
    then obtain q where q: "q \<in> set (runs_t e)" "run_kept q r" by blast
    then consider p where "p \<in> set (runs_t d)" "run_kept p q"
      | "next_run d \<le> pr_id q" "0 \<le> pr_retry_count q" "pr_retry_count q \<le> pr_max_retries q"
      using assms(1) unfolding runs_evolve_def by blast
    then show ?thesis
    proof cases
      case 1
      then show ?thesis using run_kept_trans q(2) by blast
    next
      case 2
      then show ?thesis using q(2) run_kept_id [OF q(2)] by (simp add: run_kept_def)
    qed
  next
    case False
    then show ?thesis using assms r unfolding runs_evolve_def by (meson order_trans)
  qed
qed

lemma runs_evolve_frame: "runs_t d' = runs_t d \<Longrightarrow> next_run d' = next_run d \<Longrightarrow> runs_evolve d d'"
  unfolding runs_evolve_def by (auto dest: run_kept_mem)

lemma retries_evolve: "runs_evolve d d' \<Longrightarrow> retries_ok d \<Longrightarrow> retries_ok d'"
  unfolding runs_evolve_def retries_ok_def list_all_iff run_kept_def by (meson order_trans)

section \<open>Preorders on states, and their folds\<close>

locale evolution =
  fixes leads :: "'s \<Rightarrow> 's \<Rightarrow> bool"
  assumes leads_refl: "leads s s"
    and leads_trans: "leads s t \<Longrightarrow> leads t u \<Longrightarrow> leads s u"
begin

lemma leads_fold:
  assumes "\<And>x s. x \<in> set xs \<Longrightarrow> leads s (f x s)"
  shows "leads s (fold f xs s)"
  using assms
proof (induction xs arbitrary: s)
  case Nil
  show ?case by (simp add: leads_refl)
next
  case (Cons x xs)
  have "leads s (f x s)" using Cons.prems by simp
  moreover have "leads (f x s) (fold f xs (f x s))" using Cons.prems by (intro Cons.IH) simp
  ultimately show ?case by (simp add: leads_trans)
qed

lemma leads_fold_proj:
  assumes "\<And>x s. x \<in> set xs \<Longrightarrow> leads (proj s) (proj (f x s))"
  shows "leads (proj s) (proj (fold f xs s))"
  using assms
proof (induction xs arbitrary: s)
  case Nil
  show ?case by (simp add: leads_refl)
next
  case (Cons x xs)
  have "leads (proj s) (proj (f x s))" using Cons.prems by simp
  moreover have "leads (proj (f x s)) (proj (fold f xs (f x s)))" using Cons.prems by (intro Cons.IH) simp
  ultimately show ?case by (simp add: leads_trans)
qed

end

interpretation evo: evolution evolves
proof
  show "evolves d d" for d by (simp add: evolves_def)
  show "evolves d e \<Longrightarrow> evolves e f \<Longrightarrow> evolves d f" for d e f
    unfolding evolves_def using runs_evolve_trans by blast
qed

section \<open>Elementary updates\<close>

lemma signatures_frame: "patterns_t d' = patterns_t d \<Longrightarrow> next_pattern d' = next_pattern d \<Longrightarrow> signatures_ok d' = signatures_ok d"
  by (simp add: signatures_ok_def)

text \<open>Every rule appends one update to a change that is already known.\<close>

lemma evolves_via:
  assumes "evolves d0 d" "service_ok d \<Longrightarrow> db_ok d'" "service_ok d \<Longrightarrow> workers_ok d'" "service_ok d \<Longrightarrow> runs_evolve d d'"
    "service_ok d \<Longrightarrow> signatures_ok d'"
  shows "evolves d0 d'"
  using assms retries_evolve [of d d'] runs_evolve_trans [of d0 d d'] unfolding evolves_def service_ok_def by blast

lemma evolves_frame:
  assumes "evolves d0 d" "service_ok d \<Longrightarrow> db_ok d'" "service_ok d \<Longrightarrow> workers_ok d'" "runs_t d' = runs_t d" "next_run d' = next_run d"
    "patterns_t d' = patterns_t d" "next_pattern d' = next_pattern d"
  shows "evolves d0 d'"
  using assms(1-3)
proof (rule evolves_via)
  show "runs_evolve d d'" using assms(4,5) by (rule runs_evolve_frame)
  show "signatures_ok d'" if "service_ok d" using that assms(6,7) by (simp add: signatures_ok_def service_ok_def)
qed

lemma service_okD:
  assumes "service_ok d"
  shows "db_ok d" "workers_ok d" "retries_ok d" "signatures_ok d"
  using assms by (simp_all add: service_ok_def)

lemma runs_evolve_list:
  assumes "list_all2 run_kept (runs_t d) (runs_t d')" "next_run d' = next_run d"
  shows "runs_evolve d d'"
proof -
  have "\<exists>r \<in> set (runs_t d). run_kept r r'" if "r' \<in> set (runs_t d')" for r'
    using assms(1) that unfolding list_all2_conv_all_nth in_set_conv_nth by (metis nth_mem)
  then show ?thesis using assms(2) by (simp add: runs_evolve_def)
qed

lemma next_run_upd [simp]: "next_run (upd_run i f d) = next_run d"
  by (simp add: upd_run_def)

lemma evolves_upd_run_if:
  assumes "evolves d0 d" "\<And>r. pr_id (f r) = pr_id r" "\<And>r. r \<in> set (runs_t d) \<Longrightarrow> pr_id r = i \<Longrightarrow> run_kept r (f r)"
  shows "evolves d0 (upd_run i f d)"
  using assms(1)
proof (rule evolves_via)
  show "db_ok (upd_run i f d)" if "service_ok d" using assms(2) that by (intro db_ok_intros) (simp_all add: service_ok_def)
  have "list_all2 run_kept (runs_t d) (runs_t (upd_run i f d))"
    using assms(3) by (auto simp: run_tbl.rows_upd upd_row_def list_all2_conv_all_nth)
  then show "runs_evolve d (upd_run i f d)" by (rule runs_evolve_list) simp
qed (simp_all add: service_ok_def signatures_ok_def db_simps)

lemma evolves_upd_run: "evolves d0 d \<Longrightarrow> (\<And>r. run_kept r (f r)) \<Longrightarrow> evolves d0 (upd_run i f d)"
  by (rule evolves_upd_run_if) (auto intro: run_kept_id)

lemma evolves_upd_worker:
  assumes "evolves d0 d" "\<And>w. w_id (f w) = w_id w" "\<And>w. worker_ok w \<Longrightarrow> worker_ok (f w)"
  shows "evolves d0 (upd_worker i f d)"
  using assms(1) by (rule evolves_frame) (use assms in \<open>auto simp: db_simps service_ok_def intro: db_ok_intros workers_ok_upd\<close>)

lemma evolves_upd_assign:
  assumes "evolves d0 d" "\<And>a. wa_id (f a) = wa_id a" "\<And>a. wa_run_id (f a) = wa_run_id a" "\<And>a. wa_worker_id (f a) = wa_worker_id a"
  shows "evolves d0 (upd_assign i f d)"
  using assms(1) by (rule evolves_frame) (use assms in \<open>auto simp: db_simps service_ok_def intro!: db_ok_intros\<close>)

lemma evolves_upd_stage:
  assumes "evolves d0 d" "\<And>s. se_id (f s) = se_id s" "\<And>s. se_run_id (f s) = se_run_id s"
  shows "evolves d0 (upd_stage i f d)"
  using assms(1) by (rule evolves_frame) (use assms in \<open>auto simp: db_simps service_ok_def intro!: db_ok_intros\<close>)

lemma workers_ok_cong: "workers_t d' = workers_t d \<Longrightarrow> workers_ok d' = workers_ok d"
  by (simp add: workers_ok_def)

lemma evolves_add_stage:
  assumes "evolves d0 d" "get_run_row d (se_run_id s) \<noteq> None"
  shows "evolves d0 (add_stage s d)"
  using assms(1) by (rule evolves_frame)
    (use assms in \<open>auto simp: db_simps service_ok_def workers_ok_cong [of "add_stage s d" d] intro!: db_ok_add_stage\<close>)

lemma evolves_add_run:
  assumes "evolves d0 d" "0 \<le> pr_retry_count r" "pr_retry_count r \<le> pr_max_retries r"
  shows "evolves d0 (add_run r d)"
  using assms(1)
proof (rule evolves_via)
  show "runs_evolve d (add_run r d)" using assms(2,3)
    by (auto simp: runs_evolve_def run_tbl.rows_add run_tbl.nxt_add dest: run_kept_mem)
qed (auto simp: service_ok_def signatures_ok_def db_simps workers_ok_cong [of "add_run r d" d] intro: db_ok_add_run)

lemma evolves_add_worker:
  assumes "evolves d0 d" "worker_ok w"
  shows "evolves d0 (add_worker w d)"
  using assms(1) by (rule evolves_frame)
    (use assms in \<open>auto simp: db_simps service_ok_def workers_ok_def worker_tbl.rows_add intro!: db_ok_add_worker\<close>)

lemmas evolve_rules = evolves_upd_worker evolves_upd_assign evolves_upd_stage evolves_upd_run
  evolves_add_worker evo.leads_refl

section \<open>The tables of the analysis and of the metrics\<close>

lemma db_ok_events:
  assumes "keys_ok be_id es n" "db_ok d"
  shows "db_ok (d\<lparr>events_t := es, next_event := n\<rparr>)"
  using assms by (simp add: db_ok_def tables_ok_def refs_ok_def get_run_row_def get_worker_def)

lemma db_ok_patterns:
  assumes "keys_ok pt_id ps n" "db_ok d"
  shows "db_ok (d\<lparr>patterns_t := ps, next_pattern := n\<rparr>)"
  using assms by (simp add: db_ok_def tables_ok_def refs_ok_def get_run_row_def get_worker_def)

lemma evolves_events:
  assumes "evolves d0 d" "service_ok d \<Longrightarrow> keys_ok be_id es n"
  shows "evolves d0 (d\<lparr>events_t := es, next_event := n\<rparr>)"
  using assms(1) by (rule evolves_frame) (use assms(2) in \<open>auto simp: service_ok_def workers_ok_def intro: db_ok_events\<close>)

lemma evolves_add_event: "evolves d0 d \<Longrightarrow> evolves d0 (add_event e d)"
  unfolding add_event_def
  by (rule evolves_events, assumption)
    (use event_tbl.ok_add [of d e] in \<open>simp add: service_ok_def db_ok_keys event_tbl.rows_add event_tbl.nxt_add\<close>)

lemma evolves_upd_event:
  assumes "evolves d0 d" "\<And>e. be_id (f e) = be_id e"
  shows "evolves d0 (upd_event i f d)"
proof -
  have "keys_ok be_id (upd_row be_id i f (events_t d)) (next_event d)" if "service_ok d"
    using event_tbl.ok_upd [OF assms(2), of d i] db_ok_keys(5) [OF service_okD(1) [OF that]]
    by (simp add: event_tbl.rows_upd event_tbl.nxt_upd)
  then have "evolves d0 (d\<lparr>events_t := upd_row be_id i f (events_t d), next_event := next_event d\<rparr>)"
    by (intro evolves_events [OF assms(1)])
  then show ?thesis by (simp add: upd_event_def)
qed

lemma evolves_store_pattern:
  assumes "store_pattern env d blocks category now = Inr d'"
  shows "evolves d d'"
proof (cases blocks)
  case Nil
  then show ?thesis using assms by (simp add: store_pattern_def evo.leads_refl)
next
  case (Cons b bs)
  let ?sig = "ae_sha256 env (normalise (eb_anchor_line b))"
  obtain found where found: "scalar_one_or_none (filter (\<lambda>r. pt_signature_hash r = ?sig) (patterns_t d)) = Inr found"
    and d': "d' = (case found of None \<Rightarrow> add_pattern (new_pattern ?sig category (eb_anchor_line b) now) d
      | Some r \<Rightarrow> upd_pattern (pt_id r) (seen_again category now) d)"
    using assms Cons by (auto simp: store_pattern_def upsert_pattern_def Let_def rbind_eq_Inr split: option.splits)
  have sig: "found = find_signature d ?sig" if "signatures_ok d"
    using scalar_by_column [of pt_signature_hash "patterns_t d" ?sig] that found by (simp add: signatures_ok_def find_signature_def)
  have ok: "signatures_ok d'" if "signatures_ok d"
  proof (cases found)
    case None
    then show ?thesis using upsert_new(2) [OF that, of ?sig] sig [OF that] d' by simp
  next
    case (Some r)
    then show ?thesis using upsert_known(2) [OF that, of ?sig r] sig [OF that] d' by simp
  qed
  have "db_ok d'" if "db_ok d" "signatures_ok d'"
  proof -
    have "d' = d\<lparr>patterns_t := patterns_t d', next_pattern := next_pattern d'\<rparr>"
      using d' by (cases found) (simp_all add: add_pattern_def upd_pattern_def)
    moreover have "keys_ok pt_id (patterns_t d') (next_pattern d')" using that(2) by (simp add: signatures_ok_def)
    ultimately show ?thesis using db_ok_patterns that(1) by metis
  qed
  moreover have "workers_t d' = workers_t d" "runs_t d' = runs_t d" "next_run d' = next_run d"
    using d' by (cases found; simp add: add_pattern_def upd_pattern_def)+
  ultimately show ?thesis
    by (intro evolves_via [OF evo.leads_refl, of d d']) (simp_all add: service_ok_def ok workers_ok_def runs_evolve_frame)
qed

lemma evolves_metrics:
  assumes "evolves d0 d"
  shows "evolves d0 (d\<lparr>metrics_t := ms\<rparr>)" "evolves d0 (d\<lparr>metrics_t := ms, next_metric := n\<rparr>)"
    "evolves d0 (d\<lparr>next_metric := n\<rparr>)"
  using assms by (rule evolves_frame;
    simp add: service_ok_def workers_ok_def db_ok_def tables_ok_def refs_ok_def get_run_row_def get_worker_def)+

section \<open>Scheduler\<close>

lemma worker_ok_recovery: "worker_ok w \<Longrightarrow> worker_ok (reset_worker t w)" "worker_ok w \<Longrightarrow> worker_ok (give_up t w)"
  by (auto simp: worker_ok_def load_ok_def reset_worker_def give_up_def)

lemma evolves_expire: "evolves d (expire_assignment why now a d)"
  unfolding expire_assignment_def by (intro evolve_rules) simp_all

lemma evolves_recover_worker: "evolves d (recover_worker why now w d)"
  unfolding recover_worker_def by (intro evolve_rules evo.leads_fold evolves_expire) (simp_all add: worker_ok_recovery)

lemma evolves_abandon: "evolves (fst s) (fst (abandon_assignment now a s))"
proof (cases s)
  case (Pair d n)
  have "evolves d (upd_assign i (timeout_assignment why now) (upd_worker k (give_up now) d))"
    "evolves d (upd_assign i (timeout_assignment why now) d)" for i k why
    by (intro evolve_rules; simp add: worker_ok_recovery)+
  then show ?thesis using Pair by (simp add: abandon_assignment_def Let_def)
qed

lemma evolves_recover_run: "evolves (fst s) (fst (recover_run now r s))"
proof -
  have "evolves (fst s) (fst (fold (abandon_assignment now) (open_assignments (fst s) (pr_id r)) s))"
    by (rule evo.leads_fold_proj [where proj = fst]) (rule evolves_abandon)
  then show ?thesis unfolding recover_run_eq Let_def by (simp add: evolves_upd_run)
qed

lemma evolves_recovery: "evolves d (fst (recover_stale_workers st d now))"
proof -
  let ?d1 = "fold (recover_worker ''TIMEOUT'' now) (filter (stale (recovery_cutoff st now)) (workers_t d)) d"
  have a: "evolves d ?d1" by (rule evo.leads_fold) (rule evolves_recover_worker)
  have "evolves (fst s) (fst (fold (recover_run now) rs s))" for s rs
    by (rule evo.leads_fold_proj [where proj = fst]) (rule evolves_recover_run)
  from this [of "(?d1, n)" for n] have "evolves ?d1 (fst (fold (recover_run now) rs (?d1, n)))" for n rs
    by (simp only: fst_conv)
  from evo.leads_trans [OF a this] show ?thesis unfolding recover_stale_workers_def Let_def .
qed

lemma evolves_assign:
  assumes "get_run_row d r \<noteq> None"
  shows "evolves d (fst (assign_worker d r l t))"
proof -
  have k: "patterns_t (fst (assign_worker d r l t)) = patterns_t d" "next_pattern (fst (assign_worker d r l t)) = next_pattern d"
    "runs_t (fst (assign_worker d r l t)) = runs_t d" "next_run (fst (assign_worker d r l t)) = next_run d"
    by (simp_all add: assign_worker_def Let_def db_simps split: list.split)
  show ?thesis using k assms
    by (intro evolves_frame [OF evo.leads_refl]) (simp_all add: service_ok_def db_ok_assign workers_ok_assign)
qed

lemma evolves_dispatch: "evolves d (fst (dispatch_run_with assign_worker c r d))"
proof (cases "claim_run (tc_claim c (pr_id r)) (pr_id r) d")
  case None
  then show ?thesis by (simp add: dispatch_run_with_def evo.leads_refl)
next
  case (Some d1)
  let ?a = "assign_worker d1 (pr_id r) (detect_language (pr_repo_url r) (stage_names r)) (tc_assign c (pr_id r))"
  have d1: "d1 = upd_run (pr_id r) (\<lambda>x. if pr_status x = RS_QUEUED then claimed (tc_claim c (pr_id r)) x else x) d"
    using Some by (rule claim_run_SomeD)
  have "list_ex (\<lambda>x. pr_id x = pr_id r \<and> pr_status x = RS_QUEUED) (runs_t d)"
    using Some by (simp add: claim_run_def split: if_splits)
  then obtain x where "x \<in> set (runs_t d)" "pr_id r = pr_id x" by (auto simp: list_ex_iff)
  then have "get_run_row d (pr_id r) \<noteq> None" by (simp add: run_tbl.get_None_iff)
  then have row: "get_run_row d1 (pr_id r) \<noteq> None" by (simp add: d1 db_simps)
  have "evolves d d1" unfolding d1 by (rule evolves_upd_run [OF evo.leads_refl]) simp
  then have a: "evolves d (fst ?a)" using evolves_assign [OF row] by (rule evo.leads_trans)
  then have "evolves d (upd_run (pr_id r) requeue (fst ?a))" by (rule evolves_upd_run) simp
  then show ?thesis using a Some by (auto simp: dispatch_run_with_def split: prod.split option.split)
qed

lemma evolves_dispatch_all: "evolves d (fst (dispatch_all_with assign_worker c rs d))"
proof (induction rs arbitrary: d)
  case Nil
  show ?case by (simp add: evo.leads_refl)
next
  case (Cons r rs)
  show ?case using evo.leads_trans [OF evolves_dispatch Cons.IH] by (simp add: case_prod_unfold Let_def)
qed

lemma mapM_res_list_all2:
  assumes "mapM_res f xs = Inr ys" "\<And>x y. f x = Inr y \<Longrightarrow> P x y"
  shows "list_all2 P xs ys"
  using assms(1)
proof (induction xs arbitrary: ys)
  case (Cons x xs)
  then show ?case using assms(2) by (auto simp: rbind_eq_Inr)
qed simp

lemma auto_retry_kept:
  assumes "(if retry_eligible r then auto_retry bs now r else Inr r) = Inr r'"
  shows "run_kept r r'"
proof (cases "retry_eligible r")
  case True
  then show ?thesis using assms run_kept_retried [of r]
    by (auto simp: auto_retry_def rbind_eq_Inr retry_eligible_def run_kept_def run_identity_def split: option.splits if_splits)
qed (use assms in simp)

lemma keys_ok_iff: "keys_ok key rs n \<longleftrightarrow> distinct (map key rs) \<and> (\<forall>i \<in> set (map key rs). 1 \<le> i \<and> i < n) \<and> 1 \<le> n"
  by (simp add: keys_ok_def)

lemma evolves_runs:
  assumes "evolves d0 d" "list_all2 run_kept (runs_t d) rs"
  shows "evolves d0 (d\<lparr>runs_t := rs\<rparr>)"
  using assms(1)
proof (rule evolves_via)
  have ids: "map pr_id rs = map pr_id (runs_t d)"
    using assms(2) by (induction rule: list_all2_induct) (simp_all add: run_kept_id)
  have mem: "pr_id ` set rs = pr_id ` set (runs_t d)" using arg_cong [OF ids, of set] by simp
  have "keys_ok pr_id rs (next_run d)" if "keys_ok pr_id (runs_t d) (next_run d)"
    using that unfolding keys_ok_iff ids .
  moreover have "get_row pr_id i rs = None \<longleftrightarrow> get_row pr_id i (runs_t d) = None" for i
    by (simp only: get_row_None_iff mem)
  ultimately show "db_ok (d\<lparr>runs_t := rs\<rparr>)" if "service_ok d"
    using that by (simp add: service_ok_def db_ok_def tables_ok_def refs_ok_def get_run_row_def get_worker_def)
  show "runs_evolve d (d\<lparr>runs_t := rs\<rparr>)" using assms(2) by (intro runs_evolve_list) simp_all
qed (simp_all add: service_ok_def signatures_ok_def workers_ok_def)

lemma evolves_retry_phase:
  assumes "retry_phase st now d = Inr d'"
  shows "evolves d d'"
proof -
  obtain rs where rs: "mapM_res (\<lambda>r. if retry_eligible r then auto_retry (PIPELINE_RETRY_BACKOFF_SECONDS st) now r else Inr r) (runs_t d) = Inr rs"
    and d': "d' = d\<lparr>runs_t := rs\<rparr>"
    using assms by (auto simp: retry_phase_def rbind_eq_Inr)
  have "list_all2 run_kept (runs_t d) rs" using rs by (rule mapM_res_list_all2) (rule auto_retry_kept)
  then show ?thesis unfolding d' by (intro evolves_runs evo.leads_refl)
qed

lemma evolves_tick: "evolves d (fst (scheduler_tick st mode celery threads d c))"
proof -
  let ?d1 = "fst (recover_stale_workers st d (tc_recover c))"
  let ?d2 = "fst (dispatch_all c (queued_runs st mode ?d1) ?d1)"
  have d2: "evolves d ?d2" by (rule evo.leads_trans [OF evolves_recovery evolves_dispatch_all])
  show ?thesis
  proof (cases "retry_phase st (tc_retry c) ?d2")
    case (Inl e)
    then show ?thesis using d2 by (simp add: scheduler_tick_def Let_def case_prod_unfold evo.leads_refl)
  next
    case (Inr d3)
    then have "evolves d d3" using d2 evolves_retry_phase evo.leads_trans by blast
    then show ?thesis using Inr by (simp add: scheduler_tick_def Let_def case_prod_unfold evo.leads_refl)
  qed
qed

section \<open>Callbacks, Jenkins tasks, webhooks\<close>

lemma evolves_skip_stages: "evolves d0 d \<Longrightarrow> evolves d0 (skip_stages r d)"
  by (rule evolves_frame, assumption)
    (auto simp: service_ok_def workers_ok_def db_simps skip_stages_def db_ok_skip_stages [unfolded skip_stages_def])

lemma evolves_release: "evolves d0 d \<Longrightarrow> evolves d0 (release_worker d w r s t)"
  by (auto simp: release_worker_def Let_def close_assignment_def intro!: evolve_rules split: option.split)

lemma evolves_completed: "evolves d (fst (on_build_completed st d r result now))"
  by (auto simp: on_build_completed_def Let_def intro!: evolves_release evolves_skip_stages evolves_upd_run evo.leads_refl
      split: option.split)

lemma evolves_started: "evolves d (on_build_started d r n u now)"
proof -
  have "run_kept x (x\<lparr>pr_status := RS_IN_PROGRESS, pr_jenkins_build_number := Some n,
      pr_jenkins_build_url := Some u, pr_started_at := Some now\<rparr>)" for x
    by (simp add: run_kept_def run_identity_def)
  then show ?thesis by (auto simp: on_build_started_def Let_def intro!: evolve_rules split: option.split)
qed

lemma evolves_stage:
  "on_stage_started d r n now = Inr d' \<Longrightarrow> evolves d d'"
  "on_stage_completed d r n ok ex now = Inr d' \<Longrightarrow> evolves d d'"
  by (auto simp: on_stage_started_def on_stage_completed_def intro!: evolve_rules split: option.splits)

lemma evolves_sync_stage: "sync_stage get u r now js d = Inr d' \<Longrightarrow> evolves d d'"
  by (erule sync_stage_cases) (auto intro: evo.leads_refl evolves_stage)

lemma evolves_sync_all: "evolves d (fst (sync_all get u r now js d))"
proof (induction js arbitrary: d)
  case Nil
  show ?case by (simp add: evo.leads_refl)
next
  case (Cons j js)
  show ?case
  proof (cases "sync_stage get u r now j d")
    case (Inl e)
    then show ?thesis by (simp add: evo.leads_refl)
  next
    case (Inr d1)
    then show ?thesis using evo.leads_trans [OF evolves_sync_stage [OF Inr] Cons.IH] by simp
  qed
qed

lemma evolves_sync: "evolves d (fst (sync_stages st get d r job n u now))"
proof (rule sync_stages_cases [of st get d r job n u now])
  have s: "evolves d d1" if "d1 = d \<or> (\<exists>v xs. d1 = fst (sync_all get v r now xs d))" for d1
    using that evolves_sync_all evo.leads_refl by blast
  show ?thesis if "sync_stages st get d r job n u now = (d1, [], res)"
    "d1 = d \<or> (\<exists>v xs. d1 = fst (sync_all get v r now xs d))" for d1 res
    using that(1) s [OF that(2)] by simp
  show ?thesis if "sync_stages st get d r job n u now =
      (fst (on_build_completed st d1 r res now), snd (on_build_completed st d1 r res now), Inr True)"
    "d1 = d \<or> (\<exists>v xs. d1 = fst (sync_all get v r now xs d))" for d1 res
    using that(1) evo.leads_trans [OF s [OF that(2)] evolves_completed] by simp
qed

lemma evolves_finalize: "evolves d (fst (finalize_exhausted_poll st d r res now))"
  by (simp add: finalize_exhausted_poll_def evolves_completed evo.leads_refl split: option.split)

lemma evolves_give_up: "evolves d (fst (give_up_run st d r now))"
  by (simp add: give_up_run_def evolves_completed evo.leads_refl split: option.split)

lemma evolves_trigger_task: "evolves d (fst (trigger_jenkins_build st post items k d r job b sha now))"
  using evolves_finalize [of d st r "''ABORTED''" now]
  by (simp add: trigger_jenkins_build_def evolves_started evo.leads_refl case_prod_unfold Let_def split: sum.split)

lemma evolves_poll_task: "evolves d (fst (poll_pipeline_stages st get k d r job n u now))"
proof -
  let ?s = "sync_stages st get d r job n u now"
  have "evolves d (fst (finalize_exhausted_poll st (fst ?s) r res now))" for res
    by (rule evo.leads_trans [OF evolves_sync evolves_finalize])
  moreover obtain d1 effs x where s: "?s = (d1, effs, x)" by (cases ?s)
  ultimately show ?thesis using evolves_sync [of d st get r job n u now]
    by (cases x) (simp_all add: poll_pipeline_stages_def case_prod_unfold Let_def)
qed

lemma evolves_webhook_started: "evolves d (handle_build_started d payload now)"
proof -
  have "run_kept x (x\<lparr>pr_jenkins_build_url := None\<rparr>)" for x by (simp add: run_kept_def run_identity_def)
  then have "evolves d (upd_run r (\<lambda>r. r\<lparr>pr_jenkins_build_url := None\<rparr>) (on_build_started d r n [] now))" for r n
    using evolves_started by (intro evolves_upd_run)
  then show ?thesis using evolves_started evo.leads_refl
    by (auto simp: handle_build_started_def split: json.split option.split)
qed

lemma evolves_webhook_completed: "evolves d (fst (handle_build_completion st d payload now))"
proof -
  have "evolves d (fst (case x of Inr (Some r) \<Rightarrow> on_build_completed st d (pr_id r) res now | _ \<Rightarrow> (d, [])))" for x res
    using evolves_completed evo.leads_refl by (auto split: sum.split option.split)
  then show ?thesis using evo.leads_refl by (auto simp: handle_build_completion_def split: json.split)
qed

lemma evolves_analysis: "evolves d (fst (process_async st env d payload now))"
proof (cases "read_payload st payload")
  case (Inl e)
  then show ?thesis by (simp add: process_async_def evo.leads_refl)
next
  case b: (Inr b)
  show ?thesis
  proof (cases "already_analysed d (bi_job b) (bi_number b)")
    case True
    then show ?thesis using b by (simp add: process_async_def evo.leads_refl)
  next
    case False
    show ?thesis
    proof (cases "obtain_log st env b")
      case (Inl e)
      then show ?thesis using b False by (simp add: process_async_def evo.leads_refl)
    next
      case raw: (Inr raw)
      have "evolves d (fst (store_event d1 b t a ex raw now))" if "evolves d d1" for d1 t a ex
        using that by (auto simp: store_event_def intro: evolves_add_event split: sum.split)
      then have s: "evolves d (fst (analyse_and_store st env d b raw now))"
        using evolves_store_pattern by (auto simp: analyse_and_store_def Let_def evo.leads_refl split: sum.split)
      have "evolves d (fst (deliver st env d1 i nt))" if "evolves d d1" for d1 i nt
        using that by (auto simp: deliver_def Let_def intro: evolves_upd_event)
      then show ?thesis using s b False raw
        by (auto simp: process_async_def Let_def case_prod_unfold split: sum.split prod.splits)
    qed
  qed
qed

section \<open>Requests\<close>

lemma evolves_add_stages:
  assumes "get_run_row d r \<noteq> None"
  shows "evolves d (add_stages r i ns d)"
  using assms
proof (induction ns arbitrary: i d)
  case Nil
  show ?case by (simp add: evo.leads_refl)
next
  case (Cons n ns)
  have "evolves d (add_stage (new_stage r i n) d)"
    using Cons.prems by (intro evolves_add_stage evo.leads_refl) (simp add: new_stage_def)
  moreover have "evolves (add_stage (new_stage r i n) d) (add_stages r (Suc i) ns (add_stage (new_stage r i n) d))"
    using Cons.prems by (intro Cons.IH) (simp add: db_simps)
  ultimately show ?case unfolding add_stages.simps by (rule evo.leads_trans)
qed

lemma next_run_add_stages: "next_run (add_stages i k ns d) = next_run d"
  by (induction ns arbitrary: k d) (simp_all add: db_simps)

lemma scheduled_rows:
  assumes "schedule_pipeline st http_get d q now = Inr (d', run, effs)"
  shows "runs_t d' = runs_t d @ [run]" "pr_id run = next_run d" "next_run d' = next_run d + 1" "workers_t d' = workers_t d"
    "pr_status run = RS_QUEUED"
    "effs = [TriggerBuild (pr_id run) (the (pr_jenkins_job_name run)) (pr_branch run) (pr_commit_sha run)]"
  using assms
  by (auto simp: schedule_pipeline_def Let_def new_run_def db_simps next_run_add_stages run_tbl.rows_add run_tbl.nxt_add split: if_splits)

lemma evolves_schedule:
  assumes "schedule_pipeline st http_get d q now = Inr (d', run, effs)"
  shows "evolves d d'"
proof -
  have "\<exists>ns. d' = add_stages (next_run d) 0 ns (add_run run d) \<and> pr_retry_count run = 0 \<and> pr_max_retries run = 2"
    using assms by (intro exI [of _ "if found_stages st http_get q = [] then DEFAULT_STAGES else found_stages st http_get q"])
      (auto simp: schedule_pipeline_def Let_def new_run_def split: if_splits)
  then obtain ns where d': "d' = add_stages (next_run d) 0 ns (add_run run d)"
    and r: "pr_retry_count run = 0" "pr_max_retries run = 2" by blast
  have "get_run_row (add_run run d) (next_run d) \<noteq> None"
    unfolding run_tbl.get_None_iff by (simp add: run_tbl.rows_add)
  moreover have "evolves d (add_run run d)" using r by (intro evolves_add_run evo.leads_refl) simp_all
  ultimately show ?thesis unfolding d' using evolves_add_stages evo.leads_trans by blast
qed

lemma evolves_enqueue: "evolves d (fst (enqueue_run st http_get d q now))"
  using evolves_schedule evo.leads_refl by (auto simp: enqueue_run_def split: option.split sum.split)

lemma evolves_trigger_request: "trigger_pipeline st http_get d b now = Inr (d', j, effs) \<Longrightarrow> evolves d d'"
  by (auto simp: trigger_pipeline_def intro: evolves_schedule split: sum.splits pyerr.splits)

lemma evolves_retry_request:
  assumes "retry_run d i = Inr (d', j)"
  shows "evolves d d'"
proof -
  obtain r where r: "get_run_row d i = Some r" "pr_retry_count r < pr_max_retries r" "d' = upd_run i retried d"
    using assms by (auto simp: retry_run_def split: option.splits if_splits)
  show ?thesis
  proof (cases "db_ok d")
    case True
    have "x = r" if "x \<in> set (runs_t d)" "pr_id x = i" for x
      using run_tbl.get_mem [OF db_ok_keys(1) [OF True] that(1)] that(2) r(1) by simp
    then show ?thesis unfolding r(3) using r(2)
      by (intro evolves_upd_run_if evo.leads_refl) (simp add: retried_def, metis run_kept_retried)
  qed (simp add: evolves_def service_ok_def)
qed

lemma evolves_stage_request: "stage_event d i b now = Inr (d', j) \<Longrightarrow> evolves d d'"
  by (auto simp: stage_event_def rbind_eq_Inr intro: evolves_stage split: option.splits if_splits)

lemma evolves_cancel:
  assumes "cancel_run st d i now = Inr (d', j, effs)"
  shows "evolves d d'"
proof -
  have "run_kept x (x\<lparr>pr_status := RS_ABORTED\<rparr>)" for x by (simp add: run_kept_def run_identity_def)
  then have u: "evolves d (upd_run i (\<lambda>x. x\<lparr>pr_status := RS_ABORTED\<rparr>) d)" by (intro evolves_upd_run evo.leads_refl)
  have "d' = fst (on_build_completed st d i ''ABORTED'' now) \<or> d' = upd_run i (\<lambda>x. x\<lparr>pr_status := RS_ABORTED\<rparr>) d"
    using assms by (auto simp: cancel_run_def Let_def split: option.splits if_splits prod.splits)
  then show ?thesis using u evolves_completed by blast
qed

lemma evolves_flush: "evolves d (fst (flush_queue d))"
proof (cases "queued_ids d = []")
  case True
  then show ?thesis by (simp add: flush_queue_def Let_def evo.leads_refl)
next
  case False
  have "runs_evolve d (delete_runs ids d)" for ids
    by (auto simp: runs_evolve_def delete_runs_def dest: run_kept_mem)
  then have "evolves d (delete_runs (queued_ids d) d)"
    by (intro evolves_via [OF evo.leads_refl])
      (auto simp: service_ok_def db_ok_delete_runs workers_ok_def signatures_ok_def delete_runs_def
        db_ok_delete_runs [unfolded delete_runs_def])
  then show ?thesis using False by (simp add: flush_queue_def Let_def)
qed

lemma evolves_worker_requests:
  "set_offline d i = Inr (d', j) \<Longrightarrow> evolves d d'"
  "set_online d i = Inr (d', j) \<Longrightarrow> evolves d d'"
  "reset_worker_endpoint d i now = Inr (d', j) \<Longrightarrow> evolves d d'"
proof -
  show "set_offline d i = Inr (d', j) \<Longrightarrow> evolves d d'"
    by (auto simp: set_offline_def worker_ok_def load_ok_def intro!: evolve_rules split: option.splits)
  show "set_online d i = Inr (d', j) \<Longrightarrow> evolves d d'"
    by (auto simp: set_online_def worker_ok_def load_ok_def intro!: evolve_rules split: option.splits)
  assume r: "reset_worker_endpoint d i now = Inr (d', j)"
  then obtain w where "get_worker d i = Some w" by (auto simp: reset_worker_endpoint_def split: option.splits)
  from reset_endpoint_db [OF this r] show "evolves d d'" using evolves_recover_worker by simp
qed

lemma evolves_seed: "evolves d (seed_workers d now)"
  unfolding seed_workers_def
  by (auto split: option.split simp: evo.leads_refl intro!: evo.leads_fold evolves_add_worker)

lemma evolves_seed_request: "seed st d now = Inr (d', j) \<Longrightarrow> evolves d d'"
  using evolves_seed by (auto simp: seed_def split: if_splits)

lemma evolves_recover_request: "evolves d (fst (recover_all_workers st d now))"
  using evolves_recovery [of d st now] by (simp add: recover_all_workers_def case_prod_unfold Let_def)

lemma evolves_collect: "evolves d (collect_metrics d ps now)"
  unfolding collect_metrics_def drop_old_metrics_def add_metric_def by (auto intro!: evolves_metrics evo.leads_refl)

lemma evolves_persist_live: "evolves d (fst (persist_live ps now (d, prev)))"
  by (auto simp: persist_live_def add_metric_def intro!: evolves_metrics evo.leads_refl)

lemma evolves_startup: "evolves d (startup st pg d now)"
proof -
  have "list_all2 run_kept (runs_t d) (map backfill_priority (runs_t d))"
    by (simp add: list_all2_conv_all_nth)
  then have p: "evolves d (backfill_priorities d)" unfolding backfill_priorities_def by (intro evolves_runs evo.leads_refl)
  have w: "worker_ok w \<Longrightarrow> worker_ok (backfill_job e w)" for e w
    by (simp add: worker_ok_def load_ok_def backfill_job_def split: option.split)
  have "evolves d (backfill_jobs e)" if "evolves d e" for e
    using that unfolding backfill_jobs_def
    by (rule evolves_frame) (use w in \<open>auto simp: service_ok_def workers_ok_def intro: db_ok_map_workers\<close>)
  then have "evolves d (if pg then backfill_jobs (backfill_priorities d) else d)" using p evo.leads_refl by simp
  then show ?thesis using evo.leads_trans [OF _ evolves_seed] unfolding startup_def Let_def by presburger
qed

end
