(* ===== verification/System.thy ===== *)
theory System
  imports Evolution
begin

text \<open>
  The service as one transition system.  Its steps are the transactions the
  threads of the process commit: the parts of a scheduler tick (recovery, claim,
  assignment, revert, retries), what the execution of a run and the Celery tasks
  write, the webhooks, the requests of the API, the metrics, a restart.  They
  interleave freely.  A whole tick and a whole execution are paths of steps, and
  every reachable database keeps the invariant of the service.
\<close>

inductive service_step :: "settings \<Rightarrow> db \<Rightarrow> db \<Rightarrow> bool" for st :: settings where
  recover: "service_step st d (fst (recover_stale_workers st d now))"
| claim: "claim_run now i d = Some d' \<Longrightarrow> service_step st d d'"
| assign: "get_run_row d i \<noteq> None \<Longrightarrow> service_step st d (fst (assign_worker d i lang now))"
| revert: "service_step st d (upd_run i requeue d)"
| retries: "retry_phase st now d = Inr d' \<Longrightarrow> service_step st d d'"
| build_started: "service_step st d (on_build_started d i n u now)"
| build_completed: "service_step st d (fst (on_build_completed st d i result now))"
| sync: "service_step st d (fst (sync_stages st get d i job n bu now))"
| give_up: "service_step st d (fst (give_up_run st d i now))"
| trigger_task: "service_step st d (fst (trigger_jenkins_build st post items k d i job b sha now))"
| poll_task: "service_step st d (fst (poll_pipeline_stages st get k d i job n bu now))"
| webhook_started: "service_step st d (handle_build_started d payload now)"
| webhook_completed: "service_step st d (fst (handle_build_completion st d payload now))"
| analysis: "service_step st d (fst (process_async st env d payload now))"
| trigger: "trigger_pipeline st http_get d req now = Inr (d', j, effs) \<Longrightarrow> service_step st d d'"
| enqueue: "service_step st d (fst (enqueue_run st http_get d q now))"
| retry: "retry_run d i = Inr (d', j) \<Longrightarrow> service_step st d d'"
| cancel: "cancel_run st d i now = Inr (d', j, effs) \<Longrightarrow> service_step st d d'"
| flush: "service_step st d (fst (flush_queue d))"
| stage: "stage_event d i ev now = Inr (d', j) \<Longrightarrow> service_step st d d'"
| offline: "set_offline d i = Inr (d', j) \<Longrightarrow> service_step st d d'"
| online: "set_online d i = Inr (d', j) \<Longrightarrow> service_step st d d'"
| reset: "reset_worker_endpoint d i now = Inr (d', j) \<Longrightarrow> service_step st d d'"
| seed_request: "seed st d now = Inr (d', j) \<Longrightarrow> service_step st d d'"
| metrics: "service_step st d (collect_metrics d ps now)"
| live_metrics: "service_step st d (fst (persist_live ps now (d, prev)))"
| restart: "service_step st d (startup st pg d now)"

abbreviation service_steps :: "settings \<Rightarrow> db \<Rightarrow> db \<Rightarrow> bool" where
  "service_steps st \<equiv> (service_step st)\<^sup>*\<^sup>*"

interpretation path: evolution "service_steps st" for st
proof
  show "service_steps st d d" for d by simp
  show "service_steps st d e \<Longrightarrow> service_steps st e f \<Longrightarrow> service_steps st d f" for d e f
    by (rule rtranclp_trans)
qed

section \<open>Every step evolves the database\<close>

lemma claim_evolves: "claim_run now i d = Some d' \<Longrightarrow> evolves d d'"
  using claim_run_SomeD [of now i d d'] by (auto intro!: evolves_upd_run evo.leads_refl)

lemma step_evolves: "service_step st d d' \<Longrightarrow> evolves d d'"
proof (induction rule: service_step.induct)
  case (revert d i)
  show ?case by (rule evolves_upd_run [OF evo.leads_refl]) simp
qed (auto intro: evolves_recovery claim_evolves evolves_assign evolves_retry_phase evolves_started evolves_completed
    evolves_sync evolves_give_up evolves_trigger_task evolves_poll_task evolves_webhook_started
    evolves_webhook_completed evolves_analysis evolves_trigger_request evolves_enqueue evolves_retry_request
    evolves_cancel evolves_flush evolves_stage_request evolves_worker_requests evolves_seed_request
    evolves_collect evolves_persist_live evolves_startup)

lemma steps_evolve: "service_steps st d d' \<Longrightarrow> evolves d d'"
  by (induction rule: rtranclp_induct) (auto intro: evo.leads_refl evo.leads_trans step_evolves)

lemma service_ok_empty [simp]: "service_ok empty_db"
  by (simp add: service_ok_def retries_ok_def workers_ok_def signatures_ok_def) (simp add: empty_db_def)

lemma service_ok_startup: "service_ok (startup st pg empty_db now)"
  using evolves_startup [of empty_db st pg now] by (simp add: evolves_def)

section \<open>A tick and an execution are paths\<close>

lemma step_path: "service_step st d d' \<Longrightarrow> service_steps st d d'"
  by (rule r_into_rtranclp)

lemma dispatch_path: "service_steps st d (fst (dispatch_run_with assign_worker c r d))"
proof (cases "claim_run (tc_claim c (pr_id r)) (pr_id r) d")
  case None
  then show ?thesis by (simp add: dispatch_run_with_def)
next
  case (Some d1)
  let ?a = "assign_worker d1 (pr_id r) (detect_language (pr_repo_url r) (stage_names r)) (tc_assign c (pr_id r))"
  have "list_ex (\<lambda>x. pr_id x = pr_id r \<and> pr_status x = RS_QUEUED) (runs_t d)"
    using Some by (simp add: claim_run_def split: if_splits)
  then obtain x where "x \<in> set (runs_t d)" "pr_id r = pr_id x" by (auto simp: list_ex_iff)
  then have "get_run_row d1 (pr_id r) \<noteq> None"
    using claim_run_SomeD [OF Some] by (simp add: db_simps run_tbl.get_None_iff)
  then have "service_steps st d1 (fst ?a)" by (intro step_path service_step.assign)
  then have a: "service_steps st d (fst ?a)"
    by (rule path.leads_trans [OF step_path [OF service_step.claim [OF Some]]])
  then have "service_steps st d (upd_run (pr_id r) requeue (fst ?a))"
    by (rule path.leads_trans) (rule step_path [OF service_step.revert])
  then show ?thesis using a Some by (auto simp: dispatch_run_with_def split: prod.split option.split)
qed

lemma dispatch_all_path: "service_steps st d (fst (dispatch_all_with assign_worker c rs d))"
proof (induction rs arbitrary: d)
  case (Cons r rs)
  show ?case using path.leads_trans [OF dispatch_path Cons.IH] by (simp add: case_prod_unfold Let_def)
qed simp

lemma poll_path:
  assumes "\<And>k x. service_steps st x (su_others e k x)"
  shows "service_steps st d (fst (poll_build st e i job n u k m d))"
proof (induction k arbitrary: m d)
  case 0
  have "service_steps st d (fst (give_up_run st (su_others e m d) i (su_clock e m)))"
    using assms step_path [OF service_step.give_up] by (rule path.leads_trans)
  then show ?case by (simp add: case_prod_unfold Let_def)
next
  case (Suc k)
  let ?s = "sync_stages st (su_get e m) (su_others e m d) i job n (Some u) (su_clock e m)"
  obtain d1 effs r where s: "?s = (d1, effs, r)" by (cases ?s)
  have "service_steps st d (fst ?s)" using assms step_path [OF service_step.sync] by (rule path.leads_trans)
  then have d1: "service_steps st d d1" by (simp add: s)
  show ?case
  proof (cases "r = Inr True")
    case True
    then show ?thesis using d1 s by simp
  next
    case False
    then have "fst (poll_build st e i job n u (Suc k) m d) = fst (poll_build st e i job n u k (Suc m) d1)"
      by (cases r) (simp_all add: s case_prod_unfold Let_def split: bool.split)
    then show ?thesis using path.leads_trans [OF d1 Suc.IH] by simp
  qed
qed

lemma tick_is_path: "service_steps st d (fst (scheduler_tick st mode celery threads d c))"
proof -
  let ?d1 = "fst (recover_stale_workers st d (tc_recover c))"
  let ?d2 = "fst (dispatch_all c (queued_runs st mode ?d1) ?d1)"
  have d2: "service_steps st d ?d2"
    by (rule path.leads_trans [OF step_path [OF service_step.recover] dispatch_all_path])
  show ?thesis
  proof (cases "retry_phase st (tc_retry c) ?d2")
    case (Inl e)
    then show ?thesis using d2 by (simp add: scheduler_tick_def Let_def case_prod_unfold)
  next
    case (Inr d3)
    then have "service_steps st d d3" by (rule path.leads_trans [OF d2 step_path [OF service_step.retries]])
    then show ?thesis using Inr by (simp add: scheduler_tick_def Let_def case_prod_unfold)
  qed
qed

lemma execution_is_path:
  assumes "\<And>k x. service_steps st x (su_others e k x)"
  shows "service_steps st d (fst (run_execution st e d i))"
proof (cases "get_run_row d i")
  case None
  then show ?thesis by (simp add: run_execution_def)
next
  case (Some r)
  have f: "service_steps st d (fst (fail_run st (su_others e 0 d) i now))" for now
    using path.leads_trans [OF assms step_path [OF service_step.build_completed]]
    by (simp add: fail_run_def case_prod_unfold Let_def)
  have "service_steps st d (fst (poll_build st e i job n u k m (on_build_started (su_others e 0 d) i n u now)))" for job n u k m now
    using path.leads_trans [OF path.leads_trans [OF assms step_path [OF service_step.build_started]] poll_path [OF assms]] .
  then show ?thesis using f Some by (simp add: run_execution_def Let_def split: sum.split prod.split)
qed

section \<open>A scheduled run and its two triggers\<close>

lemma scheduled_job:
  assumes "schedule_pipeline st http_get d q now = Inr (d', run, effs)"
  shows "truthy (pr_jenkins_job_name run)"
proof -
  have "derive_job_name u b \<noteq> []" for u b by (simp add: derive_job_name_def Let_def)
  moreover have "pr_jenkins_job_name run = Some (derive_job_name (sr_repo_url q) (sr_branch q))"
    using assms by (auto simp: schedule_pipeline_def Let_def new_run_def split: if_splits)
  ultimately show ?thesis by (auto simp: truthy_def)
qed

lemma dispatch_only_run:
  assumes "service_ok d" "filter waiting (runs_t d) = []" "idle_ids d \<noteq> {}" "0 < MAX_CONCURRENT_EXECUTIONS st"
    and "schedule_pipeline st http_get d q now = Inr (d', run, effs)" "real_pipeline_run run"
  shows "\<exists>w d1. w \<in> idle_ids d \<and> dispatch_all c (queued_runs st mode d') d' = (d1, [ExecuteRun (pr_id run) w (stage_names run)])
    \<and> db_ok d1 \<and> get_run d1 (pr_id run) = Some (claimed (tc_claim c (pr_id run)) run)"
proof -
  note rows = scheduled_rows [OF assms(5)]
  have idle: "idle_ids d' = idle_ids d" by (simp add: idle_ids_def rows(4))
  have fin: "finite (idle_ids d)" by (simp add: idle_ids_def)
  have ok: "service_ok d'" using evolves_schedule [OF assms(5)] assms(1) by (simp add: evolves_def)
  then have db: "db_ok d'" by (rule service_okD)
  have q: "queued_runs st mode d' = [run]"
  proof -
    have w: "filter waiting (runs_t d') = [run]" using assms(2,6) rows(1,5) by (simp add: waiting_def)
    show ?thesis unfolding queued_runs_def w using assms(4) by (simp add: queue_order_def)
  qed
  have row: "get_run_row d' (pr_id run) = Some run"
    using run_tbl.get_mem [OF db_ok_keys(1) [OF db]] rows(1) by simp
  obtain ws e where e: "dispatch_all c [run] d' =
      (e, map2 (\<lambda>r w. ExecuteRun (pr_id r) w (stage_names r)) (take (card (idle_ids d)) [run]) ws)"
    "length ws = min 1 (card (idle_ids d))" "set ws \<subseteq> idle_ids d"
    "get_run_row e (pr_id run) = map_option (dispatched_row c (map pr_id (take (card (idle_ids d)) [run]))
       (map pr_id (drop (card (idle_ids d)) [run])) (pr_id run)) (get_run_row d' (pr_id run))"
    using tick_dispatch [OF db, of c st mode] unfolding q idle by auto
  have "0 < card (idle_ids d)" using assms(3) fin by (simp add: card_gt_0_iff)
  then obtain w where w: "ws = [w]" "take (card (idle_ids d)) [run] = [run]" using e(2) by (cases ws) (auto simp: take_Cons')
  have "service_ok e" using evolves_dispatch_all [of d' c "[run]"] ok e(1) by (simp add: evolves_def)
  then show ?thesis using e w row service_okD(1) unfolding q
    by (intro exI [of _ w] exI [of _ e]) (simp add: dispatched_row_def get_run_def)
qed

section \<open>Properties\<close>

text \<open>
  C1: every database the service can reach from its first start, whatever the
  interleaving of ticks, executions, tasks, webhooks and requests, is well
  formed: keys are distinct and below the next key, stages and assignments refer
  to stored runs and workers, loads are 0, 1/2 or 1 and busy workers have a
  heartbeat, retry counters stay within the limit of their run, no two patterns
  share a signature.
\<close>

theorem service_invariant:
  assumes "service_steps st (startup st pg empty_db t) d"
  shows "service_ok d"
  using steps_evolve [OF assms] service_ok_startup by (simp add: evolves_def)

text \<open>A first request on a fresh database, with synthetic stages allowed.\<close>

definition lenient_settings :: settings where
  "lenient_settings = default_settings\<lparr>ALLOW_SYNTHETIC_PIPELINE_STAGES := True\<rparr>"

definition first_db :: db where
  "first_db = startup lenient_settings False empty_db 0"

definition first_request :: trigger_request where
  "first_request = \<lparr>tr_repo_url = ''https://github.com/acme/app'', tr_branch = ''main'', tr_commit_sha = None,
     tr_author = None, tr_triggered_by = ''api'', tr_git_token = None, tr_changed_files = []\<rparr>"

lemma next_run_seed: "next_run (seed_workers d now) = next_run d"
proof -
  have "next_run (fold (\<lambda>(n, l, c). add_worker (new_worker n l c now)) xs d) = next_run d" for xs
    by (induction xs arbitrary: d) (auto simp: db_simps)
  then show ?thesis by (simp add: seed_workers_def split: option.split)
qed

lemma first_db_facts: "db_ok first_db" "next_run first_db = 1" "runs_t first_db = []"
proof -
  show "db_ok first_db" by (simp add: first_db_def db_ok_startup)
  show "runs_t first_db = []" by (simp add: first_db_def runs_startup empty_db_def)
  show "next_run first_db = 1" by (simp add: first_db_def startup_def Let_def next_run_seed empty_db_def)
qed

lemma first_request_stored:
  obtains d' j effs run where "trigger_pipeline lenient_settings jenkinsfile_server first_db first_request 5 = Inr (d', j, effs)"
    "get_run_row d' 1 = Some run" "pr_repo_url run = ''https://github.com/acme/app''" "pr_retry_count run = 0" "pr_max_retries run = 2"
    "pr_status run = RS_QUEUED"
proof -
  have "found_stages lenient_settings jenkinsfile_server (request_of_trigger first_request) \<noteq> []
      \<or> ALLOW_SYNTHETIC_PIPELINE_STAGES lenient_settings" by (simp add: lenient_settings_def)
  from schedule_pipeline_stored [OF first_db_facts(1) this, of 5] show thesis
  proof cases
    case (1 d')
    let ?run = "scheduled_run lenient_settings jenkinsfile_server first_db (request_of_trigger first_request) 5"
    have "pr_repo_url ?run = ''https://github.com/acme/app''" "pr_retry_count ?run = 0" "pr_max_retries ?run = 2"
      "pr_status ?run = RS_QUEUED"
      by (simp_all add: scheduled_run_def new_run_def request_of_trigger_def first_request_def)
    moreover have "get_run_row d' 1 = Some ?run" using 1(4) by (simp add: first_db_facts get_run_def)
    ultimately show ?thesis using that 1(1) by (simp add: trigger_pipeline_def)
  qed
qed

theorem service_invariant_witness:
  "\<exists>d. service_steps lenient_settings (startup lenient_settings False empty_db 0) d
     \<and> map_option pr_status (get_run_row d 1) = Some RS_QUEUED \<and> service_ok d"
proof -
  obtain d j effs run where t: "trigger_pipeline lenient_settings jenkinsfile_server first_db first_request 5 = Inr (d, j, effs)"
    and r: "get_run_row d 1 = Some run" "pr_status run = RS_QUEUED" by (rule first_request_stored)
  have p: "service_steps lenient_settings (startup lenient_settings False empty_db 0) d"
    using step_path [OF service_step.trigger [OF t]] by (simp only: first_db_def)
  show ?thesis by (intro exI [of _ d] conjI p service_invariant [OF p]) (simp add: r)
qed

text \<open>
  C3: along every path of the service a stored run keeps its identity (repository,
  branch, commit, author, origin, job name, time, stage list, retry limit), its
  retry counter never falls and never passes the limit; a key that is absent
  comes back only if it was never handed out: the key of a flushed run is not
  reused.
\<close>

theorem run_history:
  assumes "service_ok d" "service_steps st d d'" "get_run_row d' i = Some r'"
  shows "case get_run_row d i of
      Some r \<Rightarrow> run_identity r' = run_identity r \<and> pr_retry_count r \<le> pr_retry_count r'
        \<and> pr_retry_count r' \<le> pr_max_retries r
    | None \<Rightarrow> next_run d \<le> i"
proof -
  have e: "runs_evolve d d'" "service_ok d'" using steps_evolve [OF assms(2)] assms(1) by (simp_all add: evolves_def)
  have r': "r' \<in> set (runs_t d')" "pr_id r' = i" using run_tbl.get_SomeD [OF assms(3)] by simp_all
  have keys: "keys_ok pr_id (runs_t d) (next_run d)" by (rule db_ok_keys(1) [OF service_okD(1) [OF assms(1)]])
  show ?thesis
  proof (cases "get_run_row d i")
    case None
    then have "\<not> (\<exists>q \<in> set (runs_t d). run_kept q r')"
      using r'(2) run_kept_id [of _ r'] by (auto simp: run_tbl.get_None_iff)
    then have "next_run d \<le> i" using e(1) r' by (auto simp: runs_evolve_def)
    then show ?thesis by (simp add: None)
  next
    case (Some r)
    have r: "r \<in> set (runs_t d)" "pr_id r = i" using run_tbl.get_SomeD [OF Some] by simp_all
    then have "i < next_run d" using keys by (auto simp: keys_ok_def)
    then obtain q where q: "q \<in> set (runs_t d)" "run_kept q r'" using e(1) r' by (auto simp: runs_evolve_def)
    have "q = r" using run_tbl.get_mem [OF keys q(1)] run_kept_id [OF q(2)] r'(2) Some by simp
    moreover have "pr_retry_count r \<le> pr_max_retries r"
      using service_okD(3) [OF assms(1)] r(1) by (simp add: retries_ok_def list_all_iff)
    ultimately show ?thesis using q(2) by (simp add: Some run_kept_def run_identity_def)
  qed
qed

theorem run_history_witness:
  "\<exists>d d' r r'. get_run_row d 1 = Some r \<and> get_run_row d' 1 = Some r' \<and> service_steps lenient_settings d d'
     \<and> pr_status r = RS_QUEUED \<and> pr_status r' = RS_IN_PROGRESS
     \<and> run_identity r' = run_identity r \<and> pr_retry_count r \<le> pr_retry_count r' \<and> pr_retry_count r' \<le> pr_max_retries r"
proof -
  obtain d j effs r where t: "trigger_pipeline lenient_settings jenkinsfile_server first_db first_request 5 = Inr (d, j, effs)"
    and r: "get_run_row d 1 = Some r" "pr_status r = RS_QUEUED" by (rule first_request_stored)
  have ok: "service_ok d" using evolves_trigger_request [OF t] service_ok_startup
    by (simp add: evolves_def first_db_def)
  let ?d = "upd_run 1 (\<lambda>r. if pr_status r = RS_QUEUED then claimed 6 r else r) d"
  have p: "service_steps lenient_settings d ?d" by (rule step_path [OF service_step.claim [OF claim_run_queued [OF r]]])
  have r': "get_run_row ?d 1 = Some (claimed 6 r)" using r by (simp add: db_simps)
  have "case get_run_row d 1 of
      Some q \<Rightarrow> run_identity (claimed 6 r) = run_identity q \<and> pr_retry_count q \<le> pr_retry_count (claimed 6 r)
        \<and> pr_retry_count (claimed 6 r) \<le> pr_max_retries q
    | None \<Rightarrow> next_run d \<le> 1"
    by (rule run_history [OF ok p r'])
  then show ?thesis using r r' p by (intro exI [of _ d] exI [of _ ?d] exI [of _ r] exI [of _ "claimed 6 r"]) simp
qed

text \<open>
  C22: a scheduled run is built twice.  Scheduling hands its build to a Celery task;
  when the queue was empty, a worker is idle and the run is a real one, the next
  dispatch hands the same run to an execution.  Both trigger it, with the same
  job, branch and commit: the task stores the number of its build, and the
  execution, started afterwards on that very database, triggers again and
  replaces the number by that of its own build.  (Jenkins accepts both; nobody
  else touches the run meanwhile.)
\<close>

theorem scheduled_run_built_twice:
  assumes "service_ok d" "filter waiting (runs_t d) = []" "idle_ids d \<noteq> {}" "0 < MAX_CONCURRENT_EXECUTIONS st"
    and "schedule_pipeline st http_get d q now = Inr (d', run, effs)" "real_pipeline_run run" "pr_branch run \<noteq> []"
    and "trigger_jenkins st post items (the (pr_jenkins_job_name run)) (pr_branch run) (pr_commit_sha run) = Inr (n1, u1)"
    and "trigger_jenkins st (su_post e) (su_queue e) (the (pr_jenkins_job_name run)) (pr_branch run) (pr_commit_sha run) = Inr (n2, u2)"
    and "\<And>k x. db_ok x \<Longrightarrow> db_ok (su_others e k x)" "\<And>k x. get_run (su_others e k x) (pr_id run) = get_run x (pr_id run)"
  shows "effs = [TriggerBuild (pr_id run) (the (pr_jenkins_job_name run)) (pr_branch run) (pr_commit_sha run)]
    \<and> (\<exists>w d1 d2. w \<in> idle_ids d
        \<and> dispatch_all c (queued_runs st mode d') d' = (d1, [ExecuteRun (pr_id run) w (stage_names run)])
        \<and> trigger_jenkins_build st post items k d1 (pr_id run) (the (pr_jenkins_job_name run)) (pr_branch run) (pr_commit_sha run) t
            = (d2, [], Triggered n1 u1)
        \<and> map_option pr_jenkins_build_number (get_run d2 (pr_id run)) = Some (Some n1)
        \<and> map_option pr_jenkins_build_number (get_run (fst (run_execution st e d2 (pr_id run))) (pr_id run)) = Some (Some n2))"
proof -
  let ?i = "pr_id run"
  obtain w d1 where w: "w \<in> idle_ids d" "dispatch_all c (queued_runs st mode d') d' = (d1, [ExecuteRun ?i w (stage_names run)])"
    and d1: "db_ok d1" "get_run d1 ?i = Some (claimed (tc_claim c ?i) run)"
    using dispatch_only_run [OF assms(1-6), of c mode] by blast
  let ?d2 = "on_build_started d1 ?i n1 u1 t"
  have t: "trigger_jenkins_build st post items k d1 ?i (the (pr_jenkins_job_name run)) (pr_branch run) (pr_commit_sha run) t
      = (?d2, [], Triggered n1 u1)" by (simp add: trigger_jenkins_build_def assms(8))
  obtain r where r: "get_run ?d2 ?i = Some r" "pr_jenkins_build_number r = Some n1"
    "pr_jenkins_job_name r = pr_jenkins_job_name run" "pr_branch r = pr_branch run" "pr_commit_sha r = pr_commit_sha run"
    using started_identity [OF d1(2), of n1 u1 t] by (auto simp: claimed_def)
  have "map_option pr_jenkins_build_number (get_run (fst (run_execution st e ?d2 ?i)) ?i) = Some (Some n2)"
    by (rule execution_number [OF assms(10,11) db_ok_started [OF d1(1)] r(1)])
      (use scheduled_job [OF assms(5)] assms(7,9) r in simp_all)
  then show ?thesis using scheduled_rows(6) [OF assms(5)] w t r by (intro conjI exI [of _ w] exI [of _ d1] exI [of _ ?d2]) simp_all
qed

text \<open>Two Jenkins queue items with different builds.\<close>

definition build_item :: "int \<Rightarrow> string \<Rightarrow> http_result list" where
  "build_item n url = [Inr \<lparr>status_code = 200, response_text = [],
     response_json = Some (JObj [(''executable'', JObj [(''number'', JInt n), (''url'', JStr ''http://localhost:8080/build'')])]),
     location = []\<rparr>]"

definition second_build :: surroundings where
  "second_build = late_jenkins\<lparr>su_queue := build_item 8\<rparr>"

theorem scheduled_run_built_twice_witness:
  "\<exists>d' d1 d2 run effs w. schedule_pipeline lenient_settings jenkinsfile_server example_db example_request 5 = Inr (d', run, effs)
    \<and> effs = [TriggerBuild (pr_id run) (the (pr_jenkins_job_name run)) (pr_branch run) (pr_commit_sha run)]
    \<and> dispatch_all quiet_clock (queued_runs lenient_settings ''FIFO'' d') d' = (d1, [ExecuteRun (pr_id run) w (stage_names run)])
    \<and> trigger_jenkins_build lenient_settings queue_server (build_item 7) 0 d1 (pr_id run) (the (pr_jenkins_job_name run))
        (pr_branch run) (pr_commit_sha run) 20 = (d2, [], Triggered 7 ''http://localhost:8080/build'')
    \<and> map_option pr_jenkins_build_number (get_run d2 (pr_id run)) = Some (Some 7)
    \<and> map_option pr_jenkins_build_number (get_run (fst (run_execution lenient_settings second_build d2 (pr_id run))) (pr_id run))
        = Some (Some 8)"
proof -
  have ok: "db_ok example_db" by (simp add: example_db_def example_worker_def new_worker_def empty_db_def db_ok_def
        tables_ok_def refs_ok_def keys_ok_def)
  have sok: "service_ok example_db" using ok
    by (simp add: service_ok_def retries_ok_def workers_ok_def signatures_ok_def worker_ok_def load_ok_def
        example_db_def example_worker_def new_worker_def empty_db_def)
  have s: "found_stages lenient_settings jenkinsfile_server example_request \<noteq> [] \<or> ALLOW_SYNTHETIC_PIPELINE_STAGES lenient_settings"
    by (simp add: lenient_settings_def)
  from schedule_pipeline_stored [OF ok s, of 5] show ?thesis
  proof cases
    case (1 d')
    let ?run = "scheduled_run lenient_settings jenkinsfile_server example_db example_request 5"
    let ?job = "derive_job_name ''https://github.com/acme/app'' ''main''"
    have "real_pipeline_run ?run = real_pipeline_run ((hd (runs_t queue_db))\<lparr>pr_repo_url := ''https://github.com/acme/app''\<rparr>)"
      by (rule real_pipeline_run_cong) (simp_all add: scheduled_run_def new_run_def example_request_def queue_db_def)
    also have "\<dots>" by code_simp
    finally have real: "real_pipeline_run ?run" .
    have none: "filter waiting (runs_t example_db) = []" by (simp add: example_db_def empty_db_def)
    have idle: "idle_ids example_db \<noteq> {}" by (simp add: idle_one_db)
    have pos: "0 < MAX_CONCURRENT_EXECUTIONS lenient_settings" by (simp add: lenient_settings_def default_settings_def)
    have fields: "the (pr_jenkins_job_name ?run) = ?job" "pr_branch ?run = ''main''" "pr_commit_sha ?run = None"
      by (simp_all add: scheduled_run_def new_run_def example_request_def)
    have branch: "pr_branch ?run \<noteq> []" by (simp add: fields)
    have t: "trigger_jenkins lenient_settings queue_server (build_item 7) ?job ''main'' None = Inr (7, ''http://localhost:8080/build'')"
      "trigger_jenkins lenient_settings (su_post second_build) (su_queue second_build) ?job ''main'' None = Inr (8, ''http://localhost:8080/build'')"
      by code_simp+
    have o: "su_others second_build k x = x" for k x by (simp add: second_build_def late_jenkins_def)
    have oo: "db_ok x \<Longrightarrow> db_ok (su_others second_build k x)"
      "get_run (su_others second_build k x) (pr_id ?run) = get_run x (pr_id ?run)" for k x by (simp_all add: o)
    have t1: "trigger_jenkins lenient_settings queue_server (build_item 7) (the (pr_jenkins_job_name ?run)) (pr_branch ?run)
        (pr_commit_sha ?run) = Inr (7, ''http://localhost:8080/build'')"
      and t2: "trigger_jenkins lenient_settings (su_post second_build) (su_queue second_build) (the (pr_jenkins_job_name ?run))
        (pr_branch ?run) (pr_commit_sha ?run) = Inr (8, ''http://localhost:8080/build'')"
      unfolding fields by (rule t)+
    note twice = scheduled_run_built_twice [OF sok none idle pos 1(1) real branch t1 t2 oo, of quiet_clock "''FIFO''" 0 20]
    note e = twice [THEN conjunct1]
    obtain w d1 d2 where "dispatch_all quiet_clock (queued_runs lenient_settings ''FIFO'' d') d' = (d1, [ExecuteRun (pr_id ?run) w (stage_names ?run)])"
      "trigger_jenkins_build lenient_settings queue_server (build_item 7) 0 d1 (pr_id ?run) (the (pr_jenkins_job_name ?run))
        (pr_branch ?run) (pr_commit_sha ?run) 20 = (d2, [], Triggered 7 ''http://localhost:8080/build'')"
      "map_option pr_jenkins_build_number (get_run d2 (pr_id ?run)) = Some (Some 7)"
      "map_option pr_jenkins_build_number (get_run (fst (run_execution lenient_settings second_build d2 (pr_id ?run))) (pr_id ?run)) = Some (Some 8)"
      using twice [THEN conjunct2] by blast
    then show ?thesis using 1(1) e by (intro exI conjI)
  qed
qed

end
