(* ===== verification/Tick_Protocol.thy ===== *)
theory Tick_Protocol
  imports Evolution
begin

text \<open>
  Ticks that run at the same time (the background loop of the API process and the
  Celery beat worker), transaction by transaction: reading the queue, claiming a
  run by a guarded UPDATE, reading the idle workers, storing the assignment,
  putting the run back.  \<open>Scheduler\<close> models one undisturbed tick; here the
  transactions of any number of ticks, of the executions they launch and of some
  requests interleave.
\<close>

section \<open>The assignment in its two transactions' parts\<close>

text \<open>
  \<open>assign_worker\<close> reads the idle workers first; what it stores is computed from
  the row it read.
\<close>

definition store_assignment :: "db \<Rightarrow> int \<Rightarrow> worker \<Rightarrow> time \<Rightarrow> db" where
  "store_assignment d run_id chosen now =
     add_assign (new_assignment run_id (w_id chosen) now)
       (upd_worker (w_id chosen) (\<lambda>w. w\<lparr>w_status := WS_BUSY, w_load := min 1 (w_load chosen + 1/2),
          w_last_heartbeat := Some now, w_current_job := Some (job_title d run_id)\<rparr>) d)"

lemma assign_worker_parts:
  assumes "db_ok d"
  shows "fst (assign_worker d i l now) = (case chosen_worker d l of None \<Rightarrow> d | Some c \<Rightarrow> store_assignment d i c now)"
proof (cases "chosen_worker d l")
  case None
  then show ?thesis by (simp add: assign_worker_None)
next
  case (Some c)
  have keys: "keys_ok w_id (workers_t d) (next_worker d)" by (rule db_ok_keys(3) [OF assms])
  have "w = c" if "w \<in> set (workers_t d)" "w_id w = w_id c" for w
    using that worker_tbl.get_mem [OF keys] chosen_worker_idle(1) [OF Some] by (metis option.inject)
  then have "upd_row w_id (w_id c) (occupy (job_title d i) now) (workers_t d) =
      upd_row w_id (w_id c) (\<lambda>w. w\<lparr>w_status := WS_BUSY, w_load := min 1 (w_load c + 1/2),
          w_last_heartbeat := Some now, w_current_job := Some (job_title d i)\<rparr>) (workers_t d)"
    by (auto simp: upd_row_def occupy_def)
  then have "upd_worker (w_id c) (occupy (job_title d i) now) d =
      upd_worker (w_id c) (\<lambda>w. w\<lparr>w_status := WS_BUSY, w_load := min 1 (w_load c + 1/2),
          w_last_heartbeat := Some now, w_current_job := Some (job_title d i)\<rparr>) d"
    by (simp add: upd_worker_def)
  then show ?thesis by (simp add: assign_worker_Some [OF keys Some] Some store_assignment_def assign_effect_def)
qed

section \<open>The step relation\<close>

text \<open>Where a tick stands in its loop over the runs it read.\<close>

datatype tick_pc =
    Idle
  | Looping "pipeline_run list"
  | Claimed pipeline_run "pipeline_run list"
  | Chosen pipeline_run "worker option" "pipeline_run list"

record protocol =
  pt_db :: db
  pt_pc :: "nat \<Rightarrow> tick_pc"
  pt_exec :: "(int \<times> int) list"

fun holding :: "tick_pc \<Rightarrow> int option" where
  "holding (Claimed r rs) = Some (pr_id r)"
| "holding (Chosen r w rs) = Some (pr_id r)"
| "holding _ = None"

definition owned :: "protocol \<Rightarrow> int set" where
  "owned s = {i. \<exists>t. holding (pt_pc s t) = Some i} \<union> fst ` set (pt_exec s)"

text \<open>
  The transactions that put runs back into the queue, each as one of its callers
  commits it: the recovery of a tick, its retry phase, the retry button, the
  reset of a worker.  None of them looks at whether a tick or an execution still
  has the run.
\<close>

inductive put_back :: "settings \<Rightarrow> db \<Rightarrow> db \<Rightarrow> bool" for st :: settings where
  recover: "put_back st d (fst (recover_stale_workers st d now))"
| auto_retry: "retry_phase st now d = Inr d' \<Longrightarrow> put_back st d d'"
| retry: "retry_run d i = Inr (d', j) \<Longrightarrow> put_back st d d'"
| reset: "reset_worker_endpoint d i now = Inr (d', j) \<Longrightarrow> put_back st d d'"

text \<open>
  The steps of tick \<open>t\<close> (\<open>read\<close> to \<open>putback\<close>), of the executions (\<open>started\<close>,
  \<open>finished\<close>, \<open>ended\<close>) and of the other transactions: the requests, the webhooks,
  the Jenkins tasks, and those of \<open>put_back\<close>.
\<close>

inductive tick_step :: "settings \<Rightarrow> string \<Rightarrow> protocol \<Rightarrow> protocol \<Rightarrow> bool" for st :: settings and mode :: string where
  read: "pt_pc s t = Idle \<Longrightarrow>
    tick_step st mode s (s\<lparr>pt_pc := (pt_pc s)(t := Looping (queued_runs st mode (pt_db s)))\<rparr>)"
| leave: "pt_pc s t = Looping [] \<Longrightarrow> tick_step st mode s (s\<lparr>pt_pc := (pt_pc s)(t := Idle)\<rparr>)"
| skip: "\<lbrakk>pt_pc s t = Looping (r # rs); claim_run now (pr_id r) (pt_db s) = None\<rbrakk> \<Longrightarrow>
    tick_step st mode s (s\<lparr>pt_pc := (pt_pc s)(t := Looping rs)\<rparr>)"
| claim: "\<lbrakk>pt_pc s t = Looping (r # rs); claim_run now (pr_id r) (pt_db s) = Some d'\<rbrakk> \<Longrightarrow>
    tick_step st mode s (s\<lparr>pt_db := d', pt_pc := (pt_pc s)(t := Claimed r rs)\<rparr>)"
| choose: "pt_pc s t = Claimed r rs \<Longrightarrow>
    tick_step st mode s (s\<lparr>pt_pc := (pt_pc s)(t :=
      Chosen r (chosen_worker (pt_db s) (detect_language (pr_repo_url r) (stage_names r))) rs)\<rparr>)"
| assign: "pt_pc s t = Chosen r (Some w) rs \<Longrightarrow>
    tick_step st mode s (s\<lparr>pt_db := store_assignment (pt_db s) (pr_id r) w now,
      pt_pc := (pt_pc s)(t := Looping rs), pt_exec := pt_exec s @ [(pr_id r, w_id w)]\<rparr>)"
| putback: "pt_pc s t = Chosen r None rs \<Longrightarrow>
    tick_step st mode s (s\<lparr>pt_db := upd_run (pr_id r) requeue (pt_db s), pt_pc := (pt_pc s)(t := Looping rs)\<rparr>)"
| started: "tick_step st mode s (s\<lparr>pt_db := on_build_started (pt_db s) i n u now\<rparr>)"
| finished: "(i, w) \<in> set (pt_exec s) \<Longrightarrow>
    tick_step st mode s (s\<lparr>pt_db := fst (on_build_completed st (pt_db s) i result now), pt_exec := remove1 (i, w) (pt_exec s)\<rparr>)"
| ended: "(i, w) \<in> set (pt_exec s) \<Longrightarrow> tick_step st mode s (s\<lparr>pt_exec := remove1 (i, w) (pt_exec s)\<rparr>)"
| sync: "tick_step st mode s (s\<lparr>pt_db := fst (sync_stages st get (pt_db s) i job n bu now)\<rparr>)"
| trigger_task: "tick_step st mode s (s\<lparr>pt_db := fst (trigger_jenkins_build st post items k (pt_db s) i job b sha now)\<rparr>)"
| poll_task: "tick_step st mode s (s\<lparr>pt_db := fst (poll_pipeline_stages st get k (pt_db s) i job n bu now)\<rparr>)"
| trigger: "trigger_pipeline st http_get (pt_db s) req now = Inr (d', j, effs) \<Longrightarrow> tick_step st mode s (s\<lparr>pt_db := d'\<rparr>)"
| enqueue: "tick_step st mode s (s\<lparr>pt_db := fst (enqueue_run st http_get (pt_db s) q now)\<rparr>)"
| cancel: "cancel_run st (pt_db s) i now = Inr (d', j, effs) \<Longrightarrow> tick_step st mode s (s\<lparr>pt_db := d'\<rparr>)"
| flush: "tick_step st mode s (s\<lparr>pt_db := fst (flush_queue (pt_db s))\<rparr>)"
| webhook_started: "tick_step st mode s (s\<lparr>pt_db := handle_build_started (pt_db s) payload now\<rparr>)"
| webhook: "tick_step st mode s (s\<lparr>pt_db := fst (handle_build_completion st (pt_db s) payload now)\<rparr>)"
| put: "put_back st (pt_db s) d' \<Longrightarrow> tick_step st mode s (s\<lparr>pt_db := d'\<rparr>)"

definition quiet :: "db \<Rightarrow> protocol" where
  "quiet d = \<lparr>pt_db = d, pt_pc = (\<lambda>t. Idle), pt_exec = []\<rparr>"

abbreviation tick_steps :: "settings \<Rightarrow> string \<Rightarrow> protocol \<Rightarrow> protocol \<Rightarrow> bool" where
  "tick_steps st mode \<equiv> (tick_step st mode)\<^sup>*\<^sup>*"

section \<open>An owned run is not queued\<close>

definition not_queued :: "db \<Rightarrow> int \<Rightarrow> bool" where
  "not_queued d i \<longleftrightarrow> i < next_run d \<and> list_all (\<lambda>r. pr_id r = i \<longrightarrow> pr_status r \<noteq> RS_QUEUED) (runs_t d)"

text \<open>What every operation does to the other runs: it does not put them into the queue.\<close>

definition keys_below :: "db \<Rightarrow> bool" where
  "keys_below d \<longleftrightarrow> list_all (\<lambda>r. pr_id r < next_run d) (runs_t d)"

definition leaves :: "db \<Rightarrow> db \<Rightarrow> bool" where
  "leaves d d' \<longleftrightarrow> (\<forall>i. not_queued d i \<longrightarrow> not_queued d' i) \<and> (keys_below d \<longrightarrow> keys_below d')"

interpretation leave: evolution leaves
  by unfold_locales (simp_all add: leaves_def)

lemma leaves_frame: "runs_t d' = runs_t d \<Longrightarrow> next_run d' = next_run d \<Longrightarrow> leaves d d'"
  by (simp add: leaves_def not_queued_def keys_below_def)

lemma list_all_upd_row: "list_all P (upd_row key i f rs) \<longleftrightarrow> list_all (\<lambda>r. P (if key r = i then f r else r)) rs"
  by (induction rs) (simp_all add: upd_row_def)

lemma not_queued_upd:
  "not_queued (upd_run i f d) j \<longleftrightarrow> j < next_run d \<and>
     list_all (\<lambda>r. pr_id (if pr_id r = i then f r else r) = j \<longrightarrow> pr_status (if pr_id r = i then f r else r) \<noteq> RS_QUEUED) (runs_t d)"
  by (simp add: not_queued_def run_tbl.rows_upd list_all_upd_row)

lemma keys_below_upd: "(\<And>r. pr_id (f r) = pr_id r) \<Longrightarrow> keys_below (upd_run i f d) = keys_below d"
proof -
  assume f: "\<And>r. pr_id (f r) = pr_id r"
  have "keys_below d \<longleftrightarrow> list_all (\<lambda>i. i < next_run d) (map pr_id (runs_t d))" for d
    by (simp add: keys_below_def list_all_iff)
  then show ?thesis by (simp only: run_tbl.keys_upd [of f, OF f] next_run_upd)
qed

lemma leaves_upd_run:
  assumes "\<And>r. pr_id (f r) = pr_id r" "\<And>r. pr_status r \<noteq> RS_QUEUED \<Longrightarrow> pr_status (f r) \<noteq> RS_QUEUED"
  shows "leaves d (upd_run i f d)"
proof -
  have "not_queued (upd_run i f d) j" if "not_queued d j" for j
    using that assms unfolding not_queued_upd unfolding not_queued_def by (auto elim!: list.pred_mono_strong)
  then show ?thesis using assms(1) by (simp add: leaves_def keys_below_upd)
qed

lemma not_queued_claimed: "i < next_run d \<Longrightarrow> not_queued (upd_run i (\<lambda>r. if pr_status r = RS_QUEUED then claimed now r else r) d) i"
  unfolding not_queued_upd list_all_iff by simp

lemma leaves_upd_other:
  assumes "i \<noteq> j" "\<And>r. pr_id (f r) = pr_id r" "not_queued d j"
  shows "not_queued (upd_run i f d) j"
  using assms(3) unfolding not_queued_upd unfolding not_queued_def
  using assms(1,2) by (auto elim!: list.pred_mono_strong)

lemma leaves_claim: "claim_run now i d = Some d' \<Longrightarrow> leaves d d' \<and> \<not> not_queued d i"
  using claim_run_SomeD [of now i d d'] leaves_upd_run [of "\<lambda>r. if pr_status r = RS_QUEUED then claimed now r else r" d i]
  by (auto simp: claim_run_def not_queued_def list_ex_iff list_all_iff split: if_splits)

lemma leaves_store: "leaves d (store_assignment d i w now)"
  by (rule leaves_frame) (simp_all add: store_assignment_def db_simps)

lemma leaves_started: "leaves d (on_build_started d i n u now)"
proof -
  let ?d = "upd_run i (\<lambda>r. r\<lparr>pr_status := RS_IN_PROGRESS, pr_jenkins_build_number := Some n,
      pr_jenkins_build_url := Some u, pr_started_at := Some now\<rparr>) d"
  have "leaves d ?d" by (rule leaves_upd_run) simp_all
  moreover have "leaves ?d (upd_assign k f ?d)" for k f by (rule leaves_frame) (simp_all add: db_simps)
  ultimately show ?thesis using leave.leads_refl leave.leads_trans
    by (auto simp: on_build_started_def Let_def split: option.split)
qed

lemma leaves_completed: "leaves d (fst (on_build_completed st d i result now))"
proof -
  let ?e = "upd_run i (finish_run result now) d"
  let ?d = "skip_stages i ?e"
  have d0: "leaves d ?e" by (rule leaves_upd_run) (simp_all add: status_of_result_def)
  have "leaves ?e ?d" by (rule leaves_frame) (simp_all add: skip_stages_def)
  then have d: "leaves d ?d" by (rule leave.leads_trans [OF d0])
  have "leaves ?d (release_worker ?d w i s now)" for w s
    by (rule leaves_frame) (simp_all add: db_simps release_worker_def Let_def split: option.split)
  then have "leaves d (release_worker ?d w i s now)" for w s by (rule leave.leads_trans [OF d])
  then show ?thesis using d leave.leads_refl by (simp add: on_build_completed_def Let_def split: option.split)
qed

lemma leaves_webhook: "leaves d (fst (handle_build_completion st d payload now))"
proof -
  have "leaves d (fst (case x of Inr (Some r) \<Rightarrow> on_build_completed st d (pr_id r) res now | _ \<Rightarrow> (d, [])))" for x res
    using leaves_completed leave.leads_refl by (auto split: sum.split option.split)
  then show ?thesis using leave.leads_refl by (auto simp: handle_build_completion_def split: json.split)
qed

lemma leaves_webhook_started: "leaves d (handle_build_started d payload now)"
proof -
  have "leaves d (upd_run r (\<lambda>r. r\<lparr>pr_jenkins_build_url := None\<rparr>) (on_build_started d r n [] now))" for r n
    by (rule leave.leads_trans [OF leaves_started leaves_upd_run]) simp_all
  then show ?thesis using leaves_started leave.leads_refl
    by (auto simp: handle_build_started_def split: json.split option.split)
qed

lemma leaves_stage:
  "on_stage_started d r n now = Inr d' \<Longrightarrow> leaves d d'"
  "on_stage_completed d r n ok ex now = Inr d' \<Longrightarrow> leaves d d'"
  by (auto simp: on_stage_started_def on_stage_completed_def db_simps intro!: leaves_frame split: option.splits)

lemma leaves_sync_all: "leaves d (fst (sync_all get u r now js d))"
proof (induction js arbitrary: d)
  case (Cons j js)
  show ?case
  proof (cases "sync_stage get u r now j d")
    case (Inr d1)
    then have "leaves d d1" by (rule sync_stage_cases) (auto intro: leave.leads_refl leaves_stage)
    then show ?thesis using Inr leave.leads_trans [OF _ Cons.IH] by simp
  qed (simp add: leave.leads_refl)
qed (simp add: leave.leads_refl)

lemma leaves_sync: "leaves d (fst (sync_stages st get d r job n u now))"
proof (rule sync_stages_cases [of st get d r job n u now])
  have s: "leaves d d1" if "d1 = d \<or> (\<exists>v xs. d1 = fst (sync_all get v r now xs d))" for d1
    using that leave.leads_refl leaves_sync_all by auto
  show ?thesis if "sync_stages st get d r job n u now = (d1, [], res)"
    "d1 = d \<or> (\<exists>v xs. d1 = fst (sync_all get v r now xs d))" for d1 res
    using that(1) s [OF that(2)] by simp
  show ?thesis if "sync_stages st get d r job n u now =
      (fst (on_build_completed st d1 r res now), snd (on_build_completed st d1 r res now), Inr True)"
    "d1 = d \<or> (\<exists>v xs. d1 = fst (sync_all get v r now xs d))" for d1 res
    using that(1) leave.leads_trans [OF s [OF that(2)] leaves_completed] by simp
qed

lemma leaves_finalize: "leaves d (fst (finalize_exhausted_poll st d r res now))"
  by (simp add: finalize_exhausted_poll_def leaves_completed leave.leads_refl split: option.split)

lemma leaves_trigger_task: "leaves d (fst (trigger_jenkins_build st post items k d r job b sha now))"
  using leaves_finalize [of d st r "''ABORTED''" now]
  by (simp add: trigger_jenkins_build_def leaves_started leave.leads_refl case_prod_unfold Let_def split: sum.split)

lemma leaves_poll_task: "leaves d (fst (poll_pipeline_stages st get k d r job n u now))"
proof -
  let ?s = "sync_stages st get d r job n u now"
  have "leaves d (fst (finalize_exhausted_poll st (fst ?s) r res now))" for res
    by (rule leave.leads_trans [OF leaves_sync leaves_finalize])
  moreover obtain d1 effs x where s: "?s = (d1, effs, x)" by (cases ?s)
  ultimately show ?thesis using leaves_sync [of d st get r job n u now]
    by (cases x) (simp_all add: poll_pipeline_stages_def case_prod_unfold Let_def)
qed

lemma leaves_cancel:
  assumes "cancel_run st d i now = Inr (d', j, effs)"
  shows "leaves d d'"
proof -
  have "leaves d (upd_run i (\<lambda>x. x\<lparr>pr_status := RS_ABORTED\<rparr>) d)" by (rule leaves_upd_run) simp_all
  moreover have "d' = fst (on_build_completed st d i ''ABORTED'' now) \<or> d' = upd_run i (\<lambda>x. x\<lparr>pr_status := RS_ABORTED\<rparr>) d"
    using assms by (auto simp: cancel_run_def Let_def split: option.splits if_splits prod.splits)
  ultimately show ?thesis using leaves_completed by blast
qed

lemma leaves_flush: "leaves d (fst (flush_queue d))"
  by (auto simp: leaves_def not_queued_def keys_below_def flush_queue_def Let_def delete_runs_def list_all_iff)

lemma leaves_schedule:
  assumes "schedule_pipeline st http_get d q now = Inr (d', run, effs)"
  shows "leaves d d'"
proof -
  have "runs_t d' = runs_t d @ [run]" "pr_id run = next_run d" "next_run d' = next_run d + 1"
    using assms by (rule scheduled_rows)+
  then show ?thesis by (auto simp: leaves_def not_queued_def keys_below_def list_all_iff)
qed

lemma leaves_trigger:
  assumes "trigger_pipeline st http_get d req now = Inr (d', j, effs)"
  shows "leaves d d'"
  using assms by (auto simp: trigger_pipeline_def intro: leaves_schedule split: sum.splits pyerr.splits)

lemma leaves_enqueue: "leaves d (fst (enqueue_run st http_get d q now))"
  using leaves_schedule leave.leads_refl by (auto simp: enqueue_run_def split: option.split sum.split)

text \<open>A transaction that puts runs back keeps the keys of the runs.\<close>

definition same_keys :: "db \<Rightarrow> db \<Rightarrow> bool" where
  "same_keys d d' \<longleftrightarrow> map pr_id (runs_t d') = map pr_id (runs_t d) \<and> next_run d' = next_run d"

interpretation key: evolution same_keys
  by unfold_locales (simp_all add: same_keys_def)

lemma same_keys_upd_run: "(\<And>r. pr_id (f r) = pr_id r) \<Longrightarrow> same_keys d (upd_run i f d)"
  by (simp add: same_keys_def run_tbl.keys_upd)

lemma same_keys_frame: "runs_t d' = runs_t d \<Longrightarrow> next_run d' = next_run d \<Longrightarrow> same_keys d d'"
  by (simp add: same_keys_def)

lemma keys_below_same: "same_keys d d' \<Longrightarrow> keys_below d' = keys_below d"
proof -
  assume k: "same_keys d d'"
  have "keys_below d \<longleftrightarrow> list_all (\<lambda>i. i < next_run d) (map pr_id (runs_t d))" for d
    by (simp add: keys_below_def list_all_iff)
  then show ?thesis using k by (simp only: same_keys_def)
qed

lemma same_keys_recover_worker: "same_keys d (recover_worker why now w d)"
proof -
  have "same_keys d (expire_assignment why now a d)" for a d
    unfolding expire_assignment_def
    by (rule key.leads_trans [OF same_keys_upd_run same_keys_frame]) (simp_all add: db_simps)
  then have "same_keys d (fold (expire_assignment why now) (open_of_worker d (w_id w)) d)" by (intro key.leads_fold)
  then show ?thesis unfolding recover_worker_def
    by (rule key.leads_trans [OF _ same_keys_frame]) (simp_all add: db_simps)
qed

lemma same_keys_recover_run: "same_keys (fst s) (fst (recover_run now r s))"
proof -
  have "same_keys (fst s) (fst (abandon_assignment now a s))" for a s
    by (cases s) (auto intro!: same_keys_frame simp: abandon_assignment_def Let_def db_simps)
  then have "same_keys (fst s) (fst (fold (abandon_assignment now) (open_assignments (fst s) (pr_id r)) s))"
    by (rule key.leads_fold_proj [where proj = fst])
  then show ?thesis unfolding recover_run_eq Let_def
    by (auto elim!: key.leads_trans intro!: same_keys_upd_run)
qed

lemma same_keys_recovery: "same_keys d (fst (recover_stale_workers st d now))"
proof -
  let ?d1 = "fold (recover_worker ''TIMEOUT'' now) (filter (stale (recovery_cutoff st now)) (workers_t d)) d"
  have a: "same_keys d ?d1" by (rule key.leads_fold) (rule same_keys_recover_worker)
  have "same_keys (fst s) (fst (fold (recover_run now) rs s))" for s rs
    by (rule key.leads_fold_proj [where proj = fst]) (rule same_keys_recover_run)
  from this [of "(?d1, n)" for n] have "same_keys ?d1 (fst (fold (recover_run now) rs (?d1, n)))" for n rs
    by (simp only: fst_conv)
  from key.leads_trans [OF a this] show ?thesis unfolding recover_stale_workers_def Let_def .
qed

lemma same_keys_retry_phase:
  assumes "retry_phase st now d = Inr d'"
  shows "same_keys d d'"
proof -
  obtain rs where rs: "mapM_res (\<lambda>r. if retry_eligible r then auto_retry (PIPELINE_RETRY_BACKOFF_SECONDS st) now r else Inr r) (runs_t d) = Inr rs"
    and d': "d' = d\<lparr>runs_t := rs\<rparr>"
    using assms by (auto simp: retry_phase_def rbind_eq_Inr)
  have "list_all2 (\<lambda>x y. pr_id y = pr_id x) (runs_t d) rs"
    using rs by (rule mapM_res_list_all2) (auto dest!: auto_retry_kept run_kept_id)
  then have "map pr_id rs = map pr_id (runs_t d)" by (induction rule: list_all2_induct) simp_all
  then show ?thesis unfolding d' by (simp add: same_keys_def)
qed

lemma put_back_keys: "put_back st d d' \<Longrightarrow> same_keys d d'"
proof (induction rule: put_back.induct)
  case (retry d i d' j)
  then have "d' = upd_run i retried d" by (auto simp: retry_run_def split: option.splits if_splits)
  then show ?case by (simp add: same_keys_upd_run retried_def)
next
  case (reset d i now d' j)
  then obtain w where "get_worker d i = Some w" by (auto simp: reset_worker_endpoint_def split: option.splits)
  from reset_endpoint_db [OF this reset] show ?case by (simp add: same_keys_recover_worker)
qed (simp_all add: same_keys_recovery same_keys_retry_phase)

section \<open>One owner\<close>

definition one_owner :: "protocol \<Rightarrow> int \<Rightarrow> bool" where
  "one_owner s i \<longleftrightarrow>
     (\<forall>t u. holding (pt_pc s t) = Some i \<and> holding (pt_pc s u) = Some i \<longrightarrow> t = u)
     \<and> (\<forall>t. holding (pt_pc s t) = Some i \<longrightarrow> i \<notin> fst ` set (pt_exec s))
     \<and> count_list (map fst (pt_exec s)) i \<le> 1"

definition exclusive :: "protocol \<Rightarrow> int \<Rightarrow> bool" where
  "exclusive s i \<longleftrightarrow> one_owner s i \<and> (i \<in> owned s \<longrightarrow> not_queued (pt_db s) i) \<and> keys_below (pt_db s)"

lemma exclusive_db:
  assumes "exclusive s i" "leaves (pt_db s) d'"
  shows "exclusive (s\<lparr>pt_db := d'\<rparr>) i"
  using assms by (simp add: exclusive_def one_owner_def owned_def leaves_def)

lemma count_notin: "x \<notin> set xs \<Longrightarrow> count_list xs x = 0"
  by (simp add: count_list_0_iff)

lemma count_remove1: "count_list (map f (remove1 x xs)) i \<le> count_list (map f xs) i"
  by (induction xs) auto

lemma exclusive_less:
  assumes "exclusive s i" "pt_db s' = pt_db s" "\<And>t. holding (pt_pc s' t) = Some i \<Longrightarrow> holding (pt_pc s t) = Some i"
    "set (pt_exec s') \<subseteq> set (pt_exec s)" "count_list (map fst (pt_exec s')) i \<le> count_list (map fst (pt_exec s)) i"
  shows "exclusive s' i"
proof -
  have sub: "i \<in> owned s' \<Longrightarrow> i \<in> owned s" using assms(3,4) by (auto simp: owned_def)
  have "one_owner s' i" unfolding one_owner_def
  proof (intro conjI allI impI)
    fix t u
    assume "holding (pt_pc s' t) = Some i \<and> holding (pt_pc s' u) = Some i"
    then have "holding (pt_pc s t) = Some i" "holding (pt_pc s u) = Some i" by (simp_all add: assms(3))
    then show "t = u" using assms(1) unfolding exclusive_def one_owner_def by blast
  next
    fix t
    assume "holding (pt_pc s' t) = Some i"
    then have "i \<notin> fst ` set (pt_exec s)" using assms(1) assms(3) [of t] unfolding exclusive_def one_owner_def by blast
    then show "i \<notin> fst ` set (pt_exec s')" using assms(4) by blast
  qed (use assms(1,5) in \<open>simp add: exclusive_def one_owner_def\<close>)
  then show ?thesis using assms(1,2) sub by (simp add: exclusive_def)
qed

lemma exclusive_pc:
  assumes "exclusive s i" "holding p = None \<or> holding p = holding (pt_pc s t)"
  shows "exclusive (s\<lparr>pt_pc := (pt_pc s)(t := p)\<rparr>) i"
  using assms by (intro exclusive_less [OF assms(1)]) (auto split: if_splits)

lemma exclusive_exec: "exclusive s i \<Longrightarrow> exclusive (s\<lparr>pt_exec := remove1 x (pt_exec s)\<rparr>) i"
  by (rule exclusive_less, assumption) (simp_all add: set_remove1_subset count_remove1)

lemma exclusive_requeue:
  assumes "exclusive s j" "i \<notin> owned s" "\<And>r. pr_id (f r) = pr_id r"
  shows "exclusive (s\<lparr>pt_db := upd_run i f (pt_db s)\<rparr>) j"
proof -
  have "not_queued (upd_run i f (pt_db s)) j" if "j \<in> owned s"
    using that assms by (intro leaves_upd_other) (auto simp: exclusive_def)
  then show ?thesis using assms by (simp add: exclusive_def one_owner_def owned_def keys_below_upd)
qed

lemma exclusive_claim:
  assumes "exclusive s i" "holding (pt_pc s t) = None" "claim_run now (pr_id r) (pt_db s) = Some d'"
  shows "exclusive (s\<lparr>pt_db := d', pt_pc := (pt_pc s)(t := Claimed r rs)\<rparr>) i"
proof -
  have d': "leaves (pt_db s) d'" "\<not> not_queued (pt_db s) (pr_id r)" using leaves_claim [OF assms(3)] by simp_all
  then have fresh: "i = pr_id r \<Longrightarrow> i \<notin> owned s" using assms(1) by (auto simp: exclusive_def)
  have "pr_id r < next_run (pt_db s)"
    using assms(1,3) by (auto simp: claim_run_def list_ex_iff exclusive_def keys_below_def list_all_iff split: if_splits)
  then have "not_queued d' (pr_id r)" using claim_run_SomeD [OF assms(3)] by (simp add: not_queued_claimed)
  then show ?thesis using exclusive_db [OF assms(1) d'(1)] fresh assms(2)
    unfolding exclusive_def one_owner_def owned_def by (auto simp: count_notin rev_image_eqI split: if_splits)
qed

lemma exclusive_assign:
  assumes "exclusive s i" "pt_pc s t = Chosen r (Some w) rs"
  shows "exclusive (s\<lparr>pt_db := store_assignment (pt_db s) (pr_id r) w now, pt_pc := (pt_pc s)(t := Looping rs),
    pt_exec := pt_exec s @ [(pr_id r, w_id w)]\<rparr>) i"
proof -
  have h: "holding (pt_pc s t) = Some (pr_id r)" by (simp add: assms(2))
  then show ?thesis using exclusive_db [OF assms(1) leaves_store, of "pr_id r" w now]
    unfolding exclusive_def one_owner_def owned_def by (auto simp: count_notin split: if_splits)
qed

lemma exclusive_putback:
  assumes "exclusive s i" "pt_pc s t = Chosen r None rs"
  shows "exclusive (s\<lparr>pt_db := upd_run (pr_id r) requeue (pt_db s), pt_pc := (pt_pc s)(t := Looping rs)\<rparr>) i"
proof -
  have h: "holding (pt_pc s t) = Some (pr_id r)" by (simp add: assms(2))
  let ?s = "s\<lparr>pt_pc := (pt_pc s)(t := Looping rs)\<rparr>"
  have e: "exclusive ?s i" by (rule exclusive_pc [OF assms(1)]) simp
  have "exclusive (?s\<lparr>pt_db := upd_run (pr_id r) requeue (pt_db s)\<rparr>) i"
  proof (cases "i = pr_id r")
    case True
    then have "i \<notin> owned ?s" using assms(1) h unfolding exclusive_def one_owner_def owned_def by (auto split: if_splits)
    then show ?thesis using exclusive_requeue [OF e, of i requeue] True by simp
  next
    case False
    have "not_queued (pt_db s) i \<Longrightarrow> not_queued (upd_run (pr_id r) requeue (pt_db s)) i"
      using False by (intro leaves_upd_other) simp_all
    then show ?thesis using e by (simp add: exclusive_def one_owner_def owned_def keys_below_upd)
  qed
  moreover have "?s\<lparr>pt_db := d\<rparr> = s\<lparr>pt_db := d, pt_pc := (pt_pc s)(t := Looping rs)\<rparr>" for d by (cases s) simp
  ultimately show ?thesis by simp
qed

text \<open>A step keeps the one owner, unless it puts the run back that is owned.\<close>

lemma exclusive_step:
  "tick_step st mode s s' \<Longrightarrow> exclusive s i \<Longrightarrow>
    exclusive s' i \<or> (\<exists>d'. put_back st (pt_db s) d' \<and> s' = s\<lparr>pt_db := d'\<rparr> \<and> i \<in> owned s
      \<and> not_queued (pt_db s) i \<and> \<not> not_queued d' i)"
proof (induction rule: tick_step.induct)
  case (finished k w s result now)
  then show ?case using exclusive_exec [OF exclusive_db [OF _ leaves_completed], of s i] by simp
next
  case (put s d')
  have k: "keys_below d'" using put put_back_keys [OF put(1)] by (simp add: keys_below_same exclusive_def)
  show ?case
  proof (cases "i \<in> owned s \<and> \<not> not_queued d' i")
    case True
    then show ?thesis using put by (auto simp: exclusive_def)
  next
    case False
    then have "exclusive (s\<lparr>pt_db := d'\<rparr>) i" using put(2) k by (auto simp: exclusive_def one_owner_def owned_def)
    then show ?thesis by simp
  qed
next
  case (claim s t r rs now d')
  then show ?case by (intro disjI1 exclusive_claim) simp_all
qed (auto intro: exclusive_pc exclusive_assign exclusive_putback exclusive_exec exclusive_db
    leaves_started leaves_trigger leaves_cancel leaves_flush leaves_webhook leaves_sync leaves_trigger_task
    leaves_poll_task leaves_enqueue leaves_webhook_started)

lemma exclusive_quiet: "db_ok d \<Longrightarrow> exclusive (quiet d) i"
  using db_ok_keys(1) [of d]
  by (auto simp: exclusive_def one_owner_def quiet_def owned_def keys_below_def keys_ok_def list_all_iff)

text \<open>Along a path, an owned run was put back by a transaction that did not look.\<close>

definition put_back_while_owned :: "settings \<Rightarrow> string \<Rightarrow> protocol \<Rightarrow> protocol \<Rightarrow> int \<Rightarrow> bool" where
  "put_back_while_owned st mode s0 s i \<longleftrightarrow>
     (\<exists>a d'. tick_steps st mode s0 a \<and> i \<in> owned a \<and> not_queued (pt_db a) i \<and> put_back st (pt_db a) d'
        \<and> \<not> not_queued d' i \<and> tick_steps st mode (a\<lparr>pt_db := d'\<rparr>) s)"

lemma exclusive_steps:
  assumes "tick_steps st mode s0 s" "exclusive s0 i"
  shows "exclusive s i \<or> put_back_while_owned st mode s0 s i"
  using assms(1)
proof (induction rule: rtranclp_induct)
  case (step a b)
  show ?case
  proof (cases "put_back_while_owned st mode s0 a i")
    case True
    then show ?thesis using step(2) unfolding put_back_while_owned_def by (meson rtranclp.rtrancl_into_rtrancl)
  next
    case False
    then show ?thesis using step exclusive_step [OF step(2), of i] unfolding put_back_while_owned_def by auto
  qed
qed (simp add: assms(2))

section \<open>Properties\<close>

text \<open>
  C2: however many ticks run at once and however their transactions interleave
  with those of the executions, requests, webhooks and Jenkins tasks, a run has
  one owner: no two ticks hold it, no tick holds it while it is executed, it is
  not executed twice at a time.  The only way to lose this is that a recovery, a
  retry or a worker reset puts this very run back into the queue while it is
  owned, none of which the code guards against.
\<close>

theorem claim_exclusive:
  assumes "db_ok d" "tick_steps st mode (quiet d) s"
  shows "one_owner s i \<or> put_back_while_owned st mode (quiet d) s i"
  using exclusive_steps [OF assms(2) exclusive_quiet [OF assms(1)]] unfolding exclusive_def by blast

text \<open>Two runs wait, one worker is idle.\<close>

definition race_run :: "int \<Rightarrow> time \<Rightarrow> pipeline_run" where
  "race_run i queued_at = (new_run ''https://github.com/acme/app'' ''main'' None None ''api'' ''acme/app/main''
     [''Build''] (mk_priority 2 ''production branch'') queued_at)\<lparr>pr_id := i\<rparr>"

definition race_worker :: worker where
  "race_worker = (new_worker ''w'' L_GENERIC ''[]'' 0)\<lparr>w_id := 1\<rparr>"

definition race_db :: db where
  "race_db = empty_db\<lparr>runs_t := [race_run 1 5, race_run 2 6], next_run := 3,
     workers_t := [race_worker], next_worker := 2\<rparr>"

lemma race_db_ok: "db_ok race_db"
  by (simp add: race_db_def race_run_def new_run_def race_worker_def new_worker_def db_ok_def tables_ok_def
      refs_ok_def keys_ok_def empty_db_def)

text \<open>
  Two ticks claim a run each, both read the idle workers, then both store: the
  same worker gets both runs.
\<close>

lemma two_ticks_one_worker:
  assumes "queued_runs st mode d = [r1, r2]" "claim_run now (pr_id r1) d = Some d1"
    "claim_run now (pr_id r1) d1 = None" "claim_run now (pr_id r2) d1 = Some d2" "\<And>l. chosen_worker d2 l = Some w"
  shows "tick_steps st mode (quiet d)
    \<lparr>pt_db = store_assignment (store_assignment d2 (pr_id r1) w now) (pr_id r2) w now,
     pt_pc = (\<lambda>t. Idle)(0 := Looping [r2], 1 := Looping []), pt_exec = [(pr_id r1, w_id w), (pr_id r2, w_id w)]\<rparr>"
proof -
  let ?s = "\<lambda>d p q xs. \<lparr>pt_db = d, pt_pc = (\<lambda>t. Idle)(0 := p, 1 := q), pt_exec = xs\<rparr>"
  let ?S = "tick_step st mode" and ?q = "[r1, r2]" and ?a = "store_assignment d2 (pr_id r1) w now"
  have id: "(\<lambda>t :: nat. Idle)(0 := p, 1 := Idle) = (\<lambda>t. Idle)(0 := p)" for p :: tick_pc by (rule fun_upd_idem) simp
  have "?S (quiet d) (?s d (Looping ?q) Idle [])"
    using tick_step.read [of "quiet d" 0 st mode] assms(1) unfolding id by (simp add: quiet_def)
  then have "tick_steps st mode (quiet d) (?s d (Looping ?q) Idle [])" by (rule r_into_rtranclp)
  also have "?S (?s d (Looping ?q) Idle []) (?s d (Looping ?q) (Looping ?q) [])"
    using tick_step.read [of "?s d (Looping ?q) Idle []" 1 st mode] assms(1) by simp
  also have "?S (?s d (Looping ?q) (Looping ?q) []) (?s d1 (Claimed r1 [r2]) (Looping ?q) [])"
    using tick_step.claim [of "?s d (Looping ?q) (Looping ?q) []" 0 r1 "[r2]" now d1 st mode] assms(2) by (simp add: fun_upd_twist)
  also have "?S (?s d1 (Claimed r1 [r2]) (Looping ?q) []) (?s d1 (Claimed r1 [r2]) (Looping [r2]) [])"
    using tick_step.skip [of "?s d1 (Claimed r1 [r2]) (Looping ?q) []" 1 r1 "[r2]" now st mode] assms(3) by simp
  also have "?S (?s d1 (Claimed r1 [r2]) (Looping [r2]) []) (?s d2 (Claimed r1 [r2]) (Claimed r2 []) [])"
    using tick_step.claim [of "?s d1 (Claimed r1 [r2]) (Looping [r2]) []" 1 r2 "[]" now d2 st mode] assms(4) by simp
  also have "?S (?s d2 (Claimed r1 [r2]) (Claimed r2 []) []) (?s d2 (Chosen r1 (Some w) [r2]) (Claimed r2 []) [])"
    using tick_step.choose [of "?s d2 (Claimed r1 [r2]) (Claimed r2 []) []" 0 r1 "[r2]" st mode] assms(5) by (simp add: fun_upd_twist)
  also have "?S (?s d2 (Chosen r1 (Some w) [r2]) (Claimed r2 []) []) (?s d2 (Chosen r1 (Some w) [r2]) (Chosen r2 (Some w) []) [])"
    using tick_step.choose [of "?s d2 (Chosen r1 (Some w) [r2]) (Claimed r2 []) []" 1 r2 "[]" st mode] assms(5) by simp
  also have "?S (?s d2 (Chosen r1 (Some w) [r2]) (Chosen r2 (Some w) []) [])
      (?s ?a (Looping [r2]) (Chosen r2 (Some w) []) [(pr_id r1, w_id w)])"
    using tick_step.assign [of "?s d2 (Chosen r1 (Some w) [r2]) (Chosen r2 (Some w) []) []" 0 r1 w "[r2]" st mode now]
    by (simp add: fun_upd_twist)
  also have "?S (?s ?a (Looping [r2]) (Chosen r2 (Some w) []) [(pr_id r1, w_id w)])
      (?s (store_assignment ?a (pr_id r2) w now) (Looping [r2]) (Looping []) [(pr_id r1, w_id w), (pr_id r2, w_id w)])"
    using tick_step.assign [of "?s ?a (Looping [r2]) (Chosen r2 (Some w) []) [(pr_id r1, w_id w)]" 1 r2 w "[]" st mode now] by simp
  finally show ?thesis .
qed

lemma chosen_single: "workers_t d = [w] \<Longrightarrow> w_status w = WS_IDLE \<Longrightarrow> chosen_worker d l = Some w"
  by (simp add: chosen_worker_def candidates_def idle_workers_def Let_def)

lemma race_queue: "queued_runs default_settings ''Priority'' race_db = [race_run 1 5, race_run 2 6]"
  by code_simp

definition race_after :: db where
  "race_after = race_db\<lparr>runs_t := [claimed 7 (race_run 1 5), claimed 7 (race_run 2 6)]\<rparr>"

lemma race_steps:
  "claim_run 7 1 race_db = Some (race_db\<lparr>runs_t := [claimed 7 (race_run 1 5), race_run 2 6]\<rparr>)"
  "claim_run 7 1 (race_db\<lparr>runs_t := [claimed 7 (race_run 1 5), race_run 2 6]\<rparr>) = None"
  "claim_run 7 2 (race_db\<lparr>runs_t := [claimed 7 (race_run 1 5), race_run 2 6]\<rparr>) = Some race_after"
  by (simp_all add: claim_run_def race_db_def race_run_def new_run_def upd_run_def upd_row_def race_after_def)

lemma race_path:
  "tick_steps default_settings ''Priority'' (quiet race_db)
    \<lparr>pt_db = store_assignment (store_assignment race_after 1 race_worker 7) 2 race_worker 7,
     pt_pc = (\<lambda>t. Idle)(0 := Looping [race_run 2 6], 1 := Looping []), pt_exec = [(1, 1), (2, 1)]\<rparr>"
proof -
  have id: "pr_id (race_run i t) = i" for i t by (simp add: race_run_def)
  have w: "w_id race_worker = 1" "w_status race_worker = WS_IDLE" by (simp_all add: race_worker_def new_worker_def)
  have c: "chosen_worker race_after l = Some race_worker" for l
    using w by (intro chosen_single) (simp_all add: race_after_def race_db_def)
  from two_ticks_one_worker [OF race_queue, unfolded id, OF race_steps c] show ?thesis by (simp only: id w)
qed

theorem claim_exclusive_witness:
  "\<exists>s. tick_steps default_settings ''Priority'' (quiet race_db) s \<and> map fst (pt_exec s) = [1, 2]
    \<and> (one_owner s 1 \<or> put_back_while_owned default_settings ''Priority'' (quiet race_db) s 1)"
  by (intro exI conjI, rule race_path, simp, rule claim_exclusive [OF race_db_ok race_path])

text \<open>
  C34: the claim protects the run, not the worker: the idle workers are read
  without a lock and the worker is stored without a guard, so two ticks can give
  one worker, which was idle, two runs at a time.  Its load then says one.
\<close>

theorem worker_race:
  "\<exists>s. tick_steps default_settings ''Priority'' (quiet race_db) s \<and> pt_exec s = [(1, 1), (2, 1)]
    \<and> map wa_run_id (filter (open_on 1) (assigns_t (pt_db s))) = [1, 2]
    \<and> map w_load (workers_t (pt_db s)) = [1/2]"
proof -
  let ?d = "store_assignment (store_assignment race_after 1 race_worker 7) 2 race_worker 7"
  have a: "map wa_run_id (filter (open_on 1) (assigns_t ?d)) = [1, 2]"
    by (simp add: store_assignment_def race_after_def race_db_def race_worker_def new_worker_def empty_db_def
        add_assign_def upd_worker_def upd_row_def new_assignment_def open_on_def)
  have b: "map w_load (workers_t ?d) = [1/2]"
    by (simp add: store_assignment_def race_after_def race_db_def race_worker_def new_worker_def empty_db_def
        add_assign_def upd_worker_def upd_row_def)
  show ?thesis by (intro exI conjI, rule race_path) (simp_all only: protocol.simps a b)
qed

text \<open>
  C35: putting a run back is an UPDATE without a guard on the status: a run cancelled
  while its tick looks for a worker (the user was told ABORTED) is queued again.
\<close>

theorem cancel_lost:
  assumes "db_ok (pt_db s)" "pt_pc s t = Chosen r None rs" "get_run (pt_db s) (pr_id r) = Some x"
    "pr_status x = RS_IN_PROGRESS"
  shows "\<exists>s1 s2. tick_step st mode s s1 \<and> map_option pr_status (get_run (pt_db s1) (pr_id r)) = Some RS_ABORTED
    \<and> tick_step st mode s1 s2 \<and> map_option pr_status (get_run (pt_db s2) (pr_id r)) = Some RS_QUEUED"
proof -
  have "\<exists>d' j effs. cancel_run st (pt_db s) (pr_id r) 0 = Inr (d', j, effs)"
    using assms(3,4) by (simp add: cancel_run_def get_run_def Let_def case_prod_unfold)
  then obtain d' j effs where c: "cancel_run st (pt_db s) (pr_id r) 0 = Inr (d', j, effs)" by blast
  have x: "get_run d' (pr_id r) = Some (finish_run ''ABORTED'' 0 x)"
    using cancelled_runs [OF assms(1,3) c, of "pr_id r"] assms(4) by simp
  let ?s = "s\<lparr>pt_db := d'\<rparr>"
  have s1: "tick_step st mode s ?s" using c by (rule tick_step.cancel)
  have s2: "tick_step st mode ?s (?s\<lparr>pt_db := upd_run (pr_id r) requeue d', pt_pc := (pt_pc s)(t := Looping rs)\<rparr>)"
    using tick_step.putback [of ?s t r rs st mode] assms(2) by simp
  show ?thesis
    by (intro exI conjI, rule s1, simp add: x status_of_result_def, rule s2) (use x in \<open>simp add: get_run_def db_simps\<close>)
qed

theorem cancel_lost_witness:
  "\<exists>s1 s2. tick_step default_settings ''FIFO''
      \<lparr>pt_db = running_db, pt_pc = (\<lambda>t. Chosen (hd (runs_t running_db)) None []), pt_exec = []\<rparr> s1
    \<and> map_option pr_status (get_run (pt_db s1) 1) = Some RS_ABORTED \<and> tick_step default_settings ''FIFO'' s1 s2
    \<and> map_option pr_status (get_run (pt_db s2) 1) = Some RS_QUEUED"
proof -
  let ?r = "hd (runs_t running_db)"
  let ?s = "\<lparr>pt_db = running_db, pt_pc = (\<lambda>t. Chosen ?r None []), pt_exec = []\<rparr>"
  have r: "pr_id ?r = 1" "pr_status ?r = RS_IN_PROGRESS" by (simp_all add: running_db_def)
  have "get_run (pt_db ?s) (pr_id ?r) = Some ?r" using running_db_run r by simp
  from cancel_lost [OF _ _ this r(2), of 0 "[]" default_settings "''FIFO''"] show ?thesis
    using running_db_ok by (simp add: r)
qed

text \<open>
  C36: resetting a worker by hand puts the runs of its open assignments back into
  the queue although their execution goes on: the next tick that read such a run
  claims it, and it is then in a tick's hands while being executed.
\<close>

theorem reset_breaks_ownership:
  assumes "(i, w) \<in> set (pt_exec s)" "a \<in> set (assigns_t (pt_db s))" "open_on w a" "wa_run_id a = i"
    and "get_run_row (pt_db s) i = Some x" "pr_status x = RS_IN_PROGRESS"
    and "reset_worker_endpoint (pt_db s) w now = Inr (d', j)"
    and "pt_pc s t = Looping (r # rs)" "pr_id r = i"
  shows "\<exists>s'. tick_step st mode (s\<lparr>pt_db := d'\<rparr>) s' \<and> holding (pt_pc s' t) = Some i \<and> i \<in> fst ` set (pt_exec s')"
proof -
  obtain v where v: "get_worker (pt_db s) w = Some v" using assms(7) by (auto simp: reset_worker_endpoint_def split: option.splits)
  have "w_id v = w" using worker_tbl.get_SomeD [OF v] by simp
  then have d': "d' = upd_worker w (reset_worker now) (fold (expire_assignment ''MANUAL_RESET'' now) (open_of_worker (pt_db s) w) (pt_db s))"
    using reset_endpoint_db [OF v assms(7)] by (simp add: recover_worker_def)
  have "a \<in> set (open_of_worker (pt_db s) w)" using assms(2,3) by (simp add: open_of_worker_def)
  from expire_all_requeues [OF this, of "pt_db s"] have "get_run_row d' i = Some (requeue x)"
    using assms(4-6) by (simp add: d' db_simps)
  then have "claim_run now (pr_id r) d' = Some (upd_run i (\<lambda>r. if pr_status r = RS_QUEUED then claimed now r else r) d')"
    using assms(9) by (simp add: claim_run_queued)
  then have step: "tick_step st mode (s\<lparr>pt_db := d'\<rparr>) (s\<lparr>pt_db := d', pt_db := upd_run i (\<lambda>r. if pr_status r = RS_QUEUED then claimed now r else r) d',
      pt_pc := (pt_pc (s\<lparr>pt_db := d'\<rparr>))(t := Claimed r rs)\<rparr>)"
    using assms(8) by (intro tick_step.claim) simp_all
  show ?thesis by (intro exI conjI, rule step) (use assms(1,9) in force)+
qed

theorem reset_breaks_ownership_witness:
  "\<exists>d' j s'. reset_worker_endpoint running_db 3 8 = Inr (d', j)
    \<and> tick_step default_settings ''FIFO'' \<lparr>pt_db = d', pt_pc = (\<lambda>t. Looping [hd (runs_t running_db)]), pt_exec = [(1, 3)]\<rparr> s'
    \<and> holding (pt_pc s' 0) = Some 1 \<and> 1 \<in> fst ` set (pt_exec s')"
proof -
  let ?r = "hd (runs_t running_db)" and ?a = "hd (assigns_t running_db)"
  let ?s = "\<lparr>pt_db = running_db, pt_pc = (\<lambda>t. Looping [?r]), pt_exec = [(1, 3)]\<rparr>"
  have w: "get_worker running_db 3 \<noteq> None"
    by (simp add: running_db_def example_db_def example_worker_def new_worker_def get_worker_def get_row_def)
  then have "\<exists>d' j. reset_worker_endpoint running_db 3 8 = Inr (d', j)"
    by (auto simp: reset_worker_endpoint_def Let_def case_prod_unfold)
  then obtain d' j where d': "reset_worker_endpoint running_db 3 8 = Inr (d', j)" by blast
  have a: "?a \<in> set (assigns_t running_db)" "open_on 3 ?a" "wa_run_id ?a = 1"
    by (simp_all add: running_db_def new_assignment_def open_on_def)
  have r: "get_run_row running_db 1 = Some ?r" "pr_status ?r = RS_IN_PROGRESS" "pr_id ?r = 1"
    using running_db_run by (simp_all add: running_db_def get_run_def)
  from reset_breaks_ownership [of 1 3 ?s ?a ?r 8 d' j 0 ?r "[]" default_settings "''FIFO''"] a r d'
  show ?thesis by auto
qed

end
