(* ===== verification/Progress.thy ===== *)
theory Progress
  imports Scheduler
begin

text \<open>
  A queued run does not starve.  Over a sequence of scheduler ticks, between which
  anything may happen to the database, a waiting run is started by one of the next
  ticks, at the latest by the one numbered by the count of the runs ahead of it,
  as long as every tick finds an idle worker and nobody joins the queue ahead of it.
\<close>

section \<open>A rank that falls until the goal is reached\<close>

lemma rank_bound:
  fixes rank :: "nat \<Rightarrow> nat"
  assumes falls: "\<And>k. (\<And>j. j \<le> k \<Longrightarrow> \<not> reached j) \<Longrightarrow> rank (Suc k) < rank k"
    and "\<And>j. j < k \<Longrightarrow> \<not> reached j"
  shows "rank k + k \<le> rank 0"
  using assms(2)
proof (induction k)
  case (Suc k)
  have "rank k + k \<le> rank 0" using Suc.prems by (intro Suc.IH) simp
  moreover have "rank (Suc k) < rank k" using Suc.prems by (intro falls) simp
  ultimately show ?case by simp
qed simp

lemma reached_within:
  fixes rank :: "nat \<Rightarrow> nat"
  assumes falls: "\<And>k. (\<And>j. j \<le> k \<Longrightarrow> \<not> reached j) \<Longrightarrow> rank (Suc k) < rank k"
  shows "\<exists>k \<le> rank 0. reached k"
proof (rule ccontr)
  assume "\<not> ?thesis"
  then have "\<not> reached j" if "j < Suc (rank 0)" for j using that by auto
  then have "rank (Suc (rank 0)) + Suc (rank 0) \<le> rank 0" using rank_bound [of reached rank] falls by blast
  then show False by simp
qed

section \<open>The runs ahead of a waiting run\<close>

definition ahead :: "string \<Rightarrow> db \<Rightarrow> pipeline_run \<Rightarrow> int set" where
  "ahead mode d r = {j. j \<noteq> pr_id r \<and>
     (\<exists>q. get_run_row d j = Some q \<and> waiting q \<and> dispatch_key mode q \<le> dispatch_key mode r)}"

lemma finite_ahead: "finite (ahead mode d r)"
proof (rule finite_subset)
  show "ahead mode d r \<subseteq> pr_id ` set (runs_t d)" using run_tbl.get_SomeD by (fastforce simp: ahead_def)
qed simp

lemma key_requeue [simp]: "dispatch_key mode (requeue r) = dispatch_key mode r"
  by (simp add: dispatch_key_def requeue_def run_priority_def)

text \<open>A dispatch with an idle worker starts the run or one that was ahead of it.\<close>

lemma dispatch_progress:
  fixes c :: tick_clock and mode :: string
  assumes "db_ok e" "idle_ids e \<noteq> {}" "0 < MAX_CONCURRENT_EXECUTIONS st"
    and r: "get_run_row e (pr_id r) = Some r" "waiting r"
  defines "es \<equiv> snd (dispatch_all c (queued_runs st mode e) e)"
  assumes none: "\<And>w. ExecuteRun (pr_id r) w (stage_names r) \<notin> set es"
  shows "card (ahead mode (fst (dispatch_all c (queued_runs st mode e) e)) r) < card (ahead mode e r)"
proof -
  let ?q = "queued_runs st mode e" and ?k = "card (idle_ids e)"
  have keys: "keys_ok pr_id (runs_t e) (next_run e)" by (rule db_ok_keys(1) [OF assms(1)])
  obtain ws e' where d: "dispatch_all c ?q e = (e', map2 (\<lambda>r w. ExecuteRun (pr_id r) w (stage_names r)) (take ?k ?q) ws)"
    and len: "length ws = min (length ?q) ?k"
    and rows: "\<And>i. get_run_row e' i = map_option (dispatched_row c (map pr_id (take ?k ?q)) (map pr_id (drop ?k ?q)) i) (get_run_row e i)"
    using tick_dispatch [OF assms(1), of c st mode] by blast
  have "finite (idle_ids e)" by (simp add: idle_ids_def)
  then have k: "0 < ?k" using assms(2) by (simp add: card_gt_0_iff)
  have mem: "r \<in> set (queue_order mode (filter waiting (runs_t e)))" using run_tbl.get_SomeD [OF r(1)] r(2) by simp
  then obtain h t where ht: "queue_order mode (filter waiting (runs_t e)) = h # t"
    by (cases "queue_order mode (filter waiting (runs_t e))") auto
  have q: "?q = h # take (MAX_CONCURRENT_EXECUTIONS st - 1) t"
    using assms(3) by (simp add: queued_runs_def ht take_Cons')
  have key: "dispatch_key mode h \<le> dispatch_key mode r"
    using sorted_queue [of mode "filter waiting (runs_t e)"] mem by (auto simp: ht)
  have h: "h \<in> set (runs_t e)" "waiting h" using queued_runs_waiting [of h st mode e] by (simp_all add: q)
  have row_h: "get_run_row e (pr_id h) = Some h" by (rule run_tbl.get_mem [OF keys h(1)])
  obtain w ws' where ws: "ws = w # ws'" using len k by (cases ws) (auto simp: q)
  have tk: "take ?k ?q = h # take (?k - 1) (take (MAX_CONCURRENT_EXECUTIONS st - 1) t)" using k by (simp add: q take_Cons')
  have "ExecuteRun (pr_id h) w (stage_names h) \<in> set es" unfolding es_def d by (simp add: tk ws)
  then have ne: "h \<noteq> r" using none by blast
  then have id: "pr_id h \<noteq> pr_id r" using row_h r(1) by auto
  then have in_h: "pr_id h \<in> ahead mode e r" using row_h h(2) key by (auto simp: ahead_def)
  have "ahead mode e' r \<subseteq> ahead mode e r - {pr_id h}"
  proof
    fix j assume "j \<in> ahead mode e' r"
    then obtain y where y: "j \<noteq> pr_id r" "get_run_row e' j = Some y" "waiting y" "dispatch_key mode y \<le> dispatch_key mode r"
      by (auto simp: ahead_def)
    then obtain x where x: "get_run_row e j = Some x"
      and yx: "y = dispatched_row c (map pr_id (take ?k ?q)) (map pr_id (drop ?k ?q)) j x" by (auto simp: rows)
    have n: "j \<notin> set (map pr_id (take ?k ?q))" using y(3) yx by (auto simp: dispatched_row_def waiting_def)
    then have "j \<noteq> pr_id h" by (auto simp: tk)
    moreover have "waiting x \<and> dispatch_key mode x = dispatch_key mode y"
    proof (cases "j \<in> set (map pr_id (drop ?k ?q))")
      case True
      then obtain z where z: "z \<in> set ?q" "j = pr_id z" by (auto dest: in_set_dropD)
      then have "x = z" using run_tbl.get_mem [OF keys, of z] queued_runs_waiting [OF z(1)] x by simp
      then show ?thesis using queued_runs_waiting [OF z(1)] yx n True by (simp add: dispatched_row_def)
    next
      case False
      then show ?thesis using yx n y(3) by (simp add: dispatched_row_def)
    qed
    ultimately show "j \<in> ahead mode e r - {pr_id h}" using x y(1,4) by (auto simp: ahead_def)
  qed
  then have "card (ahead mode e' r) \<le> card (ahead mode e r - {pr_id h})" by (intro card_mono) (simp_all add: finite_ahead)
  also have "\<dots> < card (ahead mode e r)" using in_h finite_ahead by (intro card_Diff1_less)
  finally show ?thesis by (simp add: d)
qed

section \<open>Properties\<close>

text \<open>The database a tick dispatches from and the one its dispatch leaves, the runs it starts.\<close>

definition before_dispatch :: "settings \<Rightarrow> db \<Rightarrow> tick_clock \<Rightarrow> db" where
  "before_dispatch st d c = fst (recover_stale_workers st d (tc_recover c))"

definition after_dispatch :: "settings \<Rightarrow> string \<Rightarrow> db \<Rightarrow> tick_clock \<Rightarrow> db" where
  "after_dispatch st mode d c =
     fst (dispatch_all c (queued_runs st mode (before_dispatch st d c)) (before_dispatch st d c))"

definition starts :: "settings \<Rightarrow> string \<Rightarrow> db \<Rightarrow> tick_clock \<Rightarrow> pipeline_run \<Rightarrow> bool" where
  "starts st mode d c r \<longleftrightarrow>
     list_ex (\<lambda>e. case e of ExecuteRun i w ss \<Rightarrow> i = pr_id r \<and> ss = stage_names r | _ \<Rightarrow> False)
       (fst (snd (scheduler_tick st mode True 0 d c)))"

lemma not_starts: "\<not> starts st mode d c r \<Longrightarrow>
    ExecuteRun (pr_id r) w (stage_names r) \<notin> set (snd (dispatch_all c (queued_runs st mode (before_dispatch st d c)) (before_dispatch st d c)))"
  using scheduler_tick_effects [of True 0 st mode d c] by (auto simp: starts_def before_dispatch_def list_ex_iff)

text \<open>
  C4: no starvation.  The databases \<open>D k\<close> are those before each tick, whatever happens
  between two ticks.  If, as long as the run has not been started, it stays in the
  queue, every tick finds an idle worker after its recovery, and no run comes ahead
  of it, it is started by tick number n at the latest, counted from 0, n being the
  number of runs ahead of it at the first tick.
\<close>

theorem queued_run_starts:
  fixes D :: "nat \<Rightarrow> db" and c :: "nat \<Rightarrow> tick_clock" and st :: settings and mode :: string and r :: pipeline_run
  defines "started \<equiv> \<lambda>k. starts st mode (D k) (c k) r"
  assumes "\<And>k. db_ok (D k)" "0 < MAX_CONCURRENT_EXECUTIONS st"
    and queued: "\<And>k. (\<And>j. j < k \<Longrightarrow> \<not> started j) \<Longrightarrow>
      get_run_row (before_dispatch st (D k) (c k)) (pr_id r) = Some r \<and> waiting r \<and> idle_ids (before_dispatch st (D k) (c k)) \<noteq> {}"
    and nobody: "\<And>k. (\<And>j. j \<le> k \<Longrightarrow> \<not> started j) \<Longrightarrow>
      ahead mode (before_dispatch st (D (Suc k)) (c (Suc k))) r \<subseteq> ahead mode (after_dispatch st mode (D k) (c k)) r"
  shows "\<exists>k \<le> card (ahead mode (before_dispatch st (D 0) (c 0)) r). started k"
proof -
  let ?rank = "\<lambda>k. card (ahead mode (before_dispatch st (D k) (c k)) r)"
  have "?rank (Suc k) < ?rank k" if n: "\<And>j. j \<le> k \<Longrightarrow> \<not> started j" for k
  proof -
    let ?e = "before_dispatch st (D k) (c k)"
    have q: "get_run_row ?e (pr_id r) = Some r" "waiting r" "idle_ids ?e \<noteq> {}" using queued [of k] n by simp_all
    have ok: "db_ok ?e" unfolding before_dispatch_def by (rule recover_phases(4) [OF assms(2)])
    have "\<not> started k" by (rule n) simp
    then have "card (ahead mode (after_dispatch st mode (D k) (c k)) r) < card (ahead mode ?e r)"
      unfolding after_dispatch_def started_def by (intro dispatch_progress [OF ok q(3) assms(3) q(1,2)] not_starts)
    moreover have "card (ahead mode (before_dispatch st (D (Suc k)) (c (Suc k))) r) \<le> card (ahead mode (after_dispatch st mode (D k) (c k)) r)"
      using nobody [OF n] by (intro card_mono finite_ahead)
    ultimately show ?thesis by simp
  qed
  then show ?thesis by (rule reached_within)
qed

text \<open>One idle worker, three runs, the second of them first in the queue; then that one under way.\<close>

definition narrow_db :: db where
  "narrow_db = queue_db\<lparr>workers_t := [example_worker 1 L_NODE WS_IDLE]\<rparr>"

definition narrow_next :: db where
  "narrow_next = narrow_db\<lparr>runs_t := [runs_t queue_db ! 0, claimed 11 (runs_t queue_db ! 1), runs_t queue_db ! 2]\<rparr>"

lemma narrow_ok: "db_ok narrow_db" "db_ok narrow_next"
  by (simp_all add: narrow_db_def narrow_next_def queue_db_def example_db_def example_worker_def new_worker_def db_ok_def
      tables_ok_def refs_ok_def keys_ok_def empty_db_def new_run_def)

lemma narrow_recovery:
  "before_dispatch default_settings narrow_db quiet_clock = narrow_db"
  "before_dispatch default_settings narrow_next quiet_clock = narrow_next"
  by (simp_all add: before_dispatch_def recover_stale_workers_def narrow_db_def narrow_next_def queue_db_def example_db_def
      example_worker_def new_worker_def stale_def orphaned_def new_run_def recovery_cutoff_def default_settings_def
      seconds_def quiet_clock_def)

lemma idle_single: "workers_t d = [w] \<Longrightarrow> w_status w = WS_IDLE \<Longrightarrow> idle_ids d = {w_id w}"
  by (auto simp: idle_ids_def)

lemma narrow_run:
  "get_run_row narrow_db 1 = Some (runs_t queue_db ! 0)" "get_run_row narrow_next 1 = Some (runs_t queue_db ! 0)"
  "pr_id (runs_t queue_db ! 0) = 1" "waiting (runs_t queue_db ! 0)"
  "idle_ids narrow_db = {1}" "idle_ids narrow_next = {1}"
proof -
  show "waiting (runs_t queue_db ! 0)" by code_simp
  show "idle_ids narrow_db = {1}" "idle_ids narrow_next = {1}"
    using idle_single [of narrow_db "example_worker 1 L_NODE WS_IDLE"] idle_single [of narrow_next "example_worker 1 L_NODE WS_IDLE"]
    by (simp_all add: narrow_db_def narrow_next_def example_worker_def)
qed (simp_all add: narrow_db_def narrow_next_def queue_db_def get_run_row_def get_row_def)

lemma narrow_keys:
  "dispatch_key ''Priority'' (runs_t queue_db ! 0) = (5, 5)" "dispatch_key ''Priority'' (runs_t queue_db ! 1) = (2, 7)"
  "dispatch_key ''Priority'' (runs_t queue_db ! 2) = (6, 1)" "waiting (runs_t queue_db ! 1)"
  by code_simp+

lemma narrow_rows:
  "get_run_row narrow_db j = (if j = 1 then Some (runs_t queue_db ! 0) else if j = 2 then Some (runs_t queue_db ! 1)
     else if j = 3 then Some (runs_t queue_db ! 2) else None)"
  "get_run_row narrow_next j = (if j = 1 then Some (runs_t queue_db ! 0) else if j = 2 then Some (claimed 11 (runs_t queue_db ! 1))
     else if j = 3 then Some (runs_t queue_db ! 2) else None)"
  by (simp_all add: narrow_db_def narrow_next_def queue_db_def get_run_row_def get_row_def)

lemma narrow_ahead:
  "ahead ''Priority'' narrow_db (runs_t queue_db ! 0) = {2}" "ahead ''Priority'' narrow_next (runs_t queue_db ! 0) = {}"
proof -
  have n: "\<not> waiting (claimed t r)" for t r by (simp add: waiting_def)
  show "ahead ''Priority'' narrow_db (runs_t queue_db ! 0) = {2}"
    unfolding ahead_def narrow_rows narrow_run(3) by (auto simp: narrow_keys narrow_keys [simplified] split: if_splits)
  show "ahead ''Priority'' narrow_next (runs_t queue_db ! 0) = {}"
    unfolding ahead_def narrow_rows narrow_run(3) by (auto simp: narrow_keys n split: if_splits)
qed

theorem queued_run_starts_witness:
  "card (ahead ''Priority'' narrow_db (runs_t queue_db ! 0)) = 1
   \<and> (\<exists>k \<le> (1 :: nat). starts default_settings ''Priority'' (if k = 0 then narrow_db else narrow_next) quiet_clock (runs_t queue_db ! 0))"
proof -
  let ?D = "\<lambda>k :: nat. if k = 0 then narrow_db else narrow_next" and ?r = "runs_t queue_db ! 0"
  have b: "before_dispatch default_settings (?D k) quiet_clock = ?D k" for k by (simp add: narrow_recovery)
  have "\<exists>k \<le> card (ahead ''Priority'' (before_dispatch default_settings (?D 0) quiet_clock) ?r).
      starts default_settings ''Priority'' (?D k) quiet_clock ?r"
  proof (rule queued_run_starts)
    show "db_ok (?D k)" for k using narrow_ok by simp
    show "0 < MAX_CONCURRENT_EXECUTIONS default_settings" by (simp add: default_settings_def)
    show "get_run_row (before_dispatch default_settings (?D k) quiet_clock) (pr_id ?r) = Some ?r \<and> waiting ?r
        \<and> idle_ids (before_dispatch default_settings (?D k) quiet_clock) \<noteq> {}" for k
      unfolding b using narrow_run by simp
    show "ahead ''Priority'' (before_dispatch default_settings (?D (Suc k)) quiet_clock) ?r
        \<subseteq> ahead ''Priority'' (after_dispatch default_settings ''Priority'' (?D k) quiet_clock) ?r" for k
      unfolding b by (simp add: narrow_ahead)
  qed
  moreover have "card {2 :: int} = 1" by simp
  ultimately show ?thesis unfolding b by (simp only: if_True refl narrow_ahead simp_thms)
qed

end
