(* ===== verification/Recovery.thy ===== *)
theory Recovery
  imports Scheduler
begin

text \<open>
  The recovery phases of a tick (\<open>_recover_stale_workers\<close> of \<open>app/scheduler.py\<close>,
  modelled in \<open>Scheduler\<close>) in closed form: the loops over workers, assignments
  and runs, which re-read the tables they change, come to one pass over each
  table, with conditions on the rows as they were before.
\<close>

section \<open>The stale workers\<close>

text \<open>The recovery of the workers \<open>ws\<close>, row by row.\<close>

definition expired :: "string \<Rightarrow> time \<Rightarrow> int list \<Rightarrow> db \<Rightarrow> db" where
  "expired why now ws d = d\<lparr>
     runs_t := map (\<lambda>r. if pr_status r = RS_IN_PROGRESS \<and>
         list_ex (\<lambda>a. wa_run_id a = pr_id r \<and> wa_completed_at a = None \<and> wa_worker_id a \<in> set ws) (assigns_t d)
       then requeue r else r) (runs_t d),
     workers_t := map (\<lambda>w. if w_id w \<in> set ws then reset_worker now w else w) (workers_t d),
     assigns_t := map (\<lambda>a. if wa_completed_at a = None \<and> wa_worker_id a \<in> set ws
       then timeout_assignment why now a else a) (assigns_t d)\<rparr>"

lemma fold_expire_rows:
  "fold (expire_assignment why now) xs d = d\<lparr>
     runs_t := map (\<lambda>r. if pr_status r = RS_IN_PROGRESS \<and> pr_id r \<in> wa_run_id ` set xs then requeue r else r) (runs_t d),
     assigns_t := map (\<lambda>a. if wa_id a \<in> wa_id ` set xs then timeout_assignment why now a else a) (assigns_t d)\<rparr>"
proof (induction xs arbitrary: d)
  case Nil
  show ?case by simp
next
  case (Cons x xs)
  show ?case unfolding fold_simps Cons.IH
    unfolding expire_assignment_def upd_run_def upd_assign_def upd_row_def db.simps map_map
    by (rule db.equality) (auto simp: requeue_def timeout_assignment_def intro!: map_cong)
qed

lemma recover_worker_rows:
  assumes "distinct (map wa_id (assigns_t d))"
  shows "recover_worker why now w d = expired why now [w_id w] d"
proof -
  have inj: "a = b" if "a \<in> set (assigns_t d)" "b \<in> set (assigns_t d)" "wa_id a = wa_id b" for a b
    using assms that by (auto simp: distinct_map dest: inj_onD)
  have "wa_id a \<in> wa_id ` set (open_of_worker d (w_id w)) \<longleftrightarrow> wa_completed_at a = None \<and> wa_worker_id a = w_id w"
    if "a \<in> set (assigns_t d)" for a
    using that inj by (auto simp: open_of_worker_def open_on_def)
  then have a: "map (\<lambda>a. if wa_id a \<in> wa_id ` set (open_of_worker d (w_id w)) then timeout_assignment why now a else a) (assigns_t d)
      = map (\<lambda>a. if wa_completed_at a = None \<and> wa_worker_id a \<in> set [w_id w] then timeout_assignment why now a else a) (assigns_t d)"
    by simp
  have r: "pr_id r \<in> wa_run_id ` set (open_of_worker d (w_id w)) \<longleftrightarrow>
      list_ex (\<lambda>a. wa_run_id a = pr_id r \<and> wa_completed_at a = None \<and> wa_worker_id a \<in> set [w_id w]) (assigns_t d)" for r
    by (force simp: open_of_worker_def open_on_def list_ex_iff)
  show ?thesis unfolding recover_worker_def fold_expire_rows a r expired_def by (simp add: upd_worker_def upd_row_def)
qed

lemma expired_expired: "expired why now ws (expired why now vs d) = expired why now (vs @ ws) d"
proof -
  let ?e = "\<lambda>p i. list_ex (\<lambda>a. wa_run_id a = i \<and> wa_completed_at a = None \<and> p (wa_worker_id a)) (assigns_t d)"
  let ?v = "\<lambda>w. w \<in> set vs" and ?w = "\<lambda>w. w \<in> set ws" and ?n = "\<lambda>w. w \<in> set ws \<and> w \<notin> set vs" and ?u = "\<lambda>w. w \<in> set (vs @ ws)"
  let ?a = "\<lambda>vs a. if wa_completed_at a = None \<and> wa_worker_id a \<in> set vs then timeout_assignment why now a else a"
  have a: "list_ex (\<lambda>a. wa_run_id a = i \<and> wa_completed_at a = None \<and> ?w (wa_worker_id a)) (map (?a vs) (assigns_t d)) = ?e ?n i"
    for i by (induction "assigns_t d") (auto simp: list_ex_iff timeout_assignment_def)
  have u: "?e ?u i \<longleftrightarrow> ?e ?v i \<or> ?e ?n i" for i by (auto simp: list_ex_iff)
  have r: "map (\<lambda>r. if pr_status r = RS_IN_PROGRESS \<and> ?e ?n (pr_id r) then requeue r else r)
      (map (\<lambda>r. if pr_status r = RS_IN_PROGRESS \<and> ?e ?v (pr_id r) then requeue r else r) (runs_t d))
    = map (\<lambda>r. if pr_status r = RS_IN_PROGRESS \<and> ?e ?u (pr_id r) then requeue r else r) (runs_t d)"
    unfolding u by (auto simp: requeue_def)
  have w: "map (\<lambda>w. if w_id w \<in> set ws then reset_worker now w else w)
      (map (\<lambda>w. if w_id w \<in> set vs then reset_worker now w else w) (workers_t d))
    = map (\<lambda>w. if w_id w \<in> set (vs @ ws) then reset_worker now w else w) (workers_t d)"
    by (simp add: reset_worker_def)
  have s: "map (?a ws) (map (?a vs) (assigns_t d)) = map (?a (vs @ ws)) (assigns_t d)"
    by (auto simp: timeout_assignment_def)
  let ?d = "expired why now vs d"
  have d: "runs_t ?d = map (\<lambda>r. if pr_status r = RS_IN_PROGRESS \<and> ?e ?v (pr_id r) then requeue r else r) (runs_t d)"
    "workers_t ?d = map (\<lambda>w. if w_id w \<in> set vs then reset_worker now w else w) (workers_t d)"
    "assigns_t ?d = map (?a vs) (assigns_t d)"
    "?d\<lparr>runs_t := x, workers_t := y, assigns_t := z\<rparr> = d\<lparr>runs_t := x, workers_t := y, assigns_t := z\<rparr>" for x y z
    by (simp_all add: expired_def)
  show ?thesis unfolding expired_def [of why now ws ?d] d a r w s unfolding expired_def ..
qed

lemma expired_Nil: "expired why now [] d = d"
proof -
  have "list_ex (\<lambda>a. False) as = False" for as :: "worker_assignment list" by (induction as) simp_all
  then show ?thesis by (simp add: expired_def)
qed

lemma fold_recover_worker_rows:
  assumes "distinct (map wa_id (assigns_t d))"
  shows "fold (recover_worker why now) ws d = expired why now (map w_id ws) d"
  using assms
proof (induction ws arbitrary: d)
  case Nil
  show ?case by (simp add: expired_Nil)
next
  case (Cons w ws)
  have "map wa_id (assigns_t (expired why now [w_id w] d)) = map wa_id (assigns_t d)"
    by (simp add: expired_def timeout_assignment_def)
  then have "distinct (map wa_id (assigns_t (expired why now [w_id w] d)))" using Cons.prems by simp
  from Cons.IH [OF this] show ?case
    by (simp add: recover_worker_rows [OF Cons.prems] expired_expired)
qed

section \<open>The orphaned runs\<close>

text \<open>The recovery of the orphaned runs \<open>ks\<close>, row by row.\<close>

definition abandons :: "int list \<Rightarrow> db \<Rightarrow> worker \<Rightarrow> bool" where
  "abandons ks d w \<longleftrightarrow> w_status w = WS_BUSY \<and>
     list_ex (\<lambda>a. wa_worker_id a = w_id w \<and> wa_completed_at a = None \<and> wa_run_id a \<in> set ks) (assigns_t d)"

definition abandoned :: "time \<Rightarrow> int list \<Rightarrow> db \<Rightarrow> db" where
  "abandoned now ks d = d\<lparr>
     runs_t := map (\<lambda>r. if pr_id r \<in> set ks then requeue r else r) (runs_t d),
     workers_t := map (\<lambda>w. if abandons ks d w then give_up now w else w) (workers_t d),
     assigns_t := map (\<lambda>a. if wa_completed_at a = None \<and> wa_run_id a \<in> set ks
       then timeout_assignment ''TIMEOUT'' now a else a) (assigns_t d)\<rparr>"

lemma filter_key:
  assumes "distinct (map key xs)" "x \<in> set xs"
  shows "filter (\<lambda>v. P v \<and> key v = key x) xs = (if P x then [x] else [])"
  using assms
proof (induction xs)
  case (Cons y ys)
  show ?case
  proof (cases "y = x")
    case True
    then have "key v \<noteq> key x" if "v \<in> set ys" for v using Cons.prems that by (metis distinct.simps(2) image_eqI list.set_map list.simps(9))
    then have "filter (\<lambda>v. P v \<and> key v = key x) ys = []" by (simp add: filter_empty_conv)
    then show ?thesis using True by simp
  next
    case False
    then have "x \<in> set ys" "key y \<noteq> key x" using Cons.prems by auto
    then show ?thesis using Cons by simp
  qed
qed simp

lemma abandon_rows:
  assumes "distinct (map w_id (workers_t d))"
  shows "abandon_assignment now a (d, n) =
    (d\<lparr>workers_t := map (\<lambda>w. if w_status w = WS_BUSY \<and> w_id w = wa_worker_id a then give_up now w else w) (workers_t d),
       assigns_t := map (\<lambda>b. if wa_id b = wa_id a then timeout_assignment ''TIMEOUT'' now b else b) (assigns_t d)\<rparr>,
     n + length (filter (\<lambda>w. w_status w = WS_BUSY \<and> w_id w = wa_worker_id a) (workers_t d)))"
proof (cases "get_worker d (wa_worker_id a)")
  case None
  then have n: "wa_worker_id a \<notin> w_id ` set (workers_t d)" by (simp add: get_worker_def get_row_None_iff)
  then have "filter (\<lambda>w. w_status w = WS_BUSY \<and> w_id w = wa_worker_id a) (workers_t d) = []"
    by (auto simp: filter_empty_conv rev_image_eqI)
  moreover have "map (\<lambda>w. if w_status w = WS_BUSY \<and> w_id w = wa_worker_id a then give_up now w else w) (workers_t d) = workers_t d"
    using n by (auto intro!: map_idI simp: rev_image_eqI)
  ultimately show ?thesis using None by (simp add: abandon_assignment_def upd_assign_def upd_row_def)
next
  case (Some w)
  have w: "w \<in> set (workers_t d)" "w_id w = wa_worker_id a" using worker_tbl.get_SomeD [OF Some] by simp_all
  have u: "v = w" if "v \<in> set (workers_t d)" "w_id v = wa_worker_id a" for v
    using assms that w unfolding distinct_map by (metis inj_onD)
  have f: "filter (\<lambda>v. w_status v = WS_BUSY \<and> w_id v = wa_worker_id a) (workers_t d) =
      (if w_status w = WS_BUSY then [w] else [])"
    using filter_key [OF assms w(1), of "\<lambda>v. w_status v = WS_BUSY"] by (simp add: w(2))
  have "map (\<lambda>v. if w_status v = WS_BUSY \<and> w_id v = wa_worker_id a then give_up now v else v) (workers_t d) =
      (if w_status w = WS_BUSY then upd_row w_id (wa_worker_id a) (give_up now) (workers_t d) else workers_t d)"
    unfolding upd_row_def using u by (auto intro!: map_idI)
  then show ?thesis using Some f by (simp add: abandon_assignment_def upd_assign_def upd_worker_def upd_row_def)
qed

lemma give_up_simps [simp]: "w_id (give_up now w) = w_id w" "w_status (give_up now w) = WS_IDLE"
  by (simp_all add: give_up_def)

lemma fold_abandon_rows:
  assumes "distinct (map w_id (workers_t d))"
  shows "fold (abandon_assignment now) xs (d, n) =
    (d\<lparr>workers_t := map (\<lambda>w. if w_status w = WS_BUSY \<and> w_id w \<in> wa_worker_id ` set xs then give_up now w else w) (workers_t d),
       assigns_t := map (\<lambda>b. if wa_id b \<in> wa_id ` set xs then timeout_assignment ''TIMEOUT'' now b else b) (assigns_t d)\<rparr>,
     n + length (filter (\<lambda>w. w_status w = WS_BUSY \<and> w_id w \<in> wa_worker_id ` set xs) (workers_t d)))"
  using assms
proof (induction xs arbitrary: d n)
  case Nil
  show ?case by simp
next
  case (Cons x xs)
  let ?g = "\<lambda>w. if w_status w = WS_BUSY \<and> w_id w = wa_worker_id x then give_up now w else w"
  let ?P = "\<lambda>w. w_status w = WS_BUSY \<and> w_id w = wa_worker_id x"
  let ?Q = "\<lambda>w. w_status w = WS_BUSY \<and> w_id w \<in> wa_worker_id ` set xs"
  let ?R = "\<lambda>w. w_status w = WS_BUSY \<and> w_id w \<in> wa_worker_id ` set (x # xs)"
  have k: "map w_id (map ?g ws) = map w_id ws" for ws by simp
  have l: "length (filter ?P ws) + length (filter ?Q (map ?g ws)) = length (filter ?R ws)" for ws
    by (induction ws) auto
  have w: "map (\<lambda>w. if ?Q w then give_up now w else w) (map ?g ws) = map (\<lambda>w. if ?R w then give_up now w else w) ws" for ws
    by auto
  have a: "map (\<lambda>b. if wa_id b \<in> wa_id ` set xs then timeout_assignment ''TIMEOUT'' now b else b)
      (map (\<lambda>b. if wa_id b = wa_id x then timeout_assignment ''TIMEOUT'' now b else b) as)
    = map (\<lambda>b. if wa_id b \<in> wa_id ` set (x # xs) then timeout_assignment ''TIMEOUT'' now b else b) as" for as
    by (auto simp: timeout_assignment_def)
  let ?d = "d\<lparr>workers_t := map ?g (workers_t d),
    assigns_t := map (\<lambda>b. if wa_id b = wa_id x then timeout_assignment ''TIMEOUT'' now b else b) (assigns_t d)\<rparr>"
  have "distinct (map w_id (workers_t ?d))" using Cons.prems by (simp add: k del: map_map)
  note ih = Cons.IH [OF this]
  have d: "workers_t ?d = map ?g (workers_t d)"
    "assigns_t ?d = map (\<lambda>b. if wa_id b = wa_id x then timeout_assignment ''TIMEOUT'' now b else b) (assigns_t d)"
    "?d\<lparr>workers_t := y, assigns_t := z\<rparr> = d\<lparr>workers_t := y, assigns_t := z\<rparr>" for y z
    by simp_all
  show ?case unfolding fold_simps comp_def abandon_rows [OF Cons.prems] ih d w a add.assoc l ..
qed

lemma recover_run_rows:
  assumes "distinct (map w_id (workers_t d))" "distinct (map wa_id (assigns_t d))"
  shows "recover_run now r (d, n) =
    (abandoned now [pr_id r] d, n + length (filter (abandons [pr_id r] d) (workers_t d)))"
proof -
  let ?os = "open_assignments d (pr_id r)"
  have inj: "a = b" if "a \<in> set (assigns_t d)" "b \<in> set (assigns_t d)" "wa_id a = wa_id b" for a b
    using assms(2) that by (auto simp: distinct_map dest: inj_onD)
  have "wa_id a \<in> wa_id ` set ?os \<longleftrightarrow> wa_completed_at a = None \<and> wa_run_id a = pr_id r"
    if "a \<in> set (assigns_t d)" for a
    using that inj by (auto simp: open_assignments_def)
  then have a: "map (\<lambda>a. if wa_id a \<in> wa_id ` set ?os then timeout_assignment ''TIMEOUT'' now a else a) (assigns_t d)
      = map (\<lambda>a. if wa_completed_at a = None \<and> wa_run_id a \<in> set [pr_id r] then timeout_assignment ''TIMEOUT'' now a else a) (assigns_t d)"
    by simp
  have w: "w_status w = WS_BUSY \<and> w_id w \<in> wa_worker_id ` set ?os \<longleftrightarrow> abandons [pr_id r] d w" for w
    by (force simp: open_assignments_def abandons_def list_ex_iff)
  show ?thesis unfolding recover_run_def Let_def prod.case fold_abandon_rows [OF assms(1)] a w
    by (simp add: abandoned_def upd_run_def upd_row_def)
qed

lemma abandoned_abandoned:
  "abandoned now js (abandoned now ks d) = abandoned now (ks @ js) d"
  "length (filter (abandons ks d) (workers_t d)) + length (filter (abandons js (abandoned now ks d)) (workers_t (abandoned now ks d)))
    = length (filter (abandons (ks @ js) d) (workers_t d))"
proof -
  let ?e = "\<lambda>p i. list_ex (\<lambda>a. wa_worker_id a = i \<and> wa_completed_at a = None \<and> p (wa_run_id a)) (assigns_t d)"
  let ?v = "\<lambda>w. w \<in> set ks" and ?n = "\<lambda>w. w \<in> set js \<and> w \<notin> set ks"
  let ?a = "\<lambda>ks a. if wa_completed_at a = None \<and> wa_run_id a \<in> set ks then timeout_assignment ''TIMEOUT'' now a else a"
  have a: "list_ex (\<lambda>a. wa_worker_id a = i \<and> wa_completed_at a = None \<and> wa_run_id a \<in> set js) (map (?a ks) (assigns_t d)) = ?e ?n i"
    for i by (auto simp: list_ex_iff timeout_assignment_def)
  have u: "?e (\<lambda>w. w \<in> set (ks @ js)) i \<longleftrightarrow> ?e ?v i \<or> ?e ?n i" for i by (auto simp: list_ex_iff)
  have s: "map (?a js) (map (?a ks) (assigns_t d)) = map (?a (ks @ js)) (assigns_t d)"
    by (auto simp: timeout_assignment_def)
  have ad: "assigns_t (abandoned now ks d) = map (?a ks) (assigns_t d)" by (simp add: abandoned_def)
  have j: "abandons js (abandoned now ks d) w \<longleftrightarrow> w_status w = WS_BUSY \<and> ?e ?n (w_id w)" for w
    unfolding abandons_def ad a ..
  have b: "abandons (ks @ js) d w \<longleftrightarrow> w_status w = WS_BUSY \<and> (?e ?v (w_id w) \<or> ?e ?n (w_id w))" for w
    unfolding abandons_def u ..
  have i: "abandons ks d w \<longleftrightarrow> w_status w = WS_BUSY \<and> ?e ?v (w_id w)" for w unfolding abandons_def ..
  let ?g = "\<lambda>w. if abandons ks d w then give_up now w else w"
  have w: "map (\<lambda>w. if abandons js (abandoned now ks d) w then give_up now w else w) (map ?g (workers_t d))
      = map (\<lambda>w. if abandons (ks @ js) d w then give_up now w else w) (workers_t d)"
    unfolding i j b by auto
  have r: "map (\<lambda>r. if pr_id r \<in> set js then requeue r else r) (map (\<lambda>r. if pr_id r \<in> set ks then requeue r else r) (runs_t d))
      = map (\<lambda>r. if pr_id r \<in> set (ks @ js) then requeue r else r) (runs_t d)"
    by (simp add: requeue_def)
  show "abandoned now js (abandoned now ks d) = abandoned now (ks @ js) d"
  proof -
    have "abandoned now js (abandoned now ks d) = d\<lparr>
       runs_t := map (\<lambda>r. if pr_id r \<in> set js then requeue r else r) (map (\<lambda>r. if pr_id r \<in> set ks then requeue r else r) (runs_t d)),
       workers_t := map (\<lambda>w. if abandons js (abandoned now ks d) w then give_up now w else w) (map ?g (workers_t d)),
       assigns_t := map (?a js) (map (?a ks) (assigns_t d))\<rparr>"
      by (subst (1) abandoned_def) (simp add: abandoned_def)
    then show ?thesis unfolding w r s by (simp only: abandoned_def)
  qed
  have "length (filter (\<lambda>w. w_status w = WS_BUSY \<and> ?e ?v (w_id w)) ws)
      + length (filter (\<lambda>w. w_status w = WS_BUSY \<and> ?e ?n (w_id w)) (map (\<lambda>w. if w_status w = WS_BUSY \<and> ?e ?v (w_id w) then give_up now w else w) ws))
      = length (filter (\<lambda>w. w_status w = WS_BUSY \<and> (?e ?v (w_id w) \<or> ?e ?n (w_id w))) ws)" for ws
    by (induction ws) auto
  then show "length (filter (abandons ks d) (workers_t d)) + length (filter (abandons js (abandoned now ks d)) (workers_t (abandoned now ks d)))
    = length (filter (abandons (ks @ js) d) (workers_t d))"
    unfolding j b by (simp add: abandoned_def i [abs_def])
qed

lemma abandoned_Nil: "abandoned now [] d = d" "abandons [] d w = False"
proof -
  have "list_ex (\<lambda>a. False) as = False" for as :: "worker_assignment list" by (induction as) simp_all
  then show "abandons [] d w = False" "abandoned now [] d = d" by (simp_all add: abandoned_def abandons_def)
qed

lemma fold_recover_run_rows:
  assumes "distinct (map w_id (workers_t d))" "distinct (map wa_id (assigns_t d))"
  shows "fold (recover_run now) rs (d, n) =
    (abandoned now (map pr_id rs) d, n + length (filter (abandons (map pr_id rs) d) (workers_t d)))"
  using assms
proof (induction rs arbitrary: d n)
  case Nil
  show ?case by (simp add: abandoned_Nil)
next
  case (Cons r rs)
  let ?d = "abandoned now [pr_id r] d"
  have "map w_id (workers_t ?d) = map w_id (workers_t d)" "map wa_id (assigns_t ?d) = map wa_id (assigns_t d)"
    by (simp_all add: abandoned_def timeout_assignment_def)
  then have "distinct (map w_id (workers_t ?d))" "distinct (map wa_id (assigns_t ?d))" using Cons.prems by simp_all
  from Cons.IH [OF this] show ?case
    using abandoned_abandoned [where now = now and js = "map pr_id rs" and ks = "[pr_id r]" and d = d]
    by (simp add: recover_run_rows [OF Cons.prems])
qed


section \<open>Both phases\<close>

text \<open>What recovery looks at, read off the database before it.\<close>

definition worker_stale :: "time \<Rightarrow> db \<Rightarrow> int \<Rightarrow> bool" where
  "worker_stale cutoff d i \<longleftrightarrow> list_ex (\<lambda>w. w_id w = i \<and> stale cutoff w) (workers_t d)"

definition held_by_stale :: "time \<Rightarrow> db \<Rightarrow> int \<Rightarrow> bool" where
  "held_by_stale cutoff d i \<longleftrightarrow>
     list_ex (\<lambda>a. wa_run_id a = i \<and> wa_completed_at a = None \<and> worker_stale cutoff d (wa_worker_id a)) (assigns_t d)"

definition run_lost :: "time \<Rightarrow> db \<Rightarrow> int \<Rightarrow> bool" where
  "run_lost cutoff d i \<longleftrightarrow> \<not> held_by_stale cutoff d i \<and> list_ex (\<lambda>r. pr_id r = i \<and> orphaned cutoff r) (runs_t d)"

definition released :: "time \<Rightarrow> db \<Rightarrow> worker \<Rightarrow> bool" where
  "released cutoff d w \<longleftrightarrow> w_status w = WS_BUSY \<and>
     list_ex (\<lambda>a. open_on (w_id w) a \<and> run_lost cutoff d (wa_run_id a)) (assigns_t d)"

lemma expired_keys:
  "map w_id (workers_t (expired why now vs d)) = map w_id (workers_t d)"
  "map wa_id (assigns_t (expired why now vs d)) = map wa_id (assigns_t d)"
  by (simp_all add: expired_def timeout_assignment_def reset_worker_def)

lemma recovery_phases_rows:
  fixes st :: settings and now :: time
  assumes "db_ok d"
  defines "vs \<equiv> map w_id (filter (stale (recovery_cutoff st now)) (workers_t d))"
  defines "d1 \<equiv> expired ''TIMEOUT'' now vs d"
  defines "js \<equiv> map pr_id (filter (orphaned (recovery_cutoff st now)) (runs_t d1))"
  shows "recover_stale_workers st d now = (abandoned now js d1, length vs + length (filter (abandons js d1) (workers_t d1)))"
proof -
  have k: "distinct (map w_id (workers_t d))" "distinct (map wa_id (assigns_t d))"
    using db_ok_keys [OF assms(1)] keys_ok_distinct by blast+
  have k1: "distinct (map w_id (workers_t d1))" "distinct (map wa_id (assigns_t d1))"
    using k by (simp_all only: d1_def expired_keys)
  show ?thesis unfolding recover_stale_workers_def Let_def fold_recover_worker_rows [OF k(2)]
    using fold_recover_run_rows [OF k1] by (simp add: d1_def js_def vs_def)
qed

lemma orphaned_requeue: "orphaned c (if pr_status r = RS_IN_PROGRESS \<and> p then requeue r else r) \<longleftrightarrow> orphaned c r \<and> \<not> p"
  by (auto simp: orphaned_def requeue_def)

lemma recovery_rows:
  fixes st :: settings and now :: time
  assumes "db_ok d"
  defines "c \<equiv> recovery_cutoff st now"
  shows "recover_stale_workers st d now =
    (d\<lparr>runs_t := map (\<lambda>r. if pr_status r = RS_IN_PROGRESS \<and> (held_by_stale c d (pr_id r) \<or> orphaned c r) then requeue r else r) (runs_t d),
       workers_t := map (\<lambda>w. if stale c w then reset_worker now w else if released c d w then give_up now w else w) (workers_t d),
       assigns_t := map (\<lambda>a. if wa_completed_at a = None \<and> (worker_stale c d (wa_worker_id a) \<or> run_lost c d (wa_run_id a))
         then timeout_assignment ''TIMEOUT'' now a else a) (assigns_t d)\<rparr>,
     length (filter (\<lambda>w. stale c w \<or> released c d w) (workers_t d)))"
proof -
  define vs where "vs = map w_id (filter (stale c) (workers_t d))"
  define e where "e = expired ''TIMEOUT'' now vs d"
  define js where "js = map pr_id (filter (orphaned c) (runs_t e))"
  have k: "distinct (map w_id (workers_t d))" "distinct (map pr_id (runs_t d))"
    using db_ok_keys [OF assms(1)] keys_ok_distinct by blast+
  have vs: "i \<in> set vs \<longleftrightarrow> worker_stale c d i" for i by (auto simp: vs_def worker_stale_def list_ex_iff)
  have ws: "worker_stale c d (w_id w) \<longleftrightarrow> stale c w" if "w \<in> set (workers_t d)" for w
    using that k(1) unfolding worker_stale_def list_ex_iff distinct_map by (metis inj_onD)
  have r1: "runs_t e = map (\<lambda>r. if pr_status r = RS_IN_PROGRESS \<and> held_by_stale c d (pr_id r) then requeue r else r) (runs_t d)"
    and w1: "workers_t e = map (\<lambda>w. if worker_stale c d (w_id w) then reset_worker now w else w) (workers_t d)"
    and a1: "assigns_t e = map (\<lambda>a. if wa_completed_at a = None \<and> worker_stale c d (wa_worker_id a)
         then timeout_assignment ''TIMEOUT'' now a else a) (assigns_t d)"
    and u: "e\<lparr>runs_t := x, workers_t := y, assigns_t := z\<rparr> = d\<lparr>runs_t := x, workers_t := y, assigns_t := z\<rparr>" for x y z
    by (simp_all add: e_def expired_def vs held_by_stale_def del: set_map)
  have js: "i \<in> set js \<longleftrightarrow> run_lost c d i" for i
  proof -
    have "i \<in> set js \<longleftrightarrow> (\<exists>r \<in> set (runs_t d). i = pr_id r \<and> orphaned c r \<and> \<not> held_by_stale c d (pr_id r))"
      unfolding js_def r1 by (auto simp: orphaned_def requeue_def)
    then show ?thesis by (auto simp: run_lost_def list_ex_iff)
  qed
  have rl: "run_lost c d (pr_id r) \<longleftrightarrow> orphaned c r \<and> \<not> held_by_stale c d (pr_id r)" if "r \<in> set (runs_t d)" for r
    using that k(2) unfolding run_lost_def list_ex_iff distinct_map by (metis inj_onD)
  have ab: "abandons js e w \<longleftrightarrow> \<not> worker_stale c d (w_id w) \<and> released c d w" for w
    unfolding abandons_def a1 js released_def open_on_def by (auto simp: list_ex_iff timeout_assignment_def)
  let ?r = "\<lambda>r. if pr_status r = RS_IN_PROGRESS \<and> held_by_stale c d (pr_id r) then requeue r else r"
  let ?w = "\<lambda>w. if worker_stale c d (w_id w) then reset_worker now w else w"
  let ?a = "\<lambda>a. if wa_completed_at a = None \<and> worker_stale c d (wa_worker_id a) then timeout_assignment ''TIMEOUT'' now a else a"
  have r: "map (\<lambda>r. if pr_id r \<in> set js then requeue r else r) (map ?r (runs_t d)) =
      map (\<lambda>r. if pr_status r = RS_IN_PROGRESS \<and> (held_by_stale c d (pr_id r) \<or> orphaned c r) then requeue r else r) (runs_t d)"
    unfolding js using rl by (auto simp: orphaned_def)
  have w: "map (\<lambda>w. if abandons js e w then give_up now w else w) (map ?w (workers_t d)) =
      map (\<lambda>w. if stale c w then reset_worker now w else if released c d w then give_up now w else w) (workers_t d)"
    unfolding ab using ws by (auto simp: reset_worker_def)
  have a: "map (\<lambda>a. if wa_completed_at a = None \<and> wa_run_id a \<in> set js then timeout_assignment ''TIMEOUT'' now a else a) (map ?a (assigns_t d)) =
      map (\<lambda>a. if wa_completed_at a = None \<and> (worker_stale c d (wa_worker_id a) \<or> run_lost c d (wa_run_id a))
         then timeout_assignment ''TIMEOUT'' now a else a) (assigns_t d)"
    unfolding js by (auto simp: timeout_assignment_def)
  have "length (filter P xs) + length (filter (\<lambda>x. \<not> P x \<and> Q x) xs) = length (filter (\<lambda>x. P x \<or> Q x) xs)" for P Q and xs :: "worker list"
    by (induction xs) auto
  moreover have "filter (abandons js e \<circ> ?w) (workers_t d) = filter (\<lambda>w. \<not> stale c w \<and> released c d w) (workers_t d)"
    by (rule filter_cong) (use ws in \<open>auto simp: ab reset_worker_def\<close>)
  ultimately have n: "length vs + length (filter (abandons js e) (map ?w (workers_t d))) =
      length (filter (\<lambda>w. stale c w \<or> released c d w) (workers_t d))"
    by (simp add: filter_map vs_def)
  show ?thesis
    unfolding recovery_phases_rows [OF assms(1), where st = st and now = now, folded c_def, folded vs_def, folded e_def, folded js_def] abandoned_def
    unfolding r1 w1 a1 u n r w a ..
qed

section \<open>Property\<close>

text \<open>
  C7: recovery in one formula.  A run in progress is queued again exactly when an
  open assignment holds it on a stale worker, or it is orphaned (no Jenkins build,
  started before the cutoff or never).  A stale worker is reset; another busy
  worker is released exactly when it has an open assignment of an orphaned run no
  stale worker holds.  The open assignments concerned are closed as timed out.
  Every other row of every table is untouched, the result counts the workers
  freed, the database stays intact, and no worker is stale and no run orphaned
  afterwards.
\<close>

theorem recovery_complete:
  fixes st :: settings and now :: time
  assumes "db_ok d"
  defines "c \<equiv> recovery_cutoff st now"
  shows "recover_stale_workers st d now =
      (d\<lparr>runs_t := map (\<lambda>r. if pr_status r = RS_IN_PROGRESS \<and> (held_by_stale c d (pr_id r) \<or> orphaned c r) then requeue r else r) (runs_t d),
         workers_t := map (\<lambda>w. if stale c w then reset_worker now w else if released c d w then give_up now w else w) (workers_t d),
         assigns_t := map (\<lambda>a. if wa_completed_at a = None \<and> (worker_stale c d (wa_worker_id a) \<or> run_lost c d (wa_run_id a))
           then timeout_assignment ''TIMEOUT'' now a else a) (assigns_t d)\<rparr>,
       length (filter (\<lambda>w. stale c w \<or> released c d w) (workers_t d)))
    \<and> db_ok (fst (recover_stale_workers st d now))
    \<and> list_all (\<lambda>w. \<not> stale c w) (workers_t (fst (recover_stale_workers st d now)))
    \<and> list_all (\<lambda>r. \<not> orphaned c r) (runs_t (fst (recover_stale_workers st d now)))"
proof (intro conjI)
  show "list_all (\<lambda>w. \<not> stale c w) (workers_t (fst (recover_stale_workers st d now)))"
    using recovery_leaves_no_stale [OF assms(1)] unfolding c_def by (simp add: list_all_iff)
  show "list_all (\<lambda>r. \<not> orphaned c r) (runs_t (fst (recover_stale_workers st d now)))"
    using recovery_leaves_no_orphan [OF assms(1)] unfolding c_def by (simp add: list_all_iff)
  show "db_ok (fst (recover_stale_workers st d now))" by (rule recover_phases(4) [OF assms(1)])
qed (unfold c_def, rule recovery_rows [OF assms(1)])

theorem recovery_complete_witness:
  "db_ok running_db \<and> list_ex (stale (recovery_cutoff default_settings (seconds 1801))) (workers_t running_db)
   \<and> snd (recover_stale_workers default_settings running_db (seconds 1801)) = 1
   \<and> runs_t (fst (recover_stale_workers default_settings running_db (seconds 1801))) = [requeue (hd (runs_t running_db))]"
proof -
  note c = recovery_complete [OF running_db_ok, of default_settings "seconds 1801", THEN conjunct1]
  have s: "list_ex (stale (recovery_cutoff default_settings (seconds 1801))) (workers_t running_db)" by code_simp
  show ?thesis by (rule conjI [OF running_db_ok conjI [OF s]], unfold c) code_simp
qed

end
