(* ===== verification/Scripts.thy ===== *)
theory Scripts
  imports Evolution
begin

text \<open>
  The operator scripts: \<open>delete_fake_repo.py\<close>, \<open>scripts/reset_db.py\<close>,
  \<open>scripts/query_build_events.py\<close> and \<open>scripts/test_notify.py\<close>.  A bulk DELETE is
  refused as a whole when a row of another table still refers to one of its rows
  (the foreign keys are declared without ON DELETE).  Printing is a list of lines.
\<close>

section \<open>Deleting the sample repository\<close>

definition FAKE_REPO :: string where
  "FAKE_REPO = ''https://github.com/test/sample-repo.git''"

definition delete_fake_repo :: "db \<Rightarrow> (db \<times> nat) res" where
  "delete_fake_repo d =
     (let ids = map pr_id (filter (\<lambda>r. pr_repo_url r = FAKE_REPO) (runs_t d)) in
      if list_ex (\<lambda>s. se_run_id s \<in> set ids) (stages_t d) \<or> list_ex (\<lambda>a. wa_run_id a \<in> set ids) (assigns_t d)
      then Inl (OtherError ''IntegrityError'')
      else Inr (d\<lparr>runs_t := filter (\<lambda>r. pr_repo_url r \<noteq> FAKE_REPO) (runs_t d)\<rparr>, length ids))"

section \<open>Resetting the database\<close>

definition wiped_worker :: "worker \<Rightarrow> worker" where
  "wiped_worker w = w\<lparr>w_status := WS_IDLE, w_load := 0, w_current_job := None, w_jobs_run := 0\<rparr>"

definition reset_db :: "db \<Rightarrow> db \<times> nat list" where
  "reset_db d =
     (d\<lparr>stages_t := [], assigns_t := [], runs_t := [], events_t := [], metrics_t := [],
        workers_t := map wiped_worker (workers_t d)\<rparr>,
      [length (stages_t d), length (assigns_t d), length (runs_t d), length (events_t d), length (metrics_t d)])"

section \<open>Listing the latest analyses\<close>

text \<open>\<open>str(datetime)\<close> is the ISO format with a blank in the place of the T.\<close>

definition str_time :: "time \<Rightarrow> string" where
  "str_time t = replace_char CHR ''T'' '' '' (isoformat t)"

definition event_line :: "build_event \<Rightarrow> string" where
  "event_line e = ''ID: '' @ str_int (be_id e) @ '' | job: '' @ be_job_name e @ ''#'' @ str_int (be_build_number e)
     @ '' | type: '' @ be_failure_type e @ '' | severity: '' @ be_severity e @ '' | delivery: '' @ be_delivery_status e
     @ '' | processed_at: '' @ str_time (be_processed_at e)"

definition query_build_events :: "db \<Rightarrow> string list" where
  "query_build_events d =
     (let rows = take 5 (sort_key (\<lambda>e. - be_id e) (events_t d)) in
      if rows = [] then [''No BuildEvent records found.''] else map event_line rows)"

section \<open>A test notification\<close>

definition test_message :: notification where
  "test_message = \<lparr>nt_job_name = ''test-job'', nt_build_number = 123,
     nt_summary_text = ''This is a test summary from notifier'',
     nt_fix_suggestions = [''restart service'', ''check config''], nt_severity = ''P2'',
     nt_log_url = ''http://localhost:8080/job/test/123/'', nt_error_excerpt = [], nt_failure_type = ''unknown''\<rparr>"

definition test_notify ::
    "settings \<Rightarrow> (slack_message \<Rightarrow> string option) \<Rightarrow> (email_message \<Rightarrow> string option) \<Rightarrow> (string \<times> string) list" where
  "test_notify st post smtp = notify st post smtp test_message (Some ''dev@example.com'') (Some (SLACK_DEFAULT_CHANNEL st))"

section \<open>Properties\<close>

text \<open>
  After the reset the history is gone, the workers and the learnt patterns stay,
  every worker is idle and unused, the invariant of the service holds and the
  keys of the deleted rows are not handed out again.
\<close>

theorem reset_db_result:
  assumes "service_ok d"
  shows "service_ok (fst (reset_db d)) \<and> runs_t (fst (reset_db d)) = [] \<and> events_t (fst (reset_db d)) = []
    \<and> map w_id (workers_t (fst (reset_db d))) = map w_id (workers_t d)
    \<and> list_all (\<lambda>w. w_status w = WS_IDLE \<and> w_load w = 0) (workers_t (fst (reset_db d)))
    \<and> patterns_t (fst (reset_db d)) = patterns_t d \<and> next_run (fst (reset_db d)) = next_run d"
proof -
  let ?d = "fst (reset_db d)"
  have w: "map w_id (workers_t ?d) = map w_id (workers_t d)" by (simp add: reset_db_def wiped_worker_def)
  have k: "keys_ok w_id (workers_t ?d) (next_worker ?d)"
    using db_ok_keys(3) [OF service_okD(1) [OF assms]] unfolding keys_ok_iff w by (simp add: reset_db_def)
  have one: "1 \<le> next_run d" "1 \<le> next_stage d" "1 \<le> next_assign d" "1 \<le> next_event d"
    using db_ok_keys [OF service_okD(1) [OF assms]] by (simp_all add: keys_ok_def)
  have "db_ok ?d" using k one db_ok_keys(6) [OF service_okD(1) [OF assms]]
    by (simp add: db_ok_def tables_ok_def refs_ok_def reset_db_def keys_ok_def)
  moreover have "workers_ok ?d" using service_okD(2) [OF assms]
    by (auto simp: workers_ok_def reset_db_def wiped_worker_def worker_ok_def load_ok_def)
  moreover have "retries_ok ?d" "signatures_ok ?d"
    using service_okD(4) [OF assms] by (simp_all add: retries_ok_def signatures_ok_def reset_db_def)
  ultimately show ?thesis using w by (simp add: service_ok_def reset_db_def wiped_worker_def list_all_iff)
qed

theorem reset_db_result_witness:
  "get_run_row running_db 1 \<noteq> None \<and> service_ok running_db \<and> runs_t (fst (reset_db running_db)) = []
   \<and> service_ok (fst (reset_db running_db))"
proof -
  have w: "workers_ok running_db"
    by (simp add: running_db_def example_db_def example_worker_def workers_ok_def worker_ok_def load_ok_def new_worker_def)
  have s: "signatures_ok running_db"
    by (simp add: running_db_def example_db_def empty_db_def signatures_ok_def)
  have "service_ok running_db" unfolding service_ok_def
    by (intro conjI running_db_ok w s) (simp add: retries_ok_def running_db_def new_run_def)
  then show ?thesis using reset_db_result [of running_db] running_db_run by (simp add: get_run_def)
qed

text \<open>
  The script that removes the runs of the sample repository cannot remove one
  that the service has scheduled: its stages refer to it, and the DELETE is
  refused as a whole.
\<close>

theorem fake_repo_delete_refused:
  assumes "db_ok d" "schedule_pipeline st http_get d q now = Inr (d', run, effs)" "sr_repo_url q = FAKE_REPO"
  shows "delete_fake_repo d' = Inl (OtherError ''IntegrityError'')"
proof -
  have "found_stages st http_get q \<noteq> [] \<or> ALLOW_SYNTHETIC_PIPELINE_STAGES st"
    using assms(2) by (cases "ALLOW_SYNTHETIC_PIPELINE_STAGES st") (auto simp: schedule_pipeline_def Let_def)
  from schedule_pipeline_stored [OF assms(1) this, of now] show ?thesis
  proof cases
    case (1 e)
    then have e: "e = d'" using assms(2) by simp
    let ?run = "scheduled_run st http_get d q now"
    have r: "?run \<in> set (runs_t d')" "pr_id ?run = next_run d" "pr_repo_url ?run = FAKE_REPO"
      using run_tbl.get_SomeD [OF 1(4) [unfolded get_run_def]] assms(3) e by (simp_all add: scheduled_run_def new_run_def)
    have "run_stages d' (next_run d) \<noteq> []" using 1(5) e by (auto simp: DEFAULT_STAGES_def split: if_splits)
    then obtain s where "s \<in> set (run_stages d' (next_run d))" by (meson hd_in_set)
    then have "s \<in> set (stages_t d')" "se_run_id s = next_run d" by (simp_all add: run_stages_def)
    moreover have "next_run d \<in> pr_id ` set (filter (\<lambda>r. pr_repo_url r = FAKE_REPO) (runs_t d'))"
      using r by (force intro: image_eqI)
    ultimately have "list_ex (\<lambda>s. se_run_id s \<in> set (map pr_id (filter (\<lambda>r. pr_repo_url r = FAKE_REPO) (runs_t d')))) (stages_t d')"
      unfolding list_ex_iff by (intro bexI [of _ s]) simp_all
    then show ?thesis by (simp add: delete_fake_repo_def Let_def)
  qed
qed

definition fake_request :: schedule_request where
  "fake_request = example_request\<lparr>sr_repo_url := FAKE_REPO\<rparr>"

theorem fake_repo_delete_refused_witness:
  "\<exists>d' run effs. schedule_pipeline (default_settings\<lparr>ALLOW_SYNTHETIC_PIPELINE_STAGES := True\<rparr>) jenkinsfile_server empty_db fake_request 5
      = Inr (d', run, effs) \<and> delete_fake_repo d' = Inl (OtherError ''IntegrityError'')"
proof -
  let ?st = "default_settings\<lparr>ALLOW_SYNTHETIC_PIPELINE_STAGES := True\<rparr>"
  have "found_stages ?st jenkinsfile_server fake_request \<noteq> [] \<or> ALLOW_SYNTHETIC_PIPELINE_STAGES ?st" by simp
  from schedule_pipeline_stored [OF db_ok_empty this, of 5] show ?thesis
  proof cases
    case (1 d')
    have "sr_repo_url fake_request = FAKE_REPO" by (simp add: fake_request_def)
    from fake_repo_delete_refused [OF db_ok_empty 1(1) this] 1(1) show ?thesis by blast
  qed
qed

end
