(* ===== verification/Spec2Isabelle.thy ===== *)
theory Spec2Isabelle
  imports Py_Regex Priority Worker_Pool Jenkinsfile_Parser Realtime_Data Job_Scheduler Scheduler
    Serialise Workers_Router Jobs_Router Metrics Jenkins_Urls Pipeline_Tasks
    Execution Analysis_Task Classifier Webhook_Router
    Github_Webhook UI_Actions UI_Config UI_Reports Startup Application Evolution System Tick_Protocol Progress Recovery Scripts
begin

text \<open>
  Verification development for the Jenkins Log Intelligence System: a FastAPI
  service (\<open>main.py\<close>, \<open>app/\<close>) that accepts pipeline requests and GitHub pushes,
  queues runs by priority, dispatches them to a pool of workers, triggers and
  polls Jenkins builds, analyses the logs of failed ones with language models and
  reports to Slack, email and a dashboard.

  \<^bold>\<open>The parts and how they interact.\<close>  All state that survives a request is in one
  relational database; requests, webhooks, Celery tasks, the scheduler loop and
  the execution threads communicate through it alone.  The model has it as one
  record (\<open>db\<close> in \<open>Models\<close>: the rows of every table in scan order with the next
  value of its key), a transaction is a function from \<open>db\<close> to \<open>db\<close> with its answer,
  an exception is \<open>Inl\<close> of a \<open>pyerr\<close>, work started in another thread is a list of
  \<open>effect\<close> values.  The clock is an argument: each function receives the times it
  reads, in microseconds.

  \<^bold>\<open>Theories and sources.\<close>
  \<^item> \<open>Prelude\<close>: errors as sums, strings, lists kept by key, stable sorting, the
    \<open>db_simps\<close> collection.  \<open>Py_Regex\<close>: a matcher for the part of Python's \<open>re\<close> the
    sources use (greedy, backtracking, with groups).  \<open>Json\<close>, \<open>Json_Text\<close>: JSON
    values, \<open>json.loads\<close> and \<open>json.dumps\<close> as text.
  \<^item> \<open>Config\<close> (\<open>app/config.py\<close>), \<open>Models\<close> (\<open>app/models.py\<close>, \<open>app/pipeline_models.py\<close>,
    \<open>app/worker_models.py\<close>), \<open>Integrity\<close> (primary and foreign keys: \<open>db_ok\<close>).
  \<^item> Services (\<open>app/services/\<close>): \<open>Priority\<close>, \<open>Worker_Pool\<close>, \<open>Jenkinsfile_Parser\<close>,
    \<open>Realtime_Data\<close>, \<open>Job_Scheduler\<close>, \<open>Log_Parser\<close>, \<open>Log_Fetcher\<close>, \<open>Classifier\<close> (with
    the rules of \<open>rules/classifier_rules.yaml\<close>), \<open>Pattern_Store\<close>, \<open>Root_Cause\<close>,
    \<open>Notifier\<close>, \<open>Serialise\<close> (the \<open>serialise_\<close> functions of two of them).
  \<^item> Scheduling: \<open>Scheduler\<close> (recovery, dispatch and retry of \<open>app/scheduler.py\<close>),
    \<open>Recovery\<close> (its recovery phases in closed form),
    \<open>Execution\<close> (its \<open>_run_execution\<close>), \<open>Metrics\<close> (its metrics and \<open>app/utils.py\<close>),
    \<open>Jenkins_Urls\<close> and \<open>Pipeline_Tasks\<close> (\<open>app/pipeline_tasks.py\<close>), \<open>Analysis_Task\<close>
    (\<open>app/tasks.py\<close>), \<open>Startup\<close> and \<open>Application\<close> (\<open>main.py\<close>).
  \<^item> Routers (\<open>app/routers/\<close>): \<open>Workers_Router\<close>, \<open>Jobs_Router\<close>, \<open>Webhook_Router\<close>,
    \<open>Github_Webhook\<close>, and \<open>ui.py\<close> in \<open>UI_Helpers\<close>, \<open>UI_Actions\<close>, \<open>UI_Config\<close>, \<open>UI_Queue\<close>
    and \<open>UI_Reports\<close>; \<open>Request_Log\<close> (\<open>app/request_log.py\<close>).  \<open>Scripts\<close>: the operator
    scripts.
  \<^item> The whole: \<open>Evolution\<close> (the invariant \<open>service_ok\<close> and the preorder \<open>evolves\<close>,
    one lemma per operation), \<open>System\<close> (the service as a step relation over all its
    transactions), \<open>Tick_Protocol\<close> (ticks that run at the same time, transaction by
    transaction), \<open>Progress\<close> (a queued run does not starve).

  \<^bold>\<open>Interfaces.\<close>  \<open>orm_table\<close> (Models) says what a table returns after an insert and
  an update and is interpreted for all six tables; the dispatch loop (\<open>Scheduler\<close>) is proved
  against the interface \<open>worker_allocator\<close>, which \<open>Worker_Pool\<close> states and provides;
  \<open>evolution\<close> (Evolution) states what a preorder of states gives for folds and is
  interpreted for \<open>evolves\<close>, for the paths of \<open>System\<close> and for \<open>leaves\<close> and
  \<open>same_keys\<close> of \<open>Tick_Protocol\<close>.

  \<^bold>\<open>What the lemma groups show.\<close>  Per component: every operation on every branch,
  the preservation of \<open>db_ok\<close> and \<open>workers_ok\<close>, frame lemmas.  Dispatch follows the
  order of priority and arrival, starts exactly a prefix of the queue and puts the
  rest back; recovery frees exactly the stale workers and those of orphaned runs, queues
  their runs again and touches nothing else; retries wait for their backoff; an
  execution ends its run with the first result Jenkins reports in 120 polls, or as
  a failure.  The text components are
  proved against declarative readings: stages written to a Jenkinsfile are found
  again, blocks of a log are the lines around its anchors, paths and events round
  trip.  The pattern store refines an abstract map of signatures, the request log
  a full history.  Across components: every database reachable by any interleaving
  is well formed, runs keep their identity and never exceed their retries.  A run
  has one owner among concurrent ticks and executions unless a recovery, a retry
  or a reset of its worker puts it back into the queue meanwhile: these steps are
  unguarded in the model as in the code.
  Where the code breaks what it means to do, the theorem states the behaviour it
  has (two runs on one worker, a cancelled run queued again, a run built twice).

  \<^bold>\<open>Bounds and fuel.\<close>  An execution polls at most 120 times (\<open>max_polls\<close>, as in the
  source); the Celery retry limits 3 and 60 are arguments compared with the
  source's constants.  The regular-expression matcher recurses on the expression
  and the remaining text and needs no fuel; the JSON reader has fuel twice the
  length of the text plus one: of the two functions that call each other one
  consumes a character each time.  The
  source's limits (1000 metrics rows, 20 messages per client, 500, 200 and 50 rows
  per page, 10 MB of log, 16000 characters of excerpt) are the model's.

  \<^bold>\<open>Parameters.\<close>  The HTTP client (answers as functions of the request), the two
  language models, SHA-256 and HMAC, the TF-IDF similarity, Slack, SMTP, ngrok and
  what psutil measures are arguments.  Nothing is assumed of them except where a
  theorem names it (for instance that a digest is ASCII).

  \<^bold>\<open>Strings.\<close>  A string is a list of 8-bit characters, so code points up to 255 are
  exact and greater ones (the emoji of some messages) have the stand-in
  \<open>REPLACEMENT\<close>.  Rationals stand for floats.

  \<^bold>\<open>Not modelled.\<close>  \<open>app/db.py\<close> (engine and session construction), the creation and
  alteration of tables, connection pools and the branches that answer a failure of
  the database itself, log messages, pydantic's validation of requests before a
  handler runs, the tests and smoke tests, the browser code under \<open>frontend/\<close>.
  Locks between processes do not exist in the code; what follows from that is in
  \<open>Tick_Protocol\<close>, with transactions as the atomic steps.
\<close>

end
